(* ===== verification/Prelude.thy ===== *)
theory Prelude
  imports Main "HOL-Library.Word"
begin

text \<open>
  The base of the library: bytes and big-endian integers, Rust strings (UTF-8 byte sequences),
  the result type with its two failure outcomes (\<open>Err\<close> for a returned error, \<open>Panic\<close> for an
  aborted thread), the byte sources the protocol readers consume, and the interface of a wire
  codec as a locale whose lemmas every protocol message of the development inherits.
\<close>

unbundle bit_operations_syntax

named_theorems be_simps \<open>length and round trip of big-endian integers\<close>
named_theorems res_simps \<open>evaluation of result-valued computations\<close>
named_theorems io_simps \<open>evaluation of reads on byte sources\<close>

section \<open>Bytes and big-endian integers\<close>

type_synonym byte = "8 word"
type_synonym u16 = "16 word"
type_synonym u32 = "32 word"
type_synonym u64 = "64 word"
type_synonym u128 = "128 word"

text \<open>\<open>be_bytes n x\<close> is the \<open>n\<close>-byte big-endian form of \<open>x\<close> (higher bits are dropped, as \<open>as\<close>
  casts do); \<open>be_val\<close> reads a byte sequence back.\<close>

fun be_bytes :: "nat \<Rightarrow> nat \<Rightarrow> byte list" where
  "be_bytes 0 x = []"
| "be_bytes (Suc n) x = be_bytes n (x div 256) @ [word_of_nat (x mod 256)]"

definition be_val :: "byte list \<Rightarrow> nat" where
  "be_val bs = foldl (\<lambda>v b. v * 256 + unat b) 0 bs"

text \<open>\<open>to_be_bytes\<close> and \<open>from_be_bytes\<close> of the fixed-width integer types (also what
  \<open>BufMut::put_u16\<close>, \<open>Buf::get_u16\<close> and their siblings write and read).\<close>

definition be_of :: "nat \<Rightarrow> 'a::len word \<Rightarrow> byte list" where
  "be_of n w = be_bytes n (unat w)"

definition of_be :: "byte list \<Rightarrow> 'a::len word" where
  "of_be bs = word_of_nat (be_val bs)"

definition slice :: "nat \<Rightarrow> nat \<Rightarrow> 'a list \<Rightarrow> 'a list" where
  "slice i j xs = take (j - i) (drop i xs)"

text \<open>The loops \<open>a[i] ^= b[i]\<close> over two blocks.\<close>

definition xor_bytes :: "byte list \<Rightarrow> byte list \<Rightarrow> byte list" where
  "xor_bytes as bs = map2 (XOR) as bs"

section \<open>Rust strings\<close>

text \<open>A \<open>String\<close> is its UTF-8 byte sequence. \<open>str\<close> gives the bytes of a literal.\<close>

type_synonym rstring = "byte list"

definition str :: "string \<Rightarrow> rstring" where
  "str s = map of_char s"

definition cont_byte :: "byte \<Rightarrow> bool" where
  "cont_byte b \<longleftrightarrow> 0x80 \<le> b \<and> b \<le> 0xBF"

text \<open>The well-formed sequences of the Unicode standard, which \<open>String::from_utf8\<close> and
  \<open>str::from_utf8\<close> accept.\<close>

fun valid_utf8 :: "byte list \<Rightarrow> bool" where
  "valid_utf8 [] = True"
| "valid_utf8 (b # bs) =
    (if b < 0x80 then valid_utf8 bs
     else if 0xC2 \<le> b \<and> b \<le> 0xDF then
       (case bs of c # r \<Rightarrow> cont_byte c \<and> valid_utf8 r | _ \<Rightarrow> False)
     else if 0xE0 \<le> b \<and> b \<le> 0xEF then
       (case bs of c # d # r \<Rightarrow>
          (if b = 0xE0 then 0xA0 \<le> c \<and> c \<le> 0xBF
           else if b = 0xED then 0x80 \<le> c \<and> c \<le> 0x9F else cont_byte c)
          \<and> cont_byte d \<and> valid_utf8 r | _ \<Rightarrow> False)
     else if 0xF0 \<le> b \<and> b \<le> 0xF4 then
       (case bs of c # d # f # r \<Rightarrow>
          (if b = 0xF0 then 0x90 \<le> c \<and> c \<le> 0xBF
           else if b = 0xF4 then 0x80 \<le> c \<and> c \<le> 0x8F else cont_byte c)
          \<and> cont_byte d \<and> cont_byte f \<and> valid_utf8 r | _ \<Rightarrow> False)
     else False)"

definition is_ascii :: "byte list \<Rightarrow> bool" where
  "is_ascii bs \<longleftrightarrow> list_all (\<lambda>b. b < 0x80) bs"

section \<open>Outcomes of Rust computations\<close>

datatype ('a, 'e) res = Ok 'a | Err 'e | Panic

fun bind_res :: "('a, 'e) res \<Rightarrow> ('a \<Rightarrow> ('b, 'e) res) \<Rightarrow> ('b, 'e) res" where
  "bind_res (Ok a) f = f a"
| "bind_res (Err e) f = Err e"
| "bind_res Panic f = Panic"

fun map_err :: "('e \<Rightarrow> 'f) \<Rightarrow> ('a, 'e) res \<Rightarrow> ('a, 'f) res" where
  "map_err g (Ok a) = Ok a"
| "map_err g (Err e) = Err (g e)"
| "map_err g Panic = Panic"

fun is_ok :: "('a, 'e) res \<Rightarrow> bool" where
  "is_ok (Ok a) = True"
| "is_ok (Err e) = False"
| "is_ok Panic = False"

text \<open>\<open>std::io::Error\<close>: its kind and, for \<open>io::Error::other\<close>, the message.\<close>

datatype io_kind = UnexpectedEof | ConnectionRefusedKind | ConnectionAbortedKind | TimedOut
  | InvalidInput | InvalidData | WriteZero | OtherKind

datatype io_error = Io_Error io_kind rstring

definition io_other :: "string \<Rightarrow> io_error" where
  "io_other m = Io_Error OtherKind (str m)"

fun io_error_kind :: "io_error \<Rightarrow> io_kind" where
  "io_error_kind (Io_Error k m) = k"

definition io_eof :: io_error where
  "io_eof = Io_Error UnexpectedEof []"

section \<open>Byte sources\<close>

text \<open>
  An \<open>AsyncRead\<close> that a protocol reader drains with \<open>read_exact\<close>: the bytes it will still
  deliver (in whatever pieces), and what it reports afterwards. \<open>read_exact\<close> returns the bytes
  or the error; \<open>read_exact_fill\<close> is the content of the (zeroed) buffer when the result of
  \<open>read_exact\<close> is dropped.
\<close>

datatype stream_end = At_Eof | At_Error io_error

type_synonym source = "byte list \<times> stream_end"

fun end_error :: "stream_end \<Rightarrow> io_error" where
  "end_error At_Eof = io_eof"
| "end_error (At_Error e) = e"

fun read_exact :: "nat \<Rightarrow> source \<Rightarrow> (byte list \<times> source, io_error) res" where
  "read_exact n (bs, e) =
     (if n \<le> length bs then Ok (take n bs, (drop n bs, e)) else Err (end_error e))"

fun read_exact_fill :: "nat \<Rightarrow> source \<Rightarrow> byte list \<times> source" where
  "read_exact_fill n (bs, e) = (take n bs @ replicate (n - length bs) 0, (drop n bs, e))"

text \<open>\<open>AsyncBufReadExt::read_until\<close>: bytes up to and including the delimiter, or all that is left.\<close>

fun read_until :: "byte \<Rightarrow> source \<Rightarrow> (byte list \<times> source, io_error) res" where
  "read_until d (bs, e) =
     (case dropWhile (\<lambda>b. b \<noteq> d) bs of
        c # r \<Rightarrow> Ok (takeWhile (\<lambda>b. b \<noteq> d) bs @ [c], (r, e))
      | [] \<Rightarrow> (case e of At_Eof \<Rightarrow> Ok (bs, ([], e)) | At_Error er \<Rightarrow> Err er))"

text \<open>
  \<open>std::io::Cursor\<close> over a byte slice with the \<open>bytes::Buf\<close> accessors. Reading past the end
  panics; the position may be moved past the end, where \<open>remaining\<close> is 0.
\<close>

record cursor =
  cdata :: "byte list"
  cpos :: nat

definition remaining :: "cursor \<Rightarrow> nat" where
  "remaining c = length (cdata c) - cpos c"

definition get_bytes :: "nat \<Rightarrow> cursor \<Rightarrow> (byte list \<times> cursor, 'e) res" where
  "get_bytes n c =
     (if n \<le> remaining c
      then Ok (slice (cpos c) (cpos c + n) (cdata c), c\<lparr>cpos := cpos c + n\<rparr>)
      else Panic)"

section \<open>Shared lemmas\<close>

lemma length_xor_bytes [simp]: "length (xor_bytes as bs) = min (length as) (length bs)"
  by (simp add: xor_bytes_def)

lemma xor_bytes_cancel: "length as = length ks \<Longrightarrow> xor_bytes (xor_bytes as ks) ks = as"
  by (rule nth_equalityI) (simp_all add: xor_bytes_def xor.assoc)

lemma be_val_Nil [simp]: "be_val [] = 0"
  by (simp add: be_val_def)

lemma be_val_snoc [simp]: "be_val (bs @ [b]) = be_val bs * 256 + unat b"
  by (simp add: be_val_def)

lemma be_val_single [simp]: "be_val [b] = unat b"
  by (simp add: be_val_def)

lemma be_val_pair [simp]: "be_val [a, b] = unat a * 256 + unat b"
  by (simp add: be_val_def)

lemma length_be_bytes [simp, be_simps]: "length (be_bytes n x) = n"
  by (induction n arbitrary: x) simp_all

lemma unat_byte_of_nat [simp]: "unat (word_of_nat (x mod 256) :: byte) = x mod 256"
  by (simp add: unat_of_nat)

lemma unat_byte_lt [simp]: "unat (b :: byte) < 256"
  using unsigned_less [of b] by simp

lemma be_val_be_bytes: "be_val (be_bytes n x) = x mod 256 ^ n"
proof (induction n arbitrary: x)
  case (Suc n)
  have "x mod (256 * 256 ^ n) = 256 * (x div 256 mod 256 ^ n) + x mod 256"
    by (rule mod_mult2_eq)
  with Suc show ?case by (simp add: algebra_simps)
qed simp

lemma be_bytes_be_val: "be_bytes (length bs) (be_val bs) = bs"
proof (induction bs rule: rev_induct)
  case (snoc b bs)
  have "unat b < 256" by simp
  then show ?case using snoc by simp
qed simp

lemma be_val_lt: "be_val bs < 256 ^ length bs"
proof -
  have "be_val (be_bytes (length bs) (be_val bs)) = be_val bs mod 256 ^ length bs"
    by (rule be_val_be_bytes)
  then have "be_val bs = be_val bs mod 256 ^ length bs"
    by (simp only: be_bytes_be_val)
  then show ?thesis
    by (metis mod_less_divisor zero_less_numeral zero_less_power)
qed

lemma length_be_of [simp, be_simps]: "length (be_of n w) = n"
  by (simp add: be_of_def)

lemma of_be_be_of:
  fixes w :: "'a::len word"
  assumes "LENGTH('a) = 8 * n"
  shows "of_be (be_of n w) = w"
proof -
  have "unat w < 2 ^ LENGTH('a)" by (rule unsigned_less)
  then have "unat w < 256 ^ n" using assms by (simp add: power_mult)
  then show ?thesis by (simp add: of_be_def be_of_def be_val_be_bytes)
qed

lemma be_of_of_be:
  assumes "LENGTH('a) = 8 * length bs"
  shows "be_of (length bs) (of_be bs :: 'a::len word) = bs"
proof -
  have "be_val bs < 2 ^ LENGTH('a)"
    using be_val_lt [of bs] assms by (simp add: power_mult)
  then show ?thesis
    by (simp add: of_be_def be_of_def unat_of_nat be_bytes_be_val)
qed

lemma of_be_widths [simp, be_simps]:
  "of_be (be_of 2 (a :: u16)) = a"
  "of_be (be_of 4 (b :: u32)) = b"
  "of_be (be_of 8 (c :: u64)) = c"
  "of_be (be_of 16 (d :: u128)) = d"
  by (simp_all add: of_be_be_of)

lemma unat_of_be_pair [be_simps]: "unat (of_be [a, b] :: u16) = unat a * 256 + unat b"
proof -
  have "unat a < 256" "unat b < 256" by simp_all
  then have "unat a * 256 + unat b < 65536" by linarith
  then show ?thesis by (simp only: of_be_def be_val_pair unat_of_nat) simp
qed

lemma of_be_zero_pair [simp]: "of_be [0, 0] = 0"
  by (simp add: of_be_def)

lemma length_slice [simp]: "length (slice i j xs) = min (j - i) (length xs - i)"
  by (simp add: slice_def)

lemma length_str [simp]: "length (str s) = length s"
  by (simp add: str_def)

lemma valid_utf8_ascii: "is_ascii bs \<Longrightarrow> valid_utf8 bs"
  by (induction bs) (simp_all add: is_ascii_def)

lemma bind_res_Ok_iff:
  "bind_res m f = Ok b \<longleftrightarrow> (\<exists>a. m = Ok a \<and> f a = Ok b)"
  by (cases m) auto

lemma bind_res_Panic_iff:
  "bind_res m f = Panic \<longleftrightarrow> m = Panic \<or> (\<exists>a. m = Ok a \<and> f a = Panic)"
  by (cases m) auto

lemma bind_res_Err_iff:
  "bind_res m f = Err e \<longleftrightarrow> m = Err e \<or> (\<exists>a. m = Ok a \<and> f a = Err e)"
  by (cases m) auto

lemma map_err_iff [simp]:
  "map_err g m = Ok a \<longleftrightarrow> m = Ok a"
  "map_err g m = Panic \<longleftrightarrow> m = Panic"
  "map_err g m = Err f \<longleftrightarrow> (\<exists>e. m = Err e \<and> f = g e)"
  by (cases m; auto)+

lemma read_exact_not_Panic [simp]: "read_exact n s \<noteq> Panic"
  by (cases s) simp

lemma read_exact_append [io_simps]:
  "length bs = n \<Longrightarrow> read_exact n (bs @ r, e) = Ok (bs, (r, e))"
  by simp

lemma read_exact_short [io_simps]:
  "length bs < n \<Longrightarrow> read_exact n (bs, e) = Err (end_error e)"
  by simp

declare read_exact.simps [simp del]

lemma read_exact_Ok_iff:
  "read_exact n (bs, e) = Ok (x, s) \<longleftrightarrow> n \<le> length bs \<and> x = take n bs \<and> s = (drop n bs, e)"
  by (auto simp: read_exact.simps)

lemma dropWhile_neq_notin:
  "d \<notin> set bs \<Longrightarrow> dropWhile (\<lambda>b. b \<noteq> d) (bs @ r) = dropWhile (\<lambda>b. b \<noteq> d) r"
  by (induction bs) auto

lemma takeWhile_neq_notin:
  "d \<notin> set bs \<Longrightarrow> takeWhile (\<lambda>b. b \<noteq> d) (bs @ r) = bs @ takeWhile (\<lambda>b. b \<noteq> d) r"
  by (induction bs) auto

lemma read_until_hit [io_simps]:
  "d \<notin> set bs \<Longrightarrow> read_until d (bs @ d # r, e) = Ok (bs @ [d], (r, e))"
  by (simp add: takeWhile_neq_notin dropWhile_neq_notin)

lemma read_until_miss [io_simps]:
  assumes "d \<notin> set bs"
  shows "read_until d (bs, At_Eof) = Ok (bs, ([], At_Eof))"
proof -
  have "dropWhile (\<lambda>b. b \<noteq> d) bs = []" using assms by auto
  then show ?thesis by (simp only: read_until.simps list.case stream_end.case)
qed

declare read_until.simps [simp del]

lemma get_bytes_here [io_simps]:
  assumes "cdata c = pre @ bs @ post" and "cpos c = length pre" and "length bs = n"
  shows "get_bytes n c = Ok (bs, c\<lparr>cpos := length pre + n\<rparr>)"
  using assms by (simp add: get_bytes_def remaining_def slice_def)

lemma get_bytes_panic: "remaining c < n \<Longrightarrow> get_bytes n c = Panic"
  by (simp add: get_bytes_def)

text \<open>A cursor inside a buffer, by what lies before it, what lies behind its start and its offset.\<close>

definition cur_at :: "byte list \<Rightarrow> byte list \<Rightarrow> nat \<Rightarrow> cursor" where
  "cur_at pre bs i = \<lparr>cdata = pre @ bs, cpos = length pre + i\<rparr>"

lemma remaining_at [io_simps]: "remaining (cur_at pre bs i) = length bs - i"
  by (simp add: remaining_def cur_at_def)

lemma get_bytes_at [io_simps]:
  "get_bytes n (cur_at pre bs i) =
     (if n \<le> length bs - i then Ok (slice i (i + n) bs, cur_at pre bs (i + n)) else Panic)"
  by (simp add: get_bytes_def remaining_def cur_at_def slice_def)

lemma cur_at_eq_iff [simp]: "cur_at pre bs i = cur_at pre bs j \<longleftrightarrow> i = j"
  by (simp add: cur_at_def)

section \<open>The interface of a wire codec\<close>

text \<open>
  What a message type of the protocols promises to its users: \<open>enc\<close> serialises every
  well-formed value (\<open>None\<close> stands for a panic of the writer), \<open>dec\<close> gets it back from a
  source and leaves exactly what followed it, and a source that ends inside the message is an
  end-of-file error, never a value. \<open>len\<close> is the length the writer announces beforehand.
\<close>

locale codec =
  fixes wf :: "'a \<Rightarrow> bool"
    and enc :: "'a \<Rightarrow> byte list option"
    and dec :: "source \<Rightarrow> ('a \<times> source, 'e) res"
    and len :: "'a \<Rightarrow> nat"
  assumes enc_total: "wf x \<Longrightarrow> \<exists>bs. enc x = Some bs"
    and enc_len: "wf x \<Longrightarrow> enc x = Some bs \<Longrightarrow> length bs = len x"
    and dec_enc: "wf x \<Longrightarrow> enc x = Some bs \<Longrightarrow> dec (bs @ rest, e) = Ok (x, (rest, e))"
begin

lemma prefix_free:
  assumes "wf x" "wf y" "enc x = Some bs" "enc y = Some cs" "bs @ s = cs @ t"
  shows "x = y \<and> s = t"
proof -
  have "dec (bs @ s, At_Eof) = Ok (x, (s, At_Eof))"
    by (rule dec_enc [OF assms(1,3)])
  moreover have "dec (cs @ t, At_Eof) = Ok (y, (t, At_Eof))"
    by (rule dec_enc [OF assms(2,4)])
  ultimately show ?thesis unfolding assms(5) by simp
qed

lemma enc_inj:
  assumes "wf x" "wf y" "enc x = enc y"
  shows "x = y"
proof -
  obtain bs where bs: "enc x = Some bs" using enc_total [OF assms(1)] ..
  then have "enc y = Some bs" using assms(3) by simp
  from prefix_free [OF assms(1,2) bs this refl] show ?thesis by simp
qed

fun enc_all :: "'a list \<Rightarrow> byte list option" where
  "enc_all [] = Some []"
| "enc_all (x # xs) =
    (case enc x of None \<Rightarrow> None
     | Some bs \<Rightarrow> (case enc_all xs of None \<Rightarrow> None | Some cs \<Rightarrow> Some (bs @ cs)))"

fun dec_n :: "nat \<Rightarrow> source \<Rightarrow> ('a list \<times> source, 'e) res" where
  "dec_n 0 s = Ok ([], s)"
| "dec_n (Suc n) s =
    bind_res (dec s) (\<lambda>(x, s'). bind_res (dec_n n s') (\<lambda>(xs, s''). Ok (x # xs, s'')))"

lemma dec_n_enc_all:
  assumes "list_all wf xs" "enc_all xs = Some bs"
  shows "dec_n (length xs) (bs @ rest, e) = Ok (xs, (rest, e))"
  using assms
proof (induction xs arbitrary: bs)
  case (Cons x xs)
  then obtain b c where bc: "enc x = Some b" "enc_all xs = Some c" "bs = b @ c"
    by (auto split: option.splits)
  have "dec (b @ c @ rest, e) = Ok (x, (c @ rest, e))"
    by (rule dec_enc) (use Cons.prems bc in simp_all)
  moreover have "dec_n (length xs) (c @ rest, e) = Ok (xs, (rest, e))"
    by (rule Cons.IH) (use Cons.prems bc in simp_all)
  ultimately show ?case using bc by simp
qed simp

end

text \<open>A codec whose reader also notices every truncation.\<close>

locale framed_codec = codec wf enc dec len
  for wf :: "'a \<Rightarrow> bool" and enc :: "'a \<Rightarrow> byte list option"
    and dec :: "source \<Rightarrow> ('a \<times> source, 'e) res" and len :: "'a \<Rightarrow> nat" +
  fixes eof :: "io_error \<Rightarrow> 'e"
  assumes dec_trunc:
    "wf x \<Longrightarrow> enc x = Some bs \<Longrightarrow> k < length bs \<Longrightarrow> dec (take k bs, e) = Err (eof (end_error e))"
begin

lemma dec_prefix_iff:
  assumes "wf x" "enc x = Some bs"
  shows "is_ok (dec (take k bs, e)) \<longleftrightarrow> length bs \<le> k"
proof (cases "k < length bs")
  case True
  from dec_trunc [OF assms True] show ?thesis using True by simp
next
  case False
  from dec_enc [OF assms, of "[]" e] False show ?thesis by simp
qed

end

end
