(* ===== verification/Net_Addr.thy ===== *)
theory Net_Addr
  imports Prelude
begin

text \<open>
  IP and socket addresses of the Rust standard library, and the address helpers of
  \<open>shadowsocks-realm/src/socket.rs\<close> that move an address between the plain IPv4 and the
  IPv4-mapped IPv6 form.
\<close>

section \<open>Addresses\<close>

type_synonym ipv4 = u32
type_synonym ipv6 = u128

datatype ip_addr = IpV4 ipv4 | IpV6 ipv6

text \<open>A \<open>SocketAddrV6\<close> also carries a flow label and a scope id.\<close>

datatype socket_addr = V4 ipv4 u16 | V6 ipv6 u16 u32 u32

fun sock_ip :: "socket_addr \<Rightarrow> ip_addr" where
  "sock_ip (V4 ip port) = IpV4 ip"
| "sock_ip (V6 ip port flowinfo scope) = IpV6 ip"

fun sock_port :: "socket_addr \<Rightarrow> u16" where
  "sock_port (V4 ip port) = port"
| "sock_port (V6 ip port flowinfo scope) = port"

fun is_ipv6 :: "socket_addr \<Rightarrow> bool" where
  "is_ipv6 (V4 ip port) = False"
| "is_ipv6 (V6 ip port flowinfo scope) = True"

text \<open>\<open>SocketAddr::new\<close> clears the flow label and the scope id.\<close>

fun sock_new :: "ip_addr \<Rightarrow> u16 \<Rightarrow> socket_addr" where
  "sock_new (IpV4 ip) port = V4 ip port"
| "sock_new (IpV6 ip) port = V6 ip port 0 0"

text \<open>\<open>Ipv6Addr::segments\<close> and \<open>Ipv6Addr::new\<close>: the eight 16-bit groups, most significant first.\<close>

definition be_units :: "nat \<Rightarrow> byte list \<Rightarrow> u16 list" where
  "be_units n bs = map (\<lambda>i. of_be (slice (2 * i) (2 * i + 2) bs)) [0..<n]"

definition segments :: "ipv6 \<Rightarrow> u16 list" where
  "segments ip = be_units 8 (be_of 16 ip)"

definition ipv6_new :: "u16 list \<Rightarrow> ipv6" where
  "ipv6_new segs = of_be (concat (map (be_of 2) segs))"

definition to_ipv6_mapped :: "ipv4 \<Rightarrow> ipv6" where
  "to_ipv6_mapped ip = push_bit 32 0xFFFF OR ucast ip"

definition to_ipv4_mapped :: "ipv6 \<Rightarrow> ipv4 option" where
  "to_ipv4_mapped ip = (if drop_bit 32 ip = 0xFFFF then Some (ucast ip) else None)"

section \<open>Address families of a realm socket\<close>

text \<open>The socket enters through its \<open>local_addr()\<close>, \<open>None\<close> when that call fails.\<close>

definition is_dual_stack :: "socket_addr option \<Rightarrow> bool" where
  "is_dual_stack local = (case local of Some a \<Rightarrow> is_ipv6 a | None \<Rightarrow> False)"

definition map_to_socket_family :: "socket_addr option \<Rightarrow> socket_addr \<Rightarrow> socket_addr" where
  "map_to_socket_family local addr =
     (let local_is_v6 = (case local of Some a \<Rightarrow> is_ipv6 a | None \<Rightarrow> False)
      in (case addr of
            V4 ip port \<Rightarrow> if local_is_v6 then sock_new (IpV6 (to_ipv6_mapped ip)) port else addr
          | V6 ip port f s \<Rightarrow> addr))"

fun unmap :: "socket_addr \<Rightarrow> socket_addr" where
  "unmap (V6 ip port f s) =
     (case to_ipv4_mapped ip of Some v4 \<Rightarrow> sock_new (IpV4 v4) port | None \<Rightarrow> V6 ip port f s)"
| "unmap (V4 ip port) = V4 ip port"

section \<open>Lemmas\<close>

lemma upt8: "[0..<8] = [0, 1, 2, 3, 4, 5, 6, 7::nat]"
  by (simp add: upt_rec)

lemma be_of_2_of_be: "length bs = 2 \<Longrightarrow> be_of 2 (of_be bs :: u16) = bs"
  using be_of_of_be [of bs, where 'a = 16] by simp

lemma concat_segments [be_simps]: "concat (map (be_of 2) (segments ip)) = be_of 16 ip"
proof -
  have chunks: "concat (map (\<lambda>i. slice (2 * i) (2 * i + 2) bs) [0..<n]) = take (2 * n) bs"
    for bs :: "byte list" and n
    by (induction n) (simp_all add: slice_def take_add [symmetric])
  have "map (be_of 2) (segments ip) = map (\<lambda>i. slice (2 * i) (2 * i + 2) (be_of 16 ip)) [0..<8]"
    by (auto simp: segments_def be_units_def be_of_2_of_be)
  then show ?thesis using chunks [of "be_of 16 ip" 8] by simp
qed

lemma length_segments [simp]: "length (segments ip) = 8"
  by (simp add: segments_def be_units_def)

lemma ipv6_new_segments [simp, be_simps]: "ipv6_new (segments ip) = ip"
  by (simp add: ipv6_new_def concat_segments)

lemma mapped_high: "drop_bit 32 (to_ipv6_mapped ip) = 0xFFFF"
proof -
  have "drop_bit 32 (ucast ip :: ipv6) = 0"
    by (rule bit_word_eqI) (auto simp: bit_drop_bit_eq bit_ucast_iff dest: bit_imp_le_length)
  moreover have "drop_bit 32 (push_bit 32 0xFFFF :: ipv6) = 0xFFFF" by simp
  ultimately show ?thesis by (simp add: to_ipv6_mapped_def drop_bit_or)
qed

lemma mapped_low: "ucast (to_ipv6_mapped ip) = ip"
proof -
  have "ucast (push_bit 32 w OR ucast ip) = ip" for w :: ipv6
    by (rule bit_word_eqI) (auto simp: bit_ucast_iff bit_or_iff bit_push_bit_iff)
  then show ?thesis unfolding to_ipv6_mapped_def .
qed

lemma to_ipv4_mapped_mapped [simp]: "to_ipv4_mapped (to_ipv6_mapped ip) = Some ip"
  by (simp add: to_ipv4_mapped_def mapped_high mapped_low)

lemma unmap_map_family: "unmap (map_to_socket_family l a) = unmap a"
  by (cases a) (auto simp: map_to_socket_family_def Let_def split: option.splits)

lemma map_family_idem: "map_to_socket_family l (map_to_socket_family l a) = map_to_socket_family l a"
  by (cases a) (auto simp: map_to_socket_family_def Let_def split: option.splits)

lemma unmap_idem: "unmap (unmap a) = unmap a"
  by (cases a) (auto split: option.splits)

lemma map_family_of_dual: "is_dual_stack l \<Longrightarrow> is_ipv6 (map_to_socket_family l a)"
  by (cases a) (auto simp: map_to_socket_family_def is_dual_stack_def Let_def split: option.splits)

end
