(* ===== verification/Rust_Text.thy ===== *)
theory Rust_Text
  imports Prelude
begin

text \<open>
  The text operations of the Rust standard library that the sources use: decimal and hexadecimal
  display of integers, \<open>str::parse\<close> of an unsigned integer, and searching and splitting at a byte.
\<close>

section \<open>Numbers\<close>

text \<open>\<open>{}\<close> and \<open>{:x}\<close> of an unsigned integer.\<close>

fun show_nat :: "nat \<Rightarrow> rstring" where
  "show_nat n = (if n < 10 then [0x30 + word_of_nat n]
                 else show_nat (n div 10) @ [0x30 + word_of_nat (n mod 10)])"

definition hex_digit :: "nat \<Rightarrow> byte" where
  "hex_digit d = (if d < 10 then 0x30 + word_of_nat d else 0x57 + word_of_nat d)"

fun show_hex :: "nat \<Rightarrow> rstring" where
  "show_hex n = (if n < 16 then [hex_digit n] else show_hex (n div 16) @ [hex_digit (n mod 16)])"

declare show_nat.simps [simp del] show_hex.simps [simp del]

text \<open>\<open>{:#x}\<close> and \<open>{:#04x}\<close> of a \<open>u8\<close>.\<close>

definition show_alt_hex :: "byte \<Rightarrow> rstring" where
  "show_alt_hex b = str ''0x'' @ show_hex (unat b)"

definition show_alt_hex04 :: "byte \<Rightarrow> rstring" where
  "show_alt_hex04 b = str ''0x'' @ (if unat b < 16 then [0x30] else []) @ show_hex (unat b)"

definition is_digit :: "byte \<Rightarrow> bool" where
  "is_digit b \<longleftrightarrow> 0x30 \<le> b \<and> b \<le> 0x39"

definition dec_val :: "byte list \<Rightarrow> nat" where
  "dec_val ds = foldl (\<lambda>v d. v * 10 + (unat d - 0x30)) 0 ds"

text \<open>\<open>str::parse\<close> for the unsigned types: an optional plus sign, then digits, below the bound.\<close>

definition parse_uint :: "nat \<Rightarrow> rstring \<Rightarrow> nat option" where
  "parse_uint bound s =
     (let ds = (case s of b # r \<Rightarrow> if b = 0x2B then r else s | [] \<Rightarrow> [])
      in if ds = [] \<or> \<not> list_all is_digit ds then None
         else if dec_val ds < bound then Some (dec_val ds) else None)"

definition parse_u16 :: "rstring \<Rightarrow> u16 option" where
  "parse_u16 s = map_option word_of_nat (parse_uint 65536 s)"

section \<open>Searching and splitting\<close>

fun split_once :: "byte \<Rightarrow> rstring \<Rightarrow> (rstring \<times> rstring) option" where
  "split_once d [] = None"
| "split_once d (b # bs) =
     (if b = d then Some ([], bs) else map_option (\<lambda>(l, r). (b # l, r)) (split_once d bs))"

definition rsplit_once :: "byte \<Rightarrow> rstring \<Rightarrow> (rstring \<times> rstring) option" where
  "rsplit_once d s = map_option (\<lambda>(l, r). (rev r, rev l)) (split_once d (rev s))"

definition strip_prefix :: "rstring \<Rightarrow> rstring \<Rightarrow> rstring option" where
  "strip_prefix p s = (if take (length p) s = p then Some (drop (length p) s) else None)"

text \<open>\<open>str::split\<close> at a byte: always at least one piece.\<close>

fun split_all :: "byte \<Rightarrow> rstring \<Rightarrow> rstring list" where
  "split_all d [] = [[]]"
| "split_all d (b # bs) =
     (if b = d then [] # split_all d bs
      else (case split_all d bs of p # ps \<Rightarrow> (b # p) # ps | [] \<Rightarrow> [[b]]))"

fun join_with :: "byte \<Rightarrow> rstring list \<Rightarrow> rstring" where
  "join_with d [] = []"
| "join_with d [p] = p"
| "join_with d (p # ps) = p @ d # join_with d ps"

section \<open>Lemmas\<close>

lemma unat_digit: "n < 10 \<Longrightarrow> unat (0x30 + word_of_nat n :: byte) = 0x30 + n"
  by (simp add: unat_word_ariths unat_of_nat)

lemma is_digit_iff: "is_digit b \<longleftrightarrow> 0x30 \<le> unat b \<and> unat b \<le> 0x39"
  by (simp add: is_digit_def word_le_nat_alt)

lemma is_digit_digit: "n < 10 \<Longrightarrow> is_digit (0x30 + word_of_nat n)"
  by (simp add: is_digit_iff unat_digit)

lemma show_nat_digits: "list_all is_digit (show_nat n)"
proof (induction n rule: show_nat.induct)
  case (1 n)
  then show ?case
    by (subst show_nat.simps) (simp add: is_digit_digit)
qed

lemma show_nat_neq_Nil [simp]: "show_nat n \<noteq> []"
  by (subst show_nat.simps) simp

lemma dec_val_snoc [simp]: "dec_val (ds @ [d]) = dec_val ds * 10 + (unat d - 0x30)"
  by (simp add: dec_val_def)

lemma dec_val_single [simp]: "dec_val [d] = unat d - 0x30"
  by (simp add: dec_val_def)

lemma dec_val_show_nat [simp]: "dec_val (show_nat n) = n"
proof (induction n rule: show_nat.induct)
  case (1 n)
  then show ?case
    by (subst show_nat.simps) (simp add: unat_digit)
qed

lemma parse_uint_show [simp]: "parse_uint bound (show_nat n) = (if n < bound then Some n else None)"
proof -
  obtain b r where s: "show_nat n = b # r" by (cases "show_nat n") simp_all
  have "is_digit b" using show_nat_digits [of n] s by simp
  then have "b \<noteq> 0x2B" by (auto simp: is_digit_iff)
  then show ?thesis
    using show_nat_digits [of n] dec_val_show_nat [of n] by (simp add: parse_uint_def s)
qed

lemma parse_u16_show [simp]: "parse_u16 (show_nat (unat (p :: u16))) = Some p"
proof -
  have "unat p < 65536" using unsigned_less [of p] by simp
  then show ?thesis by (simp add: parse_u16_def)
qed

lemma split_once_hit: "d \<notin> set l \<Longrightarrow> split_once d (l @ d # r) = Some (l, r)"
  by (induction l) auto

lemma split_once_miss: "d \<notin> set s \<Longrightarrow> split_once d s = None"
  by (induction s) auto

lemma split_once_Some:
  "split_once d s = Some (l, r) \<Longrightarrow> s = l @ d # r \<and> d \<notin> set l"
  by (induction s arbitrary: l) (auto split: if_splits)

lemma rsplit_once_hit: "d \<notin> set r \<Longrightarrow> rsplit_once d (l @ d # r) = Some (l, r)"
  by (simp add: rsplit_once_def split_once_hit)

lemma rsplit_once_miss: "d \<notin> set s \<Longrightarrow> rsplit_once d s = None"
  by (simp add: rsplit_once_def split_once_miss)

lemma strip_prefix_append [simp]: "strip_prefix p (p @ s) = Some s"
  by (simp add: strip_prefix_def)

lemma strip_prefix_Some: "strip_prefix p s = Some r \<longleftrightarrow> s = p @ r"
  by (auto simp: strip_prefix_def split: if_splits) (metis append_take_drop_id)

lemma split_all_neq_Nil [simp]: "split_all d s \<noteq> []"
  by (cases s) (auto split: list.splits)

lemma join_split_all: "join_with d (split_all d s) = s"
proof (induction s)
  case (Cons b bs)
  obtain p ps where ps: "split_all d bs = p # ps" by (cases "split_all d bs") simp_all
  then show ?case using Cons by (cases ps) auto
qed simp

lemma split_all_pieces: "p \<in> set (split_all d s) \<Longrightarrow> d \<notin> set p"
  by (induction s arbitrary: p) (auto split: if_splits list.splits)

end
