(* ===== verification/Socks5.thy ===== *)
theory Socks5
  imports Net_Addr Rust_Text
begin

text \<open>
  The SOCKS5 messages of \<open>shadowsocks/src/relay/socks5.rs\<close>: addresses, request and response
  headers, method negotiation, the UDP header and the username/password messages, each with its
  reader and its writer. The address format is also the one the shadowsocks protocol itself
  puts in front of every stream and packet. A reader consumes a source; a writer gives the bytes
  it appends, or \<open>None\<close> where an assertion aborts it.
\<close>

section \<open>Codes, commands and replies\<close>

abbreviation "SOCKS5_VERSION \<equiv> 0x05 :: byte"
abbreviation "SOCKS5_AUTH_METHOD_NONE \<equiv> 0x00 :: byte"
abbreviation "SOCKS5_AUTH_METHOD_PASSWORD \<equiv> 0x02 :: byte"
abbreviation "SOCKS5_AUTH_METHOD_NOT_ACCEPTABLE \<equiv> 0xFF :: byte"
abbreviation "SOCKS5_ADDR_TYPE_IPV4 \<equiv> 0x01 :: byte"
abbreviation "SOCKS5_ADDR_TYPE_DOMAIN_NAME \<equiv> 0x03 :: byte"
abbreviation "SOCKS5_ADDR_TYPE_IPV6 \<equiv> 0x04 :: byte"

datatype command = TcpConnect | TcpBind | UdpAssociate

fun command_as_u8 :: "command \<Rightarrow> byte" where
  "command_as_u8 TcpConnect = 0x01"
| "command_as_u8 TcpBind = 0x02"
| "command_as_u8 UdpAssociate = 0x03"

definition command_from_u8 :: "byte \<Rightarrow> command option" where
  "command_from_u8 code =
     (if code = 0x01 then Some TcpConnect
      else if code = 0x02 then Some TcpBind
      else if code = 0x03 then Some UdpAssociate
      else None)"

datatype reply = Succeeded | GeneralFailure | ConnectionNotAllowed | NetworkUnreachable
  | HostUnreachable | ConnectionRefused | TtlExpired | CommandNotSupported
  | ReplyAddressTypeNotSupported | OtherReply byte

fun reply_as_u8 :: "reply \<Rightarrow> byte" where
  "reply_as_u8 Succeeded = 0x00"
| "reply_as_u8 GeneralFailure = 0x01"
| "reply_as_u8 ConnectionNotAllowed = 0x02"
| "reply_as_u8 NetworkUnreachable = 0x03"
| "reply_as_u8 HostUnreachable = 0x04"
| "reply_as_u8 ConnectionRefused = 0x05"
| "reply_as_u8 TtlExpired = 0x06"
| "reply_as_u8 CommandNotSupported = 0x07"
| "reply_as_u8 ReplyAddressTypeNotSupported = 0x08"
| "reply_as_u8 (OtherReply c) = c"

definition reply_from_u8 :: "byte \<Rightarrow> reply" where
  "reply_from_u8 code =
     (if code = 0x00 then Succeeded
      else if code = 0x01 then GeneralFailure
      else if code = 0x02 then ConnectionNotAllowed
      else if code = 0x03 then NetworkUnreachable
      else if code = 0x04 then HostUnreachable
      else if code = 0x05 then ConnectionRefused
      else if code = 0x06 then TtlExpired
      else if code = 0x07 then CommandNotSupported
      else if code = 0x08 then ReplyAddressTypeNotSupported
      else OtherReply code)"

fun reply_display :: "reply \<Rightarrow> rstring" where
  "reply_display Succeeded = str ''Succeeded''"
| "reply_display ReplyAddressTypeNotSupported = str ''Address type not supported''"
| "reply_display CommandNotSupported = str ''Command not supported''"
| "reply_display ConnectionNotAllowed = str ''Connection not allowed''"
| "reply_display ConnectionRefused = str ''Connection refused''"
| "reply_display GeneralFailure = str ''General failure''"
| "reply_display HostUnreachable = str ''Host unreachable''"
| "reply_display NetworkUnreachable = str ''Network unreachable''"
| "reply_display (OtherReply u) = str ''Other reply ('' @ show_nat (unat u) @ str '')''"
| "reply_display TtlExpired = str ''TTL expired''"

section \<open>Errors\<close>

datatype socks5_error = IoError io_error
  | AddressTypeNotSupported byte
  | AddressDomainInvalidEncoding
  | UnsupportedSocksVersion byte
  | UnsupportedCommand byte
  | UnsupportedPasswdAuthVersion byte
  | PasswdAuthInvalidRequest
  | ReplyError reply

fun socks5_error_display :: "socks5_error \<Rightarrow> rstring" where
  "socks5_error_display (IoError (Io_Error k m)) = m"
| "socks5_error_display (AddressTypeNotSupported t) =
     str ''address type '' @ show_alt_hex t @ str '' not supported''"
| "socks5_error_display AddressDomainInvalidEncoding =
     str ''address domain name must be UTF-8 encoding''"
| "socks5_error_display (UnsupportedSocksVersion v) =
     str ''unsupported socks version '' @ show_alt_hex v"
| "socks5_error_display (UnsupportedCommand c) = str ''unsupported command '' @ show_alt_hex c"
| "socks5_error_display (UnsupportedPasswdAuthVersion v) =
     str ''unsupported username/password authentication version '' @ show_alt_hex v"
| "socks5_error_display PasswdAuthInvalidRequest =
     str ''username/password authentication invalid request''"
| "socks5_error_display (ReplyError r) = reply_display r"

fun io_error_from_socks5 :: "socks5_error \<Rightarrow> io_error" where
  "io_error_from_socks5 (IoError e) = e"
| "io_error_from_socks5 e = Io_Error OtherKind (socks5_error_display e)"

fun as_reply :: "socks5_error \<Rightarrow> reply" where
  "as_reply (IoError e) =
     (if io_error_kind e = ConnectionRefusedKind then ConnectionRefused else GeneralFailure)"
| "as_reply (AddressTypeNotSupported t) = ReplyAddressTypeNotSupported"
| "as_reply AddressDomainInvalidEncoding = GeneralFailure"
| "as_reply (UnsupportedSocksVersion v) = GeneralFailure"
| "as_reply (UnsupportedCommand c) = CommandNotSupported"
| "as_reply (UnsupportedPasswdAuthVersion v) = GeneralFailure"
| "as_reply PasswdAuthInvalidRequest = GeneralFailure"
| "as_reply (ReplyError r) = r"

section \<open>Addresses\<close>

datatype address = SocketAddress socket_addr | DomainNameAddress rstring u16

text \<open>\<open>stream.read_exact(&mut buf).await?\<close> with a buffer of \<open>n\<close> bytes.\<close>

definition rd :: "nat \<Rightarrow> source \<Rightarrow> (byte list \<times> source, socks5_error) res" where
  "rd n s = map_err IoError (read_exact n s)"

definition get_u8 :: "cursor \<Rightarrow> (byte \<times> cursor, 'e) res" where
  "get_u8 c = bind_res (get_bytes 1 c) (\<lambda>(b, c). Ok (hd b, c))"

definition read_cursor :: "cursor \<Rightarrow> (address \<times> cursor, socks5_error) res" where
  "read_cursor cur =
     (if remaining cur < 2 then Err (IoError (io_other ''invalid buf''))
      else bind_res (get_u8 cur) (\<lambda>(atyp, cur).
        if atyp = SOCKS5_ADDR_TYPE_IPV4 then
          if remaining cur < 4 + 2 then Err (IoError (io_other ''invalid buf''))
          else bind_res (get_bytes 4 cur) (\<lambda>(addr, cur).
               bind_res (get_bytes 2 cur) (\<lambda>(port, cur).
               Ok (SocketAddress (V4 (of_be addr) (of_be port)), cur)))
        else if atyp = SOCKS5_ADDR_TYPE_IPV6 then
          if remaining cur < 16 + 2 then Err (IoError (io_other ''invalid buf''))
          else bind_res (get_bytes 16 cur) (\<lambda>(addr, cur).
               bind_res (get_bytes 2 cur) (\<lambda>(port, cur).
               Ok (SocketAddress (V6 (of_be addr) (of_be port) 0 0), cur)))
        else if atyp = SOCKS5_ADDR_TYPE_DOMAIN_NAME then
          bind_res (get_u8 cur) (\<lambda>(n, cur).
            let domain_len = unat n in
            if remaining cur < domain_len then Err AddressDomainInvalidEncoding
            else bind_res (get_bytes domain_len cur) (\<lambda>(buf, cur).
                 bind_res (get_bytes 2 cur) (\<lambda>(port, cur).
                 if valid_utf8 buf then Ok (DomainNameAddress buf (of_be port), cur)
                 else Err AddressDomainInvalidEncoding)))
        else Err (AddressTypeNotSupported atyp)))"

definition read_from :: "source \<Rightarrow> (address \<times> source, socks5_error) res" where
  "read_from stream =
     bind_res (rd 1 stream) (\<lambda>(addr_type_buf, stream).
       let addr_type = addr_type_buf ! 0 in
       if addr_type = SOCKS5_ADDR_TYPE_IPV4 then
         bind_res (rd 6 stream) (\<lambda>(buf, stream).
           Ok (SocketAddress (V4 (of_be (slice 0 4 buf)) (of_be (slice 4 6 buf))), stream))
       else if addr_type = SOCKS5_ADDR_TYPE_IPV6 then
         bind_res (rd 18 stream) (\<lambda>(bytes_buf, stream).
           let buf = be_units 9 bytes_buf in
           Ok (SocketAddress (V6 (ipv6_new (take 8 buf)) (buf ! 8) 0 0), stream))
       else if addr_type = SOCKS5_ADDR_TYPE_DOMAIN_NAME then
         bind_res (rd 1 stream) (\<lambda>(length_buf, stream).
           let len = unat (length_buf ! 0) in
           bind_res (rd (len + 2) stream) (\<lambda>(raw_addr, stream).
             let port = of_be (drop len raw_addr); raw_addr = take len raw_addr in
             if valid_utf8 raw_addr then Ok (DomainNameAddress raw_addr port, stream)
             else Err AddressDomainInvalidEncoding))
       else Err (AddressTypeNotSupported addr_type))"

definition write_ipv4_address :: "ipv4 \<Rightarrow> u16 \<Rightarrow> byte list" where
  "write_ipv4_address ip port = SOCKS5_ADDR_TYPE_IPV4 # be_of 4 ip @ be_of 2 port"

definition write_ipv6_address :: "ipv6 \<Rightarrow> u16 \<Rightarrow> byte list" where
  "write_ipv6_address ip port =
     SOCKS5_ADDR_TYPE_IPV6 # concat (map (be_of 2) (segments ip)) @ be_of 2 port"

definition write_domain_name_address :: "rstring \<Rightarrow> u16 \<Rightarrow> byte list option" where
  "write_domain_name_address dnaddr port =
     (if length dnaddr \<le> 255
      then Some (SOCKS5_ADDR_TYPE_DOMAIN_NAME # word_of_nat (length dnaddr) # dnaddr @ be_of 2 port)
      else None)"

fun write_socket_address :: "socket_addr \<Rightarrow> byte list" where
  "write_socket_address (V4 ip port) = write_ipv4_address ip port"
| "write_socket_address (V6 ip port flowinfo scope) = write_ipv6_address ip port"

fun write_address :: "address \<Rightarrow> byte list option" where
  "write_address (SocketAddress addr) = Some (write_socket_address addr)"
| "write_address (DomainNameAddress dnaddr port) = write_domain_name_address dnaddr port"

fun get_addr_len :: "address \<Rightarrow> nat" where
  "get_addr_len (SocketAddress (V4 ip port)) = 1 + 4 + 2"
| "get_addr_len (SocketAddress (V6 ip port f s)) = 1 + 8 * 2 + 2"
| "get_addr_len (DomainNameAddress dmname port) = 1 + 1 + length dmname + 2"

definition max_serialized_len :: nat where
  "max_serialized_len = 1 + 1 + 255 + 2"

fun address_port :: "address \<Rightarrow> u16" where
  "address_port (SocketAddress addr) = sock_port addr"
| "address_port (DomainNameAddress d port) = port"

section \<open>Addresses: round trip, truncation, and the two readers\<close>

fun wf_address :: "address \<Rightarrow> bool" where
  "wf_address (SocketAddress (V4 ip port)) = True"
| "wf_address (SocketAddress (V6 ip port f s)) = (f = 0 \<and> s = 0)"
| "wf_address (DomainNameAddress d port) = (valid_utf8 d \<and> length d \<le> 255)"

lemma rd_append [io_simps]: "length bs = n \<Longrightarrow> rd n (bs @ r, e) = Ok (bs, (r, e))"
  by (simp add: rd_def read_exact_append)

lemma rd_exact [io_simps]: "length bs = n \<Longrightarrow> rd n (bs, e) = Ok (bs, ([], e))"
  using rd_append [of bs n "[]" e] by simp

lemma rd_one [io_simps]: "rd 1 (b # r, e) = Ok ([b], (r, e))" "rd (Suc 0) (b # r, e) = Ok ([b], (r, e))"
  using rd_append [of "[b]" 1 r e] by simp_all

lemma rd_short [io_simps]: "length bs < n \<Longrightarrow> rd n (bs, e) = Err (IoError (end_error e))"
  by (simp add: rd_def read_exact_short)

lemma rd_Ok_iff: "rd n (bs, e) = Ok (x, s) \<longleftrightarrow> n \<le> length bs \<and> x = take n bs \<and> s = (drop n bs, e)"
  by (simp add: rd_def read_exact_Ok_iff)

lemma rd_at:
  "rd n (bs, e) = (if n \<le> length bs then Ok (take n bs, (drop n bs, e)) else Err (IoError (end_error e)))"
  by (simp add: rd_def read_exact.simps)

lemma rd_not_Panic [simp]: "rd n s \<noteq> Panic"
  by (simp add: rd_def)

lemma unat_length_byte [simp]: "n \<le> 255 \<Longrightarrow> unat (word_of_nat n :: byte) = n"
  by (simp add: unat_of_nat)

lemma ipv6_units:
  "be_units 9 (be_of 16 ip @ be_of 2 port) = segments ip @ [port]"
proof -
  have "[0..<9::nat] = [0..<8] @ [8]" by (simp add: upt_rec)
  then show ?thesis by (auto simp: segments_def be_units_def slice_def)
qed

lemma read_from_ipv4 [io_simps]:
  "read_from (write_ipv4_address ip port @ r, e) = Ok (SocketAddress (V4 ip port), (r, e))"
proof -
  have "rd 6 (be_of 4 ip @ be_of 2 port @ r, e) = Ok (be_of 4 ip @ be_of 2 port, (r, e))"
    using rd_append [of "be_of 4 ip @ be_of 2 port" 6 r e] by simp
  then show ?thesis
    by (simp add: read_from_def write_ipv4_address_def io_simps slice_def)
qed

lemma read_from_ipv6 [io_simps]:
  "read_from (write_ipv6_address ip port @ r, e) = Ok (SocketAddress (V6 ip port 0 0), (r, e))"
proof -
  have "rd 18 (be_of 16 ip @ be_of 2 port @ r, e) = Ok (be_of 16 ip @ be_of 2 port, (r, e))"
    using rd_append [of "be_of 16 ip @ be_of 2 port" 18 r e] by simp
  then show ?thesis
    by (simp add: read_from_def write_ipv6_address_def io_simps concat_segments ipv6_units Let_def
          nth_append)
qed

lemma read_from_domain [io_simps]:
  assumes "valid_utf8 d" "length d \<le> 255"
  shows "read_from (SOCKS5_ADDR_TYPE_DOMAIN_NAME # word_of_nat (length d) # d @ be_of 2 port @ r, e)
         = Ok (DomainNameAddress d port, (r, e))"
proof -
  have "rd (Suc (Suc (length d))) (d @ be_of 2 port @ r, e) = Ok (d @ be_of 2 port, (r, e))"
    using rd_append [of "d @ be_of 2 port" "length d + 2" r e] by simp
  then show ?thesis using assms by (simp add: read_from_def io_simps Let_def)
qed

lemma write_address_Some_length:
  "write_address a = Some bs \<Longrightarrow> length bs = get_addr_len a"
  by (cases a rule: get_addr_len.cases)
     (auto simp: write_ipv4_address_def write_ipv6_address_def write_domain_name_address_def
        concat_segments split: if_splits)

lemma wf_write_address: "wf_address a \<Longrightarrow> \<exists>bs. write_address a = Some bs"
  by (cases a) (auto simp: write_domain_name_address_def)

lemma read_from_write_address:
  assumes "wf_address a" "write_address a = Some bs"
  shows "read_from (bs @ r, e) = Ok (a, (r, e))"
  using assms
  by (cases a rule: wf_address.cases)
     (auto simp: write_domain_name_address_def io_simps split: if_splits)

lemma read_from_truncated:
  assumes "write_address a = Some bs" "k < length bs"
  shows "read_from (take k bs, e) = Err (IoError (end_error e))"
proof (cases k)
  case 0
  then show ?thesis by (simp add: read_from_def io_simps)
next
  case (Suc j)
  show ?thesis
  proof (cases a rule: wf_address.cases)
    case (1 ip port)
    then show ?thesis using assms Suc
      by (auto simp: read_from_def io_simps write_ipv4_address_def)
  next
    case (2 ip port f s)
    then show ?thesis using assms Suc
      by (auto simp: read_from_def io_simps write_ipv6_address_def concat_segments)
  next
    case (3 d port)
    then have "length d \<le> 255" and bs: "bs = 0x03 # word_of_nat (length d) # d @ be_of 2 port"
      using assms by (auto simp: write_domain_name_address_def split: if_splits)
    then show ?thesis using assms Suc
      by (cases j) (auto simp: read_from_def io_simps Let_def)
  qed
qed

interpretation address: framed_codec wf_address write_address read_from get_addr_len IoError
  by unfold_locales
     (auto simp: wf_write_address write_address_Some_length read_from_write_address read_from_truncated)

lemma units_of_18:
  assumes "length xs = 18"
  shows "ipv6_new (take 8 (be_units 9 xs)) = of_be (take 16 xs)"
    and "be_units 9 xs ! 8 = of_be (slice 16 18 xs)"
proof -
  define ip :: ipv6 where "ip = of_be (take 16 xs)"
  have "be_of (length (take 16 xs)) ip = take 16 xs"
    unfolding ip_def by (rule be_of_of_be) (simp add: assms)
  moreover have "be_of 2 (of_be (drop 16 xs) :: u16) = drop 16 xs"
    by (rule be_of_2_of_be) (simp add: assms)
  ultimately have xs: "xs = be_of 16 ip @ be_of 2 (of_be (drop 16 xs) :: u16)"
    using assms by simp
  then have units: "be_units 9 xs = segments ip @ [of_be (drop 16 xs)]"
    using ipv6_units [of ip] by metis
  then show "ipv6_new (take 8 (be_units 9 xs)) = of_be (take 16 xs)" by (simp add: ip_def)
  show "be_units 9 xs ! 8 = of_be (slice 16 18 xs)"
    using assms by (simp add: units nth_append slice_def)
qed

lemma get_u8_at [io_simps]:
  "get_u8 (cur_at pre bs i) = (if i < length bs then Ok (bs ! i, cur_at pre bs (Suc i)) else Panic)"
  by (auto simp: get_u8_def get_bytes_at slice_def hd_drop_conv_nth)

lemma take_drop_slice: "take n (drop i xs) = slice i (i + n) xs"
  by (simp add: slice_def)

lemma read_cursor_at:
  "read_cursor (cur_at pre bs 0) =
     (if length bs < 2 then Err (IoError (io_other ''invalid buf''))
      else if bs ! 0 = 1 then
        (if length bs < 7 then Err (IoError (io_other ''invalid buf''))
         else Ok (SocketAddress (V4 (of_be (slice 1 5 bs)) (of_be (slice 5 7 bs))), cur_at pre bs 7))
      else if bs ! 0 = 4 then
        (if length bs < 19 then Err (IoError (io_other ''invalid buf''))
         else Ok (SocketAddress (V6 (of_be (slice 1 17 bs)) (of_be (slice 17 19 bs)) 0 0), cur_at pre bs 19))
      else if bs ! 0 = 3 then
        (let n = unat (bs ! 1); d = slice 2 (n + 2) bs in
         if length bs < n + 2 then Err AddressDomainInvalidEncoding
         else if length bs < n + 4 then Panic
         else if valid_utf8 d
           then Ok (DomainNameAddress d (of_be (slice (n + 2) (n + 4) bs)), cur_at pre bs (n + 4))
           else Err AddressDomainInvalidEncoding)
      else Err (AddressTypeNotSupported (bs ! 0)))"
proof (cases "length bs < 2")
  case False
  then have ne: "bs \<noteq> []" by auto
  consider "bs ! 0 = 1" | "bs ! 0 = 4" | "bs ! 0 = 3" | "bs ! 0 \<noteq> 1" "bs ! 0 \<noteq> 4" "bs ! 0 \<noteq> 3"
    by blast
  then show ?thesis
  proof cases
    case 1
    with False ne show ?thesis by (auto simp: read_cursor_def io_simps)
  next
    case 2
    with False ne show ?thesis by (auto simp: read_cursor_def io_simps)
  next
    case 3
    with False ne show ?thesis by (auto simp: read_cursor_def io_simps Let_def eval_nat_numeral)
  next
    case 4
    with False ne show ?thesis by (simp add: read_cursor_def io_simps)
  qed
qed (simp add: read_cursor_def io_simps)

lemma read_from_at:
  "read_from (bs, e) =
     (if length bs < 1 then Err (IoError (end_error e))
      else if bs ! 0 = 1 then
        (if length bs < 7 then Err (IoError (end_error e))
         else Ok (SocketAddress (V4 (of_be (slice 1 5 bs)) (of_be (slice 5 7 bs))), (drop 7 bs, e)))
      else if bs ! 0 = 4 then
        (if length bs < 19 then Err (IoError (end_error e))
         else Ok (SocketAddress (V6 (of_be (slice 1 17 bs)) (of_be (slice 17 19 bs)) 0 0), (drop 19 bs, e)))
      else if bs ! 0 = 3 then
        (let n = unat (bs ! 1); d = slice 2 (n + 2) bs in
         if length bs < 2 then Err (IoError (end_error e))
         else if length bs < n + 4 then Err (IoError (end_error e))
         else if valid_utf8 d
           then Ok (DomainNameAddress d (of_be (slice (n + 2) (n + 4) bs)), (drop (n + 4) bs, e))
           else Err AddressDomainInvalidEncoding)
      else Err (AddressTypeNotSupported (bs ! 0)))"
proof (cases "bs = []")
  case False
  then have rd1: "rd 1 (bs, e) = Ok ([bs ! 0], (drop 1 bs, e))"
    by (cases bs) (simp_all add: io_simps)
  consider "bs ! 0 = 1" | "bs ! 0 = 4" | "bs ! 0 = 3" | "bs ! 0 \<noteq> 1" "bs ! 0 \<noteq> 4" "bs ! 0 \<noteq> 3"
    by blast
  then show ?thesis
  proof cases
    case 1
    with False show ?thesis
      by (auto simp: read_from_def rd1 rd_at slice_def take_drop)
  next
    case 2
    with False show ?thesis
      by (auto simp: read_from_def rd1 rd_at units_of_18 Let_def) (auto simp: slice_def take_drop)
  next
    case 3
    with False show ?thesis
      by (auto simp: read_from_def rd1 rd_at Let_def slice_def take_drop eval_nat_numeral)
  next
    case 4
    with False show ?thesis by (simp add: read_from_def rd1 [simplified])
  qed
qed (simp add: read_from_def io_simps)

lemma read_cursor_Ok_iff:
  "read_cursor (cur_at pre bs 0) = Ok (a, cur_at pre bs j) \<longleftrightarrow>
     j \<le> length bs \<and> read_from (bs, e) = Ok (a, (drop j bs, e))"
proof -
  have "drop i bs = drop j bs \<longleftrightarrow> i = j" if "i \<le> length bs" "j \<le> length bs" for i j
  proof
    assume "drop i bs = drop j bs"
    then have "length (drop i bs) = length (drop j bs)" by simp
    then show "i = j" using that by simp
  qed simp
  note drop_inj = this
  show ?thesis
    unfolding read_cursor_at read_from_at by (auto simp: Let_def drop_inj)
qed

text \<open>
  C19: Writing an address and reading it back. Every well-formed address (UTF-8 domain of at most
  255 bytes; no flow label or scope id in an IPv6 address) is written without a panic, in exactly
  the announced number of bytes, at most the announced maximum; \<open>read_from\<close> returns it from any
  stream that starts with these bytes and leaves the rest unread; on every proper prefix it fails
  with the end-of-stream error.
\<close>

theorem address_roundtrip:
  assumes "wf_address a"
  shows "\<exists>bs. write_address a = Some bs \<and> length bs = get_addr_len a \<and> length bs \<le> max_serialized_len
           \<and> (\<forall>rest e. read_from (bs @ rest, e) = Ok (a, (rest, e)))
           \<and> (\<forall>k e. k < length bs \<longrightarrow> read_from (take k bs, e) = Err (IoError (end_error e)))"
proof -
  obtain bs where bs: "write_address a = Some bs" using address.enc_total [OF assms] ..
  have "get_addr_len a \<le> max_serialized_len"
    using assms by (cases a rule: wf_address.cases) (auto simp: max_serialized_len_def)
  then show ?thesis
    using bs address.enc_len [OF assms bs] address.dec_enc [OF assms bs] address.dec_trunc [OF assms bs]
    by auto
qed

theorem address_roundtrip_witness:
  "\<exists>bs. write_address (DomainNameAddress (str ''ab.c'') 443) = Some bs
     \<and> bs = [3, 4, 0x61, 0x62, 0x2E, 0x63, 1, 0xBB]
     \<and> read_from (bs @ [9], At_Eof) = Ok (DomainNameAddress (str ''ab.c'') 443, ([9], At_Eof))"
proof -
  have "wf_address (DomainNameAddress (str ''ab.c'') 443)" by code_simp
  moreover have "write_address (DomainNameAddress (str ''ab.c'') 443)
      = Some [3, 4, 0x61, 0x62, 0x2E, 0x63, 1, 0xBB]" by code_simp
  ultimately show ?thesis using address_roundtrip by fastforce
qed

text \<open>
  C20: The cursor reader used on UDP packets accepts exactly what the stream reader accepts: it
  returns an address after \<open>j\<close> bytes if and only if \<open>read_from\<close> returns the same address and leaves
  everything behind those \<open>j\<close> bytes; and it panics exactly on a packet with a domain address whose
  name is complete but whose two port bytes are not there, which it does not check for.
\<close>

theorem read_cursor_agrees_and_panics:
  "(read_cursor (cur_at pre bs 0) = Ok (a, cur_at pre bs j) \<longleftrightarrow>
      (j \<le> length bs \<and> read_from (bs, e) = Ok (a, (drop j bs, e))))
   \<and> (read_cursor (cur_at pre bs 0) = Panic \<longleftrightarrow>
      (2 \<le> length bs \<and> bs ! 0 = SOCKS5_ADDR_TYPE_DOMAIN_NAME
         \<and> unat (bs ! 1) + 2 \<le> length bs \<and> length bs < unat (bs ! 1) + 4))"
  using read_cursor_Ok_iff [of pre bs a j e]
  by (auto simp: read_cursor_at Let_def)

end
