(* ===== verification/Socks5_Messages.thy ===== *)
theory Socks5_Messages
  imports Socks5
begin

text \<open>
  The SOCKS5 messages built around addresses: request and response header, method negotiation,
  UDP header, and the username/password sub-negotiation (\<open>shadowsocks/src/relay/socks5.rs\<close>). Each
  message is shown to implement the codec interface, so all share its round trip, truncation and
  prefix-freeness lemmas; the password response does not, because its reader drops read errors.
\<close>

section \<open>Request and response headers\<close>

record tcp_request_header =
  req_command :: command
  req_address :: address

definition tcp_request_read_from :: "source \<Rightarrow> (tcp_request_header \<times> source, socks5_error) res" where
  "tcp_request_read_from r =
     bind_res (rd 3 r) (\<lambda>(buf, r).
       let ver = buf ! 0; cmd = buf ! 1 in
       if ver \<noteq> SOCKS5_VERSION then Err (UnsupportedSocksVersion ver)
       else (case command_from_u8 cmd of
           None \<Rightarrow> Err (UnsupportedCommand cmd)
         | Some c \<Rightarrow> bind_res (read_from r) (\<lambda>(addr, r).
             Ok (\<lparr>req_command = c, req_address = addr\<rparr>, r))))"

definition tcp_request_write :: "tcp_request_header \<Rightarrow> byte list option" where
  "tcp_request_write h =
     map_option (\<lambda>a. [SOCKS5_VERSION, command_as_u8 (req_command h), 0x00] @ a) (write_address (req_address h))"

definition tcp_request_len :: "tcp_request_header \<Rightarrow> nat" where
  "tcp_request_len h = get_addr_len (req_address h) + 3"

record tcp_response_header =
  resp_reply :: reply
  resp_address :: address

definition tcp_response_read_from :: "source \<Rightarrow> (tcp_response_header \<times> source, socks5_error) res" where
  "tcp_response_read_from r =
     bind_res (rd 3 r) (\<lambda>(buf, r).
       let ver = buf ! 0; reply_code = buf ! 1 in
       if ver \<noteq> SOCKS5_VERSION then Err (UnsupportedSocksVersion ver)
       else bind_res (read_from r) (\<lambda>(addr, r).
         Ok (\<lparr>resp_reply = reply_from_u8 reply_code, resp_address = addr\<rparr>, r)))"

definition tcp_response_write :: "tcp_response_header \<Rightarrow> byte list option" where
  "tcp_response_write h =
     map_option (\<lambda>a. [SOCKS5_VERSION, reply_as_u8 (resp_reply h), 0x00] @ a) (write_address (resp_address h))"

definition tcp_response_len :: "tcp_response_header \<Rightarrow> nat" where
  "tcp_response_len h = get_addr_len (resp_address h) + 3"

section \<open>Method negotiation\<close>

record handshake_request =
  methods :: "byte list"

definition handshake_request_read_from :: "source \<Rightarrow> (handshake_request \<times> source, socks5_error) res" where
  "handshake_request_read_from r =
     bind_res (rd 2 r) (\<lambda>(buf, r).
       let ver = buf ! 0; nmet = buf ! 1 in
       if ver \<noteq> SOCKS5_VERSION then Err (UnsupportedSocksVersion ver)
       else bind_res (rd (unat nmet) r) (\<lambda>(ms, r). Ok (\<lparr>methods = ms\<rparr>, r)))"

definition handshake_request_write :: "handshake_request \<Rightarrow> byte list option" where
  "handshake_request_write h =
     Some ([SOCKS5_VERSION, word_of_nat (length (methods h))] @ methods h)"

definition handshake_request_len :: "handshake_request \<Rightarrow> nat" where
  "handshake_request_len h = 2 + length (methods h)"

record handshake_response =
  chosen_method :: byte

definition handshake_response_read_from :: "source \<Rightarrow> (handshake_response \<times> source, socks5_error) res" where
  "handshake_response_read_from r =
     bind_res (rd 2 r) (\<lambda>(buf, r).
       let ver = buf ! 0; met = buf ! 1 in
       if ver \<noteq> SOCKS5_VERSION then Err (UnsupportedSocksVersion ver)
       else Ok (\<lparr>chosen_method = met\<rparr>, r))"

definition handshake_response_write :: "handshake_response \<Rightarrow> byte list option" where
  "handshake_response_write h = Some [SOCKS5_VERSION, chosen_method h]"

definition handshake_response_len :: "handshake_response \<Rightarrow> nat" where
  "handshake_response_len h = 2"

section \<open>The UDP header\<close>

record udp_associate_header =
  frag :: byte
  udp_address :: address

definition udp_header_read_from :: "source \<Rightarrow> (udp_associate_header \<times> source, socks5_error) res" where
  "udp_header_read_from r =
     bind_res (rd 3 r) (\<lambda>(buf, r).
       bind_res (read_from r) (\<lambda>(addr, r). Ok (\<lparr>frag = buf ! 2, udp_address = addr\<rparr>, r)))"

definition udp_header_write :: "udp_associate_header \<Rightarrow> byte list option" where
  "udp_header_write h = map_option (\<lambda>a. [0x00, 0x00, frag h] @ a) (write_address (udp_address h))"

definition udp_header_len :: "udp_associate_header \<Rightarrow> nat" where
  "udp_header_len h = 3 + get_addr_len (udp_address h)"

section \<open>Username and password\<close>

record passwd_auth_request =
  uname :: "byte list"
  passwd :: "byte list"

text \<open>\<open>PasswdAuthRequest::new\<close>: \<open>None\<close> is the failed assertion.\<close>

definition passwd_auth_request_new :: "byte list \<Rightarrow> byte list \<Rightarrow> passwd_auth_request option" where
  "passwd_auth_request_new u p =
     (if u \<noteq> [] \<and> length u \<le> 255 \<and> p \<noteq> [] \<and> length p \<le> 255
      then Some \<lparr>uname = u, passwd = p\<rparr> else None)"

definition passwd_auth_request_read_from :: "source \<Rightarrow> (passwd_auth_request \<times> source, socks5_error) res" where
  "passwd_auth_request_read_from r =
     bind_res (rd 1 r) (\<lambda>(ver_buf, r).
     if ver_buf ! 0 \<noteq> 0x01 then Err (UnsupportedPasswdAuthVersion (ver_buf ! 0))
     else bind_res (rd 1 r) (\<lambda>(ulen_buf, r).
       let ulen = unat (ulen_buf ! 0) in
       if ulen = 0 then Err PasswdAuthInvalidRequest
       else bind_res (rd ulen r) (\<lambda>(u, r).
         bind_res (rd 1 r) (\<lambda>(plen_buf, r).
           let plen = unat (plen_buf ! 0) in
           if plen = 0 then Err PasswdAuthInvalidRequest
           else bind_res (rd plen r) (\<lambda>(p, r).
             Ok (\<lparr>uname = u, passwd = p\<rparr>, r))))))"

definition passwd_auth_request_write :: "passwd_auth_request \<Rightarrow> byte list option" where
  "passwd_auth_request_write q =
     Some (0x01 # word_of_nat (length (uname q)) # uname q @ word_of_nat (length (passwd q)) # passwd q)"

definition passwd_auth_request_len :: "passwd_auth_request \<Rightarrow> nat" where
  "passwd_auth_request_len q = 1 + 1 + length (uname q) + 1 + length (passwd q)"

record passwd_auth_response =
  status :: byte

text \<open>The result of \<open>read_exact\<close> is bound to \<open>_\<close> without \<open>?\<close>: on a short read the zeroed buffer keeps
  what had arrived.\<close>

definition passwd_auth_response_read_from :: "source \<Rightarrow> (passwd_auth_response \<times> source, socks5_error) res" where
  "passwd_auth_response_read_from r =
     (let (buf, r) = read_exact_fill 2 r in
      if buf ! 0 \<noteq> 0x01 then Err (UnsupportedPasswdAuthVersion (buf ! 0))
      else Ok (\<lparr>status = buf ! 1\<rparr>, r))"

definition passwd_auth_response_write :: "passwd_auth_response \<Rightarrow> byte list option" where
  "passwd_auth_response_write q = Some [0x01, status q]"

definition passwd_auth_response_len :: "passwd_auth_response \<Rightarrow> nat" where
  "passwd_auth_response_len q = 2"

section \<open>The messages are codecs\<close>

fun wf_reply :: "reply \<Rightarrow> bool" where
  "wf_reply (OtherReply c) = (8 < c)"
| "wf_reply _ = True"

definition wf_handshake_request :: "handshake_request \<Rightarrow> bool" where
  "wf_handshake_request h \<longleftrightarrow> length (methods h) \<le> 255"

definition wf_passwd_auth_request :: "passwd_auth_request \<Rightarrow> bool" where
  "wf_passwd_auth_request q \<longleftrightarrow>
     uname q \<noteq> [] \<and> length (uname q) \<le> 255 \<and> passwd q \<noteq> [] \<and> length (passwd q) \<le> 255"

lemma command_roundtrip [simp]: "command_from_u8 (command_as_u8 c) = Some c"
  by (cases c) (simp_all add: command_from_u8_def)

lemma command_from_u8_Some: "command_from_u8 b = Some c \<longleftrightarrow> b = command_as_u8 c"
  by (cases c) (auto simp: command_from_u8_def)

lemma reply_as_from [simp]: "reply_as_u8 (reply_from_u8 b) = b"
  by (simp add: reply_from_u8_def)

lemma reply_from_as: "wf_reply r \<Longrightarrow> reply_from_u8 (reply_as_u8 r) = r"
  by (cases r) (auto simp: reply_from_u8_def)

lemma rd_list [io_simps]:
  "rd 3 (a # b # c # r, e) = Ok ([a, b, c], (r, e))"
  "rd 2 (a # b # r, e) = Ok ([a, b], (r, e))"
  using rd_append [of "[a, b, c]" 3 r e] rd_append [of "[a, b]" 2 r e] by simp_all

lemma take_three: "3 \<le> k \<Longrightarrow> take k (a # b # c # xs) = a # b # c # take (k - 3) xs"
  by (cases k; cases "k - 1"; cases "k - 2") auto

lemma take_two: "2 \<le> k \<Longrightarrow> take k (a # b # xs) = a # b # take (k - 2) xs"
  by (cases k; cases "k - 1") auto

text \<open>Three fixed bytes and then an address, the shape of three of the messages.\<close>

lemma after_three_trunc:
  assumes "wf_address a" "write_address a = Some bs" "k < length bs + 3"
    and short: "\<And>xs. length xs < 3 \<Longrightarrow> dec (xs, e) = Err (IoError (end_error e))"
    and step: "\<And>xs. read_from (xs, e) = Err (IoError (end_error e)) \<Longrightarrow>
                 dec (x # y # z # xs, e) = Err (IoError (end_error e))"
  shows "dec (take k (x # y # z # bs), e) = Err (IoError (end_error e))"
proof (cases "k < 3")
  case False
  then have "read_from (take (k - 3) bs, e) = Err (IoError (end_error e))"
    using assms by (intro address.dec_trunc) auto
  from step [OF this] False show ?thesis by (simp add: take_three)
qed (simp add: short)

interpretation tcp_request: framed_codec "\<lambda>h. wf_address (req_address h)"
  tcp_request_write tcp_request_read_from tcp_request_len IoError
proof
  fix x :: tcp_request_header and bs rest e
  assume wf: "wf_address (req_address x)"
  show "\<exists>bs. tcp_request_write x = Some bs"
    using address.enc_total [OF wf] by (auto simp: tcp_request_write_def)
  assume enc: "tcp_request_write x = Some bs"
  then obtain a where a: "write_address (req_address x) = Some a"
    and bs: "bs = 0x05 # command_as_u8 (req_command x) # 0 # a"
    by (auto simp: tcp_request_write_def)
  show "length bs = tcp_request_len x"
    using address.enc_len [OF wf a] by (simp add: bs tcp_request_len_def)
  show "tcp_request_read_from (bs @ rest, e) = Ok (x, (rest, e))"
    using address.dec_enc [OF wf a] by (simp add: bs tcp_request_read_from_def io_simps)
  fix k
  assume "k < length bs"
  then show "tcp_request_read_from (take k bs, e) = Err (IoError (end_error e))"
    unfolding bs by (intro after_three_trunc [where dec = tcp_request_read_from, OF wf a])
      (simp_all add: tcp_request_read_from_def io_simps)
qed

interpretation tcp_response: framed_codec "\<lambda>h. wf_reply (resp_reply h) \<and> wf_address (resp_address h)"
  tcp_response_write tcp_response_read_from tcp_response_len IoError
proof
  fix x :: tcp_response_header and bs rest e
  assume "wf_reply (resp_reply x) \<and> wf_address (resp_address x)"
  then have wr: "wf_reply (resp_reply x)" and wf: "wf_address (resp_address x)" by simp_all
  show "\<exists>bs. tcp_response_write x = Some bs"
    using address.enc_total [OF wf] by (auto simp: tcp_response_write_def)
  assume enc: "tcp_response_write x = Some bs"
  then obtain a where a: "write_address (resp_address x) = Some a"
    and bs: "bs = 0x05 # reply_as_u8 (resp_reply x) # 0 # a"
    by (auto simp: tcp_response_write_def)
  show "length bs = tcp_response_len x"
    using address.enc_len [OF wf a] by (simp add: bs tcp_response_len_def)
  show "tcp_response_read_from (bs @ rest, e) = Ok (x, (rest, e))"
    using address.dec_enc [OF wf a] reply_from_as [OF wr]
    by (simp add: bs tcp_response_read_from_def io_simps)
  fix k
  assume "k < length bs"
  then show "tcp_response_read_from (take k bs, e) = Err (IoError (end_error e))"
    unfolding bs by (intro after_three_trunc [where dec = tcp_response_read_from, OF wf a])
      (simp_all add: tcp_response_read_from_def io_simps)
qed

interpretation udp_header: framed_codec "\<lambda>h. wf_address (udp_address h)"
  udp_header_write udp_header_read_from udp_header_len IoError
proof
  fix x :: udp_associate_header and bs rest e
  assume wf: "wf_address (udp_address x)"
  show "\<exists>bs. udp_header_write x = Some bs"
    using address.enc_total [OF wf] by (auto simp: udp_header_write_def)
  assume enc: "udp_header_write x = Some bs"
  then obtain a where a: "write_address (udp_address x) = Some a"
    and bs: "bs = 0 # 0 # frag x # a"
    by (auto simp: udp_header_write_def)
  show "length bs = udp_header_len x"
    using address.enc_len [OF wf a] by (simp add: bs udp_header_len_def)
  show "udp_header_read_from (bs @ rest, e) = Ok (x, (rest, e))"
    using address.dec_enc [OF wf a] by (simp add: bs udp_header_read_from_def io_simps)
  fix k
  assume "k < length bs"
  then show "udp_header_read_from (take k bs, e) = Err (IoError (end_error e))"
    unfolding bs by (intro after_three_trunc [where dec = udp_header_read_from, OF wf a])
      (simp_all add: udp_header_read_from_def io_simps)
qed

interpretation handshake_req: framed_codec wf_handshake_request
  handshake_request_write handshake_request_read_from handshake_request_len IoError
proof
  fix x :: handshake_request and bs rest e
  assume wf: "wf_handshake_request x"
  show "\<exists>bs. handshake_request_write x = Some bs"
    by (simp add: handshake_request_write_def)
  assume "handshake_request_write x = Some bs"
  then have bs: "bs = 0x05 # word_of_nat (length (methods x)) # methods x"
    by (auto simp: handshake_request_write_def)
  show "length bs = handshake_request_len x" by (simp add: bs handshake_request_len_def)
  show "handshake_request_read_from (bs @ rest, e) = Ok (x, (rest, e))"
    using wf by (simp add: bs handshake_request_read_from_def io_simps wf_handshake_request_def)
  fix k
  assume k: "k < length bs"
  show "handshake_request_read_from (take k bs, e) = Err (IoError (end_error e))"
    using wf k by (cases "k < 2")
      (auto simp: bs handshake_request_read_from_def io_simps wf_handshake_request_def take_two)
qed

interpretation handshake_resp: framed_codec "\<lambda>_. True"
  handshake_response_write handshake_response_read_from handshake_response_len IoError
  by unfold_locales
     (auto simp: handshake_response_write_def handshake_response_read_from_def
        handshake_response_len_def io_simps)

interpretation passwd_req: framed_codec wf_passwd_auth_request
  passwd_auth_request_write passwd_auth_request_read_from passwd_auth_request_len IoError
proof
  fix x :: passwd_auth_request and bs rest e
  assume wf: "wf_passwd_auth_request x"
  then have lens: "length (uname x) \<le> 255" "length (passwd x) \<le> 255" "uname x \<noteq> []" "passwd x \<noteq> []"
    by (simp_all add: wf_passwd_auth_request_def)
  show "\<exists>bs. passwd_auth_request_write x = Some bs"
    by (simp add: passwd_auth_request_write_def)
  assume "passwd_auth_request_write x = Some bs"
  then have bs: "bs = 1 # word_of_nat (length (uname x)) # uname x @ word_of_nat (length (passwd x)) # passwd x"
    by (auto simp: passwd_auth_request_write_def)
  show "length bs = passwd_auth_request_len x" by (simp add: bs passwd_auth_request_len_def)
  show "passwd_auth_request_read_from (bs @ rest, e) = Ok (x, (rest, e))"
    using lens by (simp add: bs passwd_auth_request_read_from_def io_simps)
  fix k
  assume k: "k < length bs"
  consider "k < 2" | "2 \<le> k" "k - 2 < length (uname x)" | "2 \<le> k" "k - 2 = length (uname x)"
    | "3 \<le> k - length (uname x)" "k - length (uname x) - 3 < length (passwd x)"
    using k by (simp add: bs) linarith
  then show "passwd_auth_request_read_from (take k bs, e) = Err (IoError (end_error e))"
  proof cases
    case 1
    then consider "k = 0" | "k = 1" by linarith
    then show ?thesis by cases (simp_all add: bs passwd_auth_request_read_from_def io_simps)
  next
    case 2
    then show ?thesis using lens by (simp add: bs passwd_auth_request_read_from_def io_simps take_two)
  next
    case 3
    then show ?thesis using lens by (simp add: bs passwd_auth_request_read_from_def io_simps take_two)
  next
    case 4
    define j where "j = k - length (uname x) - 3"
    then have k: "k = length (uname x) + 3 + j" using 4 by linarith
    have "j < length (passwd x)" using 4 by (simp add: j_def)
    moreover have "take (k - 2) (uname x @ y # ys) = uname x @ y # take j ys" for y ys
      by (simp add: k)
    ultimately show ?thesis
      using lens 4 by (simp add: bs passwd_auth_request_read_from_def io_simps take_two)
  qed
qed

end
