(* ===== verification/Packet_Window.thy ===== *)
theory Packet_Window
  imports Prelude
begin

text \<open>
  The sliding-window replay filter of \<open>shadowsocks-service/src/net/packet_window.rs\<close>: a ring of
  128 blocks of 64 bits indexed by the low bits of the packet id. It is shown to implement the
  set of accepted ids exactly, inside a window of 8128 ids behind the largest one; the ring's
  stale blocks (which \<open>reset\<close> leaves behind) are never observed.
\<close>

section \<open>The filter\<close>

abbreviation "RING_BLOCKS \<equiv> 128 :: u64"
abbreviation "WINDOW_SIZE \<equiv> 8128 :: u64"
abbreviation "BLOCK_MASK \<equiv> 127 :: u64"
abbreviation "BIT_MASK \<equiv> 63 :: u64"

record packet_window_filter =
  last_packet_id :: u64
  packet_ring :: "u64 list"

definition window_new :: packet_window_filter where
  "window_new = \<lparr>last_packet_id = 0, packet_ring = replicate 128 0\<rparr>"

definition window_reset :: "packet_window_filter \<Rightarrow> packet_window_filter" where
  "window_reset w = w\<lparr>last_packet_id := 0, packet_ring := (packet_ring w)[0 := 0]\<rparr>"

text \<open>The loop that clears the blocks entered by moving the window forward.\<close>

definition clear_blocks :: "u64 \<Rightarrow> u64 \<Rightarrow> u64 list \<Rightarrow> u64 list" where
  "clear_blocks current diff ring =
     fold (\<lambda>d r. r[unat ((current + word_of_nat d) AND BLOCK_MASK) := 0]) [1..<Suc (unat diff)] ring"

definition validate_packet_id ::
  "packet_window_filter \<Rightarrow> u64 \<Rightarrow> u64 \<Rightarrow> bool \<times> packet_window_filter" where
  "validate_packet_id w packet_id limit =
     (if limit \<le> packet_id then (False, w)
      else
        let index_block = drop_bit 6 packet_id;
            moved =
              (if last_packet_id w < packet_id then
                 let current = drop_bit 6 (last_packet_id w);
                     diff = index_block - current;
                     diff = (if RING_BLOCKS < diff then RING_BLOCKS else diff)
                 in Some (w\<lparr>last_packet_id := packet_id,
                           packet_ring := clear_blocks current diff (packet_ring w)\<rparr>)
               else if WINDOW_SIZE < last_packet_id w - packet_id then None
               else Some w)
        in (case moved of
              None \<Rightarrow> (False, w)
            | Some w \<Rightarrow>
                let index_block = index_block AND BLOCK_MASK;
                    index_bit = packet_id AND BIT_MASK;
                    old = packet_ring w ! unat index_block;
                    new = old OR push_bit (unat index_bit) 1
                in (old \<noteq> new, w\<lparr>packet_ring := (packet_ring w)[unat index_block := new]\<rparr>)))"

section \<open>What it promises\<close>

text \<open>
  The abstract filter: the largest accepted id (0 at first) and the set of all accepted ids.
\<close>

record seen_ids =
  newest :: nat
  accepted :: "nat set"

definition seen_empty :: seen_ids where
  "seen_empty = \<lparr>newest = 0, accepted = {}\<rparr>"

definition seen_admits :: "seen_ids \<Rightarrow> nat \<Rightarrow> nat \<Rightarrow> bool" where
  "seen_admits s i limit \<longleftrightarrow> i < limit \<and> i \<notin> accepted s \<and> newest s \<le> i + 8128"

definition seen_step :: "seen_ids \<Rightarrow> nat \<Rightarrow> nat \<Rightarrow> seen_ids" where
  "seen_step s i limit =
     (if seen_admits s i limit
      then \<lparr>newest = max (newest s) i, accepted = insert i (accepted s)\<rparr> else s)"

text \<open>A filter represents a set of ids when each block of its window has the right bits.\<close>

definition represents :: "packet_window_filter \<Rightarrow> seen_ids \<Rightarrow> bool" where
  "represents w s \<longleftrightarrow>
     length (packet_ring w) = 128 \<and> unat (last_packet_id w) = newest s
     \<and> (\<forall>i \<in> accepted s. i \<le> newest s)
     \<and> (\<forall>b j. j < 64 \<longrightarrow> b \<le> newest s div 64 \<longrightarrow> newest s div 64 < b + 128 \<longrightarrow>
          (bit (packet_ring w ! (b mod 128)) j \<longleftrightarrow> 64 * b + j \<in> accepted s))"

section \<open>Index arithmetic\<close>

lemma unat_drop6: "unat (drop_bit 6 (x :: u64)) = unat x div 64"
  by (simp add: drop_bit_eq_div unat_div)

lemma unat_and_127: "unat ((x :: u64) AND 127) = unat x mod 128"
proof -
  have "(127 :: u64) = mask 7" by (simp add: mask_eq_exp_minus_1)
  then have "x AND 127 = take_bit 7 x" by (simp only: take_bit_eq_mask)
  then show ?thesis by (simp add: take_bit_eq_mod unat_mod)
qed

lemma unat_and_63: "unat ((x :: u64) AND 63) = unat x mod 64"
proof -
  have "(63 :: u64) = mask 6" by (simp add: mask_eq_exp_minus_1)
  then have "x AND 63 = take_bit 6 x" by (simp only: take_bit_eq_mask)
  then show ?thesis by (simp add: take_bit_eq_mod unat_mod)
qed

lemma mod_hit: "\<exists>i. c < i \<and> i \<le> c + 128 \<and> i mod 128 = b mod (128::nat)"
proof -
  define q where "q = (c + 128 - b mod 128) div 128"
  have "b mod 128 < 128" by simp
  then have "c < b mod 128 + 128 * q" "b mod 128 + 128 * q \<le> c + 128" unfolding q_def by linarith+
  then show ?thesis by (intro exI [of _ "b mod 128 + 128 * q"]) simp
qed

lemma mod_near:
  assumes "i mod 128 = b mod 128" "i < b + 128" "b \<le> i"
  shows "i = (b::nat)"
proof (rule ccontr)
  assume "i \<noteq> b"
  moreover have "128 dvd i - b" using assms by (simp add: mod_eq_dvd_iff_nat)
  ultimately have "128 \<le> i - b" using assms by (intro dvd_imp_le) simp_all
  then show False using assms by linarith
qed

lemma mod_near_eq:
  assumes "i mod 128 = b mod 128" "i < b + 128" "b < i + 128"
  shows "i = (b::nat)"
  using mod_near [of i b] mod_near [of b i] assms by (cases "b \<le> i") auto

lemma bit_or_push1: "n < 64 \<Longrightarrow> bit ((w :: u64) OR 2 ^ n) m \<longleftrightarrow> bit w m \<or> m = n"
  by (auto simp: bit_or_iff bit_exp_iff)

lemma or_push1_eq_iff: "n < 64 \<Longrightarrow> (w :: u64) = w OR 2 ^ n \<longleftrightarrow> bit w n"
  by (metis bit_or_push1 bit_word_eqI)

lemma length_clear_blocks [simp]: "length (clear_blocks c d ring) = length ring"
proof -
  have "length (fold (\<lambda>d r. r[f d := 0]) ds r) = length r" for f ds and r :: "u64 list"
    by (induction ds arbitrary: r) simp_all
  then show ?thesis unfolding clear_blocks_def .
qed

lemma fold_zero_nth:
  assumes "k < length r"
  shows "fold (\<lambda>d r. r[f d := (0 :: u64)]) ds r ! k = (if k \<in> f ` set ds then 0 else r ! k)"
  using assms by (induction ds arbitrary: r) (auto simp: nth_list_update)

lemma clear_blocks_nth:
  assumes "length ring = 128" "k < 128" "unat c + unat d < 2 ^ 64"
  shows "clear_blocks c d ring ! k =
           (if \<exists>i. unat c < i \<and> i \<le> unat c + unat d \<and> i mod 128 = k then 0 else ring ! k)"
proof -
  have ix: "unat ((c + word_of_nat n) AND 127) = (unat c + n) mod 128" if "n \<le> unat d" for n
    using that assms(3) by (simp add: unat_and_127 unat_word_ariths unat_of_nat)
  have "(k \<in> (\<lambda>n. unat ((c + word_of_nat n) AND 127)) ` set [1..<Suc (unat d)])
      \<longleftrightarrow> (\<exists>i. unat c < i \<and> i \<le> unat c + unat d \<and> i mod 128 = k)" (is "?L \<longleftrightarrow> ?R")
  proof
    assume ?L
    then obtain n where "n \<in> set [1..<Suc (unat d)]" and k: "k = unat ((c + word_of_nat n) AND 127)"
      by blast
    then have "1 \<le> n" "n \<le> unat d" by (simp_all only: set_upt atLeastLessThan_iff less_Suc_eq_le)
    with ix [of n] k show ?R by (intro exI [of _ "unat c + n"]) auto
  next
    assume ?R
    then obtain i where "unat c < i" "i \<le> unat c + unat d" "i mod 128 = k" by blast
    then have "i - unat c \<in> set [1..<Suc (unat d)]"
      "k = unat ((c + word_of_nat (i - unat c)) AND 127)"
      using ix [of "i - unat c"] by auto
    then show ?L by blast
  qed
  then show ?thesis unfolding clear_blocks_def using assms by (simp only: fold_zero_nth)
qed

section \<open>Refinement\<close>

lemma represents_new: "represents window_new seen_empty"
  by (simp add: represents_def window_new_def seen_empty_def nth_replicate)

lemma represents_reset: "length (packet_ring w) = 128 \<Longrightarrow> represents (window_reset w) seen_empty"
  by (simp add: represents_def window_reset_def seen_empty_def)

text \<open>Setting the bit of an id inside the window.\<close>

lemma represents_set_bit:
  assumes rep: "represents w s" and i: "i \<le> newest s" "newest s \<le> i + 8128"
  shows "represents (w\<lparr>packet_ring := (packet_ring w)[i div 64 mod 128 :=
            packet_ring w ! (i div 64 mod 128) OR push_bit (i mod 64) 1]\<rparr>)
          \<lparr>newest = newest s, accepted = insert i (accepted s)\<rparr>"
proof -
  have len: "length (packet_ring w) = 128" using rep by (simp add: represents_def)
  have blk: "bit ((packet_ring w)[i div 64 mod 128 :=
        packet_ring w ! (i div 64 mod 128) OR push_bit (i mod 64) 1] ! (b mod 128)) j
      \<longleftrightarrow> 64 * b + j \<in> insert i (accepted s)"
    if b: "j < 64" "b \<le> newest s div 64" "newest s div 64 < b + 128" for b j
  proof -
    have old: "bit (packet_ring w ! (b mod 128)) j \<longleftrightarrow> 64 * b + j \<in> accepted s"
      using rep b by (simp add: represents_def)
    have "i div 64 mod 128 = b mod 128 \<longleftrightarrow> i div 64 = b"
    proof
      assume eq: "i div 64 mod 128 = b mod 128"
      have "i div 64 \<le> newest s div 64" using i(1) by (rule div_le_mono)
      moreover have "newest s div 64 \<le> i div 64 + 127" using i(2) by linarith
      ultimately have "i div 64 < b + 128" "b < i div 64 + 128" using b by linarith+
      with eq show "i div 64 = b" by (rule mod_near_eq)
    qed simp
    moreover have "64 * b + j = i \<longleftrightarrow> i div 64 = b \<and> i mod 64 = j"
      using b(1) by auto
    ultimately show ?thesis using old len by (auto simp: nth_list_update bit_or_push1)
  qed
  show ?thesis using rep i blk len by (auto simp: represents_def)
qed

text \<open>Moving the window forward.\<close>

lemma represents_advance:
  assumes rep: "represents w s" and gt: "last_packet_id w < p"
    and diff: "d = (let d = drop_bit 6 p - drop_bit 6 (last_packet_id w)
                    in if RING_BLOCKS < d then RING_BLOCKS else d)"
  shows "represents (w\<lparr>last_packet_id := p,
            packet_ring := clear_blocks (drop_bit 6 (last_packet_id w)) d (packet_ring w)\<rparr>)
          \<lparr>newest = unat p, accepted = accepted s\<rparr>"
proof -
  let ?c = "newest s div 64" and ?n = "unat p div 64"
  have len: "length (packet_ring w) = 128" and last: "unat (last_packet_id w) = newest s"
    using rep by (simp_all add: represents_def)
  have lt: "newest s < unat p" using gt last by (simp add: word_less_nat_alt)
  then have cn: "?c \<le> ?n" by (intro div_le_mono) simp
  have "unat (drop_bit 6 p - drop_bit 6 (last_packet_id w)) = ?n - ?c"
    using cn last by (simp add: unat_sub word_le_nat_alt unat_drop6)
  then have d: "unat d = min 128 (?n - ?c)"
    unfolding diff Let_def by (simp add: word_less_nat_alt)
  have "unat p < 2 ^ 64" using unsigned_less [of p] by simp
  moreover have cmin: "?c + min 128 (?n - ?c) \<le> ?n" and "?n \<le> unat p" using cn by simp_all
  ultimately have range: "unat (drop_bit 6 (last_packet_id w)) + unat d < 2 ^ 64"
    unfolding unat_drop6 last d by linarith
  have blk: "bit (clear_blocks (drop_bit 6 (last_packet_id w)) d (packet_ring w) ! (b mod 128)) j
      \<longleftrightarrow> 64 * b + j \<in> accepted s"
    if b: "j < 64" "b \<le> ?n" "?n < b + 128" for b j
  proof (cases "?c < b")
    case True
    then have "64 * b + j \<notin> accepted s"
      using rep by (auto simp: represents_def)
    moreover have "\<exists>i. ?c < i \<and> i \<le> ?c + min 128 (?n - ?c) \<and> i mod 128 = b mod 128"
    proof (cases "?n - ?c \<le> 128")
      case True
      then show ?thesis using b \<open>?c < b\<close> by (intro exI [of _ b]) auto
    next
      case False
      with mod_hit [of ?c b] show ?thesis by auto
    qed
    ultimately show ?thesis
      using len range by (simp add: clear_blocks_nth unat_drop6 last d)
  next
    case False
    have "\<not> (\<exists>i. ?c < i \<and> i \<le> ?c + min 128 (?n - ?c) \<and> i mod 128 = b mod 128)"
    proof
      assume "\<exists>i. ?c < i \<and> i \<le> ?c + min 128 (?n - ?c) \<and> i mod 128 = b mod 128"
      then obtain i where i: "?c < i" "i \<le> ?c + min 128 (?n - ?c)" "i mod 128 = b mod 128" by blast
      then have "i \<le> ?n" using cmin by linarith
      then have "b < i" "i < b + 128" "i mod 128 = b mod 128" using False b i by linarith+
      with mod_near [of i b] show False by simp
    qed
    then have "clear_blocks (drop_bit 6 (last_packet_id w)) d (packet_ring w) ! (b mod 128)
        = packet_ring w ! (b mod 128)"
      using clear_blocks_nth [OF len _ range, of "b mod 128"] unfolding unat_drop6 last d by auto
    then show ?thesis using rep b False cn by (simp add: represents_def)
  qed
  show ?thesis using rep blk lt len by (auto simp: represents_def)
qed

lemma validate_in_window:
  assumes rep: "represents w s" and i: "unat p \<le> newest s" "newest s \<le> unat p + 8128"
  defines "k \<equiv> unat p div 64 mod 128" and "n \<equiv> unat p mod 64"
  shows "(packet_ring w ! k = packet_ring w ! k OR 2 ^ n) \<longleftrightarrow> unat p \<in> accepted s"
proof -
  have "newest s div 64 < unat p div 64 + 128" using i(2) by linarith
  moreover have "unat p div 64 \<le> newest s div 64" using i(1) by (rule div_le_mono)
  ultimately have "bit (packet_ring w ! k) n \<longleftrightarrow> 64 * (unat p div 64) + n \<in> accepted s"
    using rep by (simp add: represents_def k_def n_def)
  then show ?thesis by (simp add: or_push1_eq_iff k_def n_def)
qed

lemma validate_refines:
  assumes rep: "represents w s"
  shows "fst (validate_packet_id w p l) \<longleftrightarrow> seen_admits s (unat p) (unat l)"
    and "represents (snd (validate_packet_id w p l)) (seen_step s (unat p) (unat l))"
proof -
  have last: "unat (last_packet_id w) = newest s" using rep by (simp add: represents_def)
  let ?P = "(fst (validate_packet_id w p l) \<longleftrightarrow> seen_admits s (unat p) (unat l))
    \<and> represents (snd (validate_packet_id w p l)) (seen_step s (unat p) (unat l))"
  have ?P
  proof (cases "l \<le> p")
    case True
    then show ?thesis using rep
      by (simp add: validate_packet_id_def seen_admits_def seen_step_def word_le_nat_alt)
  next
    case lim: False
    show ?thesis
    proof (cases "last_packet_id w < p")
      case True
      then have new: "newest s < unat p" using last by (simp add: word_less_nat_alt)
      then have fresh: "unat p \<notin> accepted s" using rep by (auto simp: represents_def)
      define d where "d = (let d = drop_bit 6 p - drop_bit 6 (last_packet_id w)
                          in if RING_BLOCKS < d then RING_BLOCKS else d)"
      define w' where "w' = w\<lparr>last_packet_id := p,
          packet_ring := clear_blocks (drop_bit 6 (last_packet_id w)) d (packet_ring w)\<rparr>"
      have rep': "represents w' \<lparr>newest = unat p, accepted = accepted s\<rparr>"
        unfolding w'_def by (rule represents_advance [OF rep True d_def])
      from validate_in_window [OF rep', of p] represents_set_bit [OF rep', of "unat p"]
      show ?thesis using lim True fresh new unfolding w'_def d_def
        by (simp add: validate_packet_id_def seen_admits_def seen_step_def Let_def
              unat_and_127 unat_and_63 unat_drop6 word_le_nat_alt)
    next
      case le: False
      then have le': "unat p \<le> newest s" using last by (simp add: word_less_nat_alt)
      then have "unat (last_packet_id w - p) = newest s - unat p"
        using last by (simp add: unat_sub word_le_nat_alt)
      then have win: "WINDOW_SIZE < last_packet_id w - p \<longleftrightarrow> \<not> newest s \<le> unat p + 8128"
        by (auto simp: word_less_nat_alt)
      show ?thesis
      proof (cases "newest s \<le> unat p + 8128")
        case True
        from validate_in_window [OF rep le' True] represents_set_bit [OF rep le' True]
        show ?thesis using lim le le' win True rep
          by (cases s; cases "unat p \<in> accepted s") (simp_all add: validate_packet_id_def seen_admits_def seen_step_def Let_def insert_absorb
                unat_and_127 unat_and_63 unat_drop6 word_le_nat_alt)
      next
        case False
        then show ?thesis using lim le win rep
          by (simp add: validate_packet_id_def seen_admits_def seen_step_def Let_def word_le_nat_alt)
      qed
    qed
  qed
  then show "fst (validate_packet_id w p l) \<longleftrightarrow> seen_admits s (unat p) (unat l)"
    and "represents (snd (validate_packet_id w p l)) (seen_step s (unat p) (unat l))" by simp_all
qed

section \<open>Sequences of packets\<close>

fun validate_all :: "packet_window_filter \<Rightarrow> (u64 \<times> u64) list \<Rightarrow> bool list \<times> packet_window_filter" where
  "validate_all w [] = ([], w)"
| "validate_all w ((p, l) # ps) =
     (let (ok, w) = validate_packet_id w p l; (oks, w) = validate_all w ps in (ok # oks, w))"

definition accepted_ids :: "packet_window_filter \<Rightarrow> (u64 \<times> u64) list \<Rightarrow> u64 list" where
  "accepted_ids w ps = map (fst \<circ> fst) (filter snd (zip ps (fst (validate_all w ps))))"

lemma seen_step_accepted:
  "accepted (seen_step s i l) = (if seen_admits s i l then insert i (accepted s) else accepted s)"
  by (simp add: seen_step_def)

lemma accepted_ids_fresh:
  assumes "represents w s"
  shows "distinct (accepted_ids w ps) \<and> unat ` set (accepted_ids w ps) \<inter> accepted s = {}"
  using assms
proof (induction ps arbitrary: w s)
  case (Cons q ps)
  obtain p l where q: "q = (p, l)" by fastforce
  obtain ok w' where v: "validate_packet_id w p l = (ok, w')" by fastforce
  have ok: "ok \<longleftrightarrow> seen_admits s (unat p) (unat l)"
    and rep: "represents w' (seen_step s (unat p) (unat l))"
    using validate_refines [OF Cons.prems, of p l] v by simp_all
  have ids: "accepted_ids w (q # ps) = (if ok then p # accepted_ids w' ps else accepted_ids w' ps)"
    by (simp add: accepted_ids_def q v case_prod_beta)
  from Cons.IH [OF rep] show ?case
    unfolding ids seen_step_accepted ok by (auto simp: seen_admits_def)
qed (simp add: accepted_ids_def)

text \<open>
  C15: One call of the filter behaves as its specification. If the filter represents a set of
  accepted ids, \<open>validate_packet_id\<close> answers true exactly for an id below the limit that was not
  accepted before and is at most 8128 behind the newest one, and the new filter represents the
  set with that id added (unchanged otherwise); a new filter, and any filter after \<open>reset\<close>,
  represents the empty set even though \<open>reset\<close> clears only the first ring block.
\<close>

theorem packet_window_refines:
  "represents window_new seen_empty
   \<and> (length (packet_ring w) = 128 \<longrightarrow> represents (window_reset w) seen_empty)
   \<and> (represents w s \<longrightarrow>
        (fst (validate_packet_id w p l) \<longleftrightarrow> seen_admits s (unat p) (unat l))
        \<and> represents (snd (validate_packet_id w p l)) (seen_step s (unat p) (unat l)))"
  using represents_new represents_reset validate_refines by blast

theorem packet_window_refines_witness:
  "represents window_new seen_empty
   \<and> (fst (validate_packet_id window_new 5 100) \<longleftrightarrow> seen_admits seen_empty 5 100)
   \<and> seen_admits seen_empty 5 100"
  using packet_window_refines [of window_new seen_empty 5 100]
  by (simp add: seen_admits_def seen_empty_def)

text \<open>
  No replay. In every sequence of packets run through a fresh filter, or through a filter
  after \<open>reset\<close>, no packet id is accepted twice, whatever the order of arrival and the limits.
\<close>

theorem packet_window_no_replay:
  assumes "length (packet_ring w) = 128"
  shows "distinct (accepted_ids window_new ps) \<and> distinct (accepted_ids (window_reset w) ps)"
  using accepted_ids_fresh [OF represents_new] accepted_ids_fresh [OF represents_reset [OF assms]]
  by blast

theorem packet_window_no_replay_witness:
  "distinct (accepted_ids window_new [(3, 10), (4, 10), (3, 10), (12, 10)])
   \<and> accepted_ids window_new [(3, 10), (4, 10), (3, 10), (12, 10)] = [3, 4]"
proof -
  have "length (packet_ring window_new) = 128" by (simp add: window_new_def)
  from packet_window_no_replay [OF this] have "distinct (accepted_ids window_new [(3, 10), (4, 10), (3, 10), (12, 10)])"
    by blast
  moreover have "accepted_ids window_new [(3, 10), (4, 10), (3, 10), (12, 10)] = [3, 4]" by code_simp
  ultimately show ?thesis ..
qed

end
