(* ===== verification/Replay.thy ===== *)
theory Replay
  imports Prelude
begin

text \<open>
  Replay protection by salts: the ping-pong Bloom filter (\<open>security/replay/ppbloom.rs\<close>), the
  protector that combines it with a timed set of salts for the AEAD-2022 methods
  (\<open>security/replay/mod.rs\<close>), and the policy in \<open>context.rs\<close>. The Bloom filter and the timed cache
  are external packages: their operations are arguments, with their documented behaviour as the
  laws \<open>bloom_laws\<close> and \<open>lru_laws\<close>. Built with the replay-detection and AEAD-2022 features.
\<close>

section \<open>Methods and policies\<close>

text \<open>What the sources ask of a \<open>CipherKind\<close> (an external type): its category and its lengths.\<close>

datatype cipher_category = CatNone | CatStream | CatAead | CatAead2022

record cipher_kind =
  category :: cipher_category
  key_len :: nat
  salt_len :: nat
  tag_len :: nat
  iv_len :: nat
  nonce_len :: nat
  support_eih :: bool

definition is_aead_2022 :: "cipher_kind \<Rightarrow> bool" where
  "is_aead_2022 k \<longleftrightarrow> category k = CatAead2022"

datatype server_type = LocalType | ServerType

fun is_local :: "server_type \<Rightarrow> bool" where
  "is_local LocalType = True"
| "is_local ServerType = False"

datatype replay_policy = PolicyDefault | PolicyIgnore | PolicyDetect | PolicyReject

section \<open>The ping-pong Bloom filter\<close>

record 'b bloom_ops =
  bloom_new :: "server_type \<Rightarrow> nat \<Rightarrow> 'b"
  bloom_check :: "'b \<Rightarrow> byte list \<Rightarrow> bool"
  bloom_set :: "'b \<Rightarrow> byte list \<Rightarrow> 'b"
  bloom_clear :: "'b \<Rightarrow> 'b"

record 'b ping_pong_bloom =
  blooms :: "'b list"
  bloom_count :: "nat list"
  item_count :: nat
  current :: nat

definition ppbloom_new :: "'b bloom_ops \<Rightarrow> server_type \<Rightarrow> 'b ping_pong_bloom" where
  "ppbloom_new B ty =
     (let n = (if is_local ty then 10000 else 1000000) div 2
      in \<lparr>blooms = [bloom_new B ty n, bloom_new B ty n], bloom_count = [0, 0],
          item_count = n, current = 0\<rparr>)"

definition ppbloom_check_and_set ::
  "'b bloom_ops \<Rightarrow> 'b ping_pong_bloom \<Rightarrow> byte list \<Rightarrow> bool \<times> 'b ping_pong_bloom" where
  "ppbloom_check_and_set B p buf =
     (if list_ex (\<lambda>b. bloom_check B b buf) (blooms p) then (True, p)
      else
        let p = (if item_count p \<le> bloom_count p ! current p then
                   let cur = (current p + 1) mod 2
                   in p\<lparr>current := cur, bloom_count := (bloom_count p)[cur := 0],
                        blooms := (blooms p)[cur := bloom_clear B (blooms p ! cur)]\<rparr>
                 else p)
        in (False,
            p\<lparr>blooms := (blooms p)[current p := bloom_set B (blooms p ! current p) buf],
              bloom_count := (bloom_count p)[current p := bloom_count p ! current p + 1]\<rparr>))"

section \<open>The protector\<close>

text \<open>A cache whose entries expire; every call sees the clock, in milliseconds.\<close>

record 'c lru_ops =
  lru_empty :: 'c
  lru_get :: "nat \<Rightarrow> byte list \<Rightarrow> 'c \<Rightarrow> bool \<times> 'c"
  lru_insert :: "nat \<Rightarrow> byte list \<Rightarrow> 'c \<Rightarrow> 'c"

abbreviation "SERVER_STREAM_TIMESTAMP_MAX_DIFF \<equiv> 30 :: nat"

text \<open>The expiry duration the protector asks for, in milliseconds.\<close>

definition nonce_ttl :: nat where
  "nonce_ttl = SERVER_STREAM_TIMESTAMP_MAX_DIFF * 2 * 1000"

record ('b, 'c) replay_protector =
  nonce_ppbloom :: "'b ping_pong_bloom"
  nonce_set :: 'c

definition protector_new :: "'b bloom_ops \<Rightarrow> (nat \<Rightarrow> 'c lru_ops) \<Rightarrow> server_type \<Rightarrow> ('b, 'c) replay_protector" where
  "protector_new B L ty =
     \<lparr>nonce_ppbloom = ppbloom_new B ty, nonce_set = lru_empty (L nonce_ttl)\<rparr>"

definition protector_check_and_set ::
  "'b bloom_ops \<Rightarrow> 'c lru_ops \<Rightarrow> nat \<Rightarrow> cipher_kind \<Rightarrow> byte list \<Rightarrow> ('b, 'c) replay_protector
     \<Rightarrow> bool \<times> ('b, 'c) replay_protector" where
  "protector_check_and_set B L now kind nonce p =
     (if nonce = [] then (False, p)
      else if is_aead_2022 kind then
        (let (hit, set) = lru_get L now nonce (nonce_set p)
         in if hit then (True, p\<lparr>nonce_set := set\<rparr>)
            else (False, p\<lparr>nonce_set := lru_insert L now nonce set\<rparr>))
      else
        (let (hit, bloom) = ppbloom_check_and_set B (nonce_ppbloom p) nonce
         in (hit, p\<lparr>nonce_ppbloom := bloom\<rparr>)))"

section \<open>The context\<close>

record ('b, 'c) ss_context =
  replay_protector :: "('b, 'c) replay_protector"
  replay_policy :: replay_policy
  ipv6_first :: bool

definition context_new :: "'b bloom_ops \<Rightarrow> (nat \<Rightarrow> 'c lru_ops) \<Rightarrow> server_type \<Rightarrow> ('b, 'c) ss_context" where
  "context_new B L ty =
     \<lparr>replay_protector = protector_new B L ty, replay_policy = PolicyDefault, ipv6_first = False\<rparr>"

definition context_check_nonce_and_set ::
  "'b bloom_ops \<Rightarrow> 'c lru_ops \<Rightarrow> nat \<Rightarrow> cipher_kind \<Rightarrow> byte list \<Rightarrow> ('b, 'c) ss_context
     \<Rightarrow> bool \<times> ('b, 'c) ss_context" where
  "context_check_nonce_and_set B L now kind nonce ctx =
     (case replay_policy ctx of
        PolicyIgnore \<Rightarrow> (False, ctx)
      | _ \<Rightarrow> (let (hit, p) = protector_check_and_set B L now kind nonce (replay_protector ctx)
             in (hit, ctx\<lparr>replay_protector := p\<rparr>)))"

text \<open>
  \<open>generate_nonce\<close> draws random salts until one is new. The draws are given as a list; \<open>None\<close> means
  that all of them were used and the loop is still running.
\<close>

fun generate_nonce_loop ::
  "'b bloom_ops \<Rightarrow> 'c lru_ops \<Rightarrow> nat \<Rightarrow> cipher_kind \<Rightarrow> bool \<Rightarrow> byte list list \<Rightarrow> ('b, 'c) ss_context
     \<Rightarrow> (byte list \<times> ('b, 'c) ss_context) option" where
  "generate_nonce_loop B L now kind unique [] ctx = None"
| "generate_nonce_loop B L now kind unique (nonce # draws) ctx =
     (if unique then
        (let (hit, ctx) = context_check_nonce_and_set B L now kind nonce ctx
         in if hit then generate_nonce_loop B L now kind unique draws ctx else Some (nonce, ctx))
      else Some (nonce, ctx))"

definition generate_nonce ::
  "'b bloom_ops \<Rightarrow> 'c lru_ops \<Rightarrow> nat \<Rightarrow> cipher_kind \<Rightarrow> nat \<Rightarrow> bool \<Rightarrow> byte list list \<Rightarrow> ('b, 'c) ss_context
     \<Rightarrow> (byte list \<times> ('b, 'c) ss_context) option" where
  "generate_nonce B L now kind len unique draws ctx =
     (if len = 0 then Some ([], ctx) else generate_nonce_loop B L now kind unique draws ctx)"

definition check_nonce_replay ::
  "'b bloom_ops \<Rightarrow> 'c lru_ops \<Rightarrow> nat \<Rightarrow> cipher_kind \<Rightarrow> byte list \<Rightarrow> ('b, 'c) ss_context
     \<Rightarrow> (unit, io_error) res \<times> ('b, 'c) ss_context" where
  "check_nonce_replay B L now kind nonce ctx =
     (if nonce = [] then (Ok (), ctx)
      else
        let policy = (if is_aead_2022 kind then PolicyReject else replay_policy ctx) in
        (case policy of
           PolicyDefault \<Rightarrow> (Ok (), ctx)
         | PolicyIgnore \<Rightarrow> (Ok (), ctx)
         | PolicyDetect \<Rightarrow>
             (let (hit, p) = protector_check_and_set B L now kind nonce (replay_protector ctx)
              in (Ok (), ctx\<lparr>replay_protector := p\<rparr>))
         | PolicyReject \<Rightarrow>
             (let (hit, p) = protector_check_and_set B L now kind nonce (replay_protector ctx)
              in (if hit then Err (io_other ''detected repeated nonce (iv/salt)'') else Ok (),
                  ctx\<lparr>replay_protector := p\<rparr>))))"

definition set_replay_attack_policy :: "replay_policy \<Rightarrow> ('b, 'c) ss_context \<Rightarrow> ('b, 'c) ss_context" where
  "set_replay_attack_policy pol ctx = ctx\<lparr>replay_policy := pol\<rparr>"

section \<open>Laws of the external containers\<close>

text \<open>A Bloom filter never forgets what was set since the last clear; cleared, it is empty.\<close>

definition bloom_laws :: "'b bloom_ops \<Rightarrow> bool" where
  "bloom_laws B \<longleftrightarrow>
     (\<forall>b x. bloom_check B (bloom_set B b x) x)
     \<and> (\<forall>b x y. bloom_check B b x \<longrightarrow> bloom_check B (bloom_set B b y) x)
     \<and> (\<forall>b x. \<not> bloom_check B (bloom_clear B b) x)"

text \<open>An entry is found until its time to live has passed, whatever else is read or inserted.\<close>

definition lru_laws :: "'c lru_ops \<Rightarrow> nat \<Rightarrow> bool" where
  "lru_laws L ttl \<longleftrightarrow>
     (\<forall>c k t t'. t \<le> t' \<longrightarrow> t' < t + ttl \<longrightarrow> fst (lru_get L t' k (lru_insert L t k c)))
     \<and> (\<forall>c j k t t'. t \<le> t' \<longrightarrow> fst (lru_get L t' k c) \<longrightarrow> fst (lru_get L t' k (lru_insert L t j c)))
     \<and> (\<forall>c j k t t'. t \<le> t' \<longrightarrow> fst (lru_get L t' k c) \<longrightarrow> fst (lru_get L t' k (snd (lru_get L t j c))))"

section \<open>The ping-pong filter remembers a full half\<close>

definition ppbloom_wf :: "'b ping_pong_bloom \<Rightarrow> bool" where
  "ppbloom_wf p \<longleftrightarrow> length (blooms p) = 2 \<and> length (bloom_count p) = 2 \<and> current p < 2
     \<and> bloom_count p ! current p \<le> item_count p \<and> 0 < item_count p"

text \<open>\<open>ppbloom_keeps B p x r\<close>: the entry \<open>x\<close> survives at least \<open>r\<close> further insertions.\<close>

definition ppbloom_keeps :: "'b bloom_ops \<Rightarrow> 'b ping_pong_bloom \<Rightarrow> byte list \<Rightarrow> nat \<Rightarrow> bool" where
  "ppbloom_keeps B p x r \<longleftrightarrow>
     (bloom_check B (blooms p ! current p) x
        \<and> r \<le> item_count p - bloom_count p ! current p + item_count p)
     \<or> (bloom_check B (blooms p ! (1 - current p)) x \<and> r \<le> item_count p - bloom_count p ! current p)"

lemma ppbloom_two:
  assumes "ppbloom_wf p"
  obtains b0 b1 c0 c1 where "blooms p = [b0, b1]" "bloom_count p = [c0, c1]"
proof -
  have "length (blooms p) = Suc (Suc 0)" "length (bloom_count p) = Suc (Suc 0)"
    using assms by (simp_all add: ppbloom_wf_def)
  then show ?thesis using that by (auto simp: length_Suc_conv)
qed

lemma ppbloom_keeps_found:
  assumes "ppbloom_wf p" "ppbloom_keeps B p x r"
  shows "fst (ppbloom_check_and_set B p x)"
proof -
  have "1 - current p < length (blooms p)" "current p < length (blooms p)"
    using assms by (auto simp: ppbloom_wf_def)
  then have "list_ex (\<lambda>b. bloom_check B b x) (blooms p)"
    using assms by (auto simp: ppbloom_keeps_def list_ex_iff)
  then show ?thesis by (simp add: ppbloom_check_and_set_def)
qed

lemma ppbloom_wf_step:
  assumes "ppbloom_wf p"
  shows "ppbloom_wf (snd (ppbloom_check_and_set B p y))"
    and "item_count (snd (ppbloom_check_and_set B p y)) = item_count p"
proof -
  obtain b0 b1 c0 c1 where [simp]: "blooms p = [b0, b1]" "bloom_count p = [c0, c1]"
    using assms by (rule ppbloom_two)
  have "current p = 0 \<or> current p = 1" using assms by (auto simp: ppbloom_wf_def)
  then show "ppbloom_wf (snd (ppbloom_check_and_set B p y))"
    and "item_count (snd (ppbloom_check_and_set B p y)) = item_count p"
    using assms by (auto simp: ppbloom_check_and_set_def ppbloom_wf_def Let_def)
qed

lemma ppbloom_keeps_step:
  assumes laws: "bloom_laws B" and wf: "ppbloom_wf p" and keeps: "ppbloom_keeps B p x r"
    and r: "fst (ppbloom_check_and_set B p y) \<or> 0 < r"
  shows "ppbloom_keeps B (snd (ppbloom_check_and_set B p y)) x
           (if fst (ppbloom_check_and_set B p y) then r else r - 1)"
proof -
  obtain b0 b1 c0 c1 where [simp]: "blooms p = [b0, b1]" "bloom_count p = [c0, c1]"
    using wf by (rule ppbloom_two)
  have "current p = 0 \<or> current p = 1" using wf by (auto simp: ppbloom_wf_def)
  then show ?thesis using assms
    by (auto simp: ppbloom_check_and_set_def ppbloom_wf_def ppbloom_keeps_def bloom_laws_def Let_def)
qed

lemma ppbloom_keeps_set:
  assumes laws: "bloom_laws B" and wf: "ppbloom_wf p" and new: "\<not> fst (ppbloom_check_and_set B p x)"
  shows "ppbloom_keeps B (snd (ppbloom_check_and_set B p x)) x (item_count p)"
proof -
  obtain b0 b1 c0 c1 where [simp]: "blooms p = [b0, b1]" "bloom_count p = [c0, c1]"
    using wf by (rule ppbloom_two)
  have "current p = 0 \<or> current p = 1" using wf by (auto simp: ppbloom_wf_def)
  then show ?thesis using assms
    by (auto simp: ppbloom_check_and_set_def ppbloom_wf_def ppbloom_keeps_def bloom_laws_def Let_def
          split: if_splits)
qed

lemma ppbloom_wf_new: "ppbloom_wf (ppbloom_new B ty)"
  by (cases ty) (simp_all add: ppbloom_wf_def ppbloom_new_def)

fun ppbloom_run :: "'b bloom_ops \<Rightarrow> 'b ping_pong_bloom \<Rightarrow> byte list list \<Rightarrow> bool list \<times> 'b ping_pong_bloom" where
  "ppbloom_run B p [] = ([], p)"
| "ppbloom_run B p (x # xs) =
     (let (hit, p) = ppbloom_check_and_set B p x; (hits, p) = ppbloom_run B p xs in (hit # hits, p))"

lemma ppbloom_wf_run:
  "ppbloom_wf p \<Longrightarrow> ppbloom_wf (snd (ppbloom_run B p xs)) \<and> item_count (snd (ppbloom_run B p xs)) = item_count p"
proof (induction xs arbitrary: p)
  case (Cons x xs)
  from Cons.IH [OF ppbloom_wf_step(1) [OF Cons.prems, of B x]] ppbloom_wf_step(2) [OF Cons.prems, of B x]
  show ?case by (simp add: case_prod_beta Let_def)
qed simp

lemma ppbloom_keeps_run:
  assumes "bloom_laws B" "ppbloom_wf p" "ppbloom_keeps B p x r"
    and "count_list (fst (ppbloom_run B p xs)) False \<le> r"
  shows "fst (ppbloom_check_and_set B (snd (ppbloom_run B p xs)) x)"
  using assms(2-)
proof (induction xs arbitrary: p r)
  case Nil
  then show ?case by (simp add: ppbloom_keeps_found)
next
  case (Cons y ys)
  obtain hit p' where s: "ppbloom_check_and_set B p y = (hit, p')" by fastforce
  have "ppbloom_keeps B p' x (if hit then r else r - 1)"
    using ppbloom_keeps_step [OF assms(1) Cons.prems(1,2), of y] Cons.prems(3) s
    by (auto simp: case_prod_beta Let_def split: if_splits)
  moreover have "ppbloom_wf p'" using ppbloom_wf_step(1) [OF Cons.prems(1), of B y] s by simp
  ultimately show ?case using Cons.IH [of p' "if hit then r else r - 1"] Cons.prems(3) s
    by (auto simp: case_prod_beta Let_def split: if_splits)
qed

section \<open>The timed set and the policy\<close>

text \<open>The calls that reach the shared context, from any connection, with the time of the call.\<close>

datatype context_call = CheckReplay nat cipher_kind "byte list"
  | CheckAndSet nat cipher_kind "byte list"
  | SetPolicy replay_policy

fun call_time :: "context_call \<Rightarrow> nat" where
  "call_time (CheckReplay t k n) = t"
| "call_time (CheckAndSet t k n) = t"
| "call_time (SetPolicy p) = 0"

fun context_apply :: "'b bloom_ops \<Rightarrow> 'c lru_ops \<Rightarrow> context_call \<Rightarrow> ('b, 'c) ss_context \<Rightarrow> ('b, 'c) ss_context" where
  "context_apply B L (CheckReplay t k n) ctx = snd (check_nonce_replay B L t k n ctx)"
| "context_apply B L (CheckAndSet t k n) ctx = snd (context_check_nonce_and_set B L t k n ctx)"
| "context_apply B L (SetPolicy p) ctx = set_replay_attack_policy p ctx"

text \<open>\<open>remembered L ctx n t\<close>: at time \<open>t\<close> the salt is in the timed set.\<close>

definition remembered :: "'c lru_ops \<Rightarrow> ('b, 'c) ss_context \<Rightarrow> byte list \<Rightarrow> nat \<Rightarrow> bool" where
  "remembered L ctx n t \<longleftrightarrow> fst (lru_get L t n (nonce_set (replay_protector ctx)))"

lemma protector_keeps:
  assumes "lru_laws L ttl" "t \<le> t'" "fst (lru_get L t' n (nonce_set p))"
  shows "fst (lru_get L t' n (nonce_set (snd (protector_check_and_set B L t k m p))))"
  using assms
  by (auto simp: protector_check_and_set_def lru_laws_def case_prod_beta Let_def)

lemma remembered_apply:
  assumes "lru_laws L ttl" "call_time c \<le> t'" "remembered L ctx n t'"
  shows "remembered L (context_apply B L c ctx) n t'"
  using assms protector_keeps [of L ttl "call_time c" t' n "replay_protector ctx" B]
  by (cases c)
     (auto simp: remembered_def check_nonce_replay_def context_check_nonce_and_set_def
        set_replay_attack_policy_def case_prod_beta Let_def split: replay_policy.splits)

lemma remembered_calls:
  assumes "lru_laws L ttl" "\<forall>c \<in> set cs. call_time c \<le> t'" "remembered L ctx n t'"
  shows "remembered L (fold (context_apply B L) cs ctx) n t'"
  using assms(2,3) by (induction cs arbitrary: ctx) (simp_all add: remembered_apply [OF assms(1)])

lemma remembered_accepted:
  assumes "lru_laws L ttl" "is_aead_2022 k" "n \<noteq> []" "t \<le> t'" "t' < t + ttl"
    and "check_nonce_replay B L t k n ctx = (Ok (), ctx')"
  shows "remembered L ctx' n t'"
  using assms
  by (auto simp: remembered_def check_nonce_replay_def protector_check_and_set_def lru_laws_def
        case_prod_beta Let_def split: if_splits)

lemma check_nonce_replay_2022:
  assumes "is_aead_2022 k" "n \<noteq> []"
  shows "fst (check_nonce_replay B L t k n ctx) =
           (if remembered L ctx n t then Err (io_other ''detected repeated nonce (iv/salt)'') else Ok ())"
  using assms
  by (auto simp: remembered_def check_nonce_replay_def protector_check_and_set_def case_prod_beta Let_def)

lemma generated_remembered:
  assumes "lru_laws L ttl" "0 < ttl" "is_aead_2022 k" "replay_policy ctx \<noteq> PolicyIgnore"
    and "\<forall>d \<in> set draws. d \<noteq> []"
    and "generate_nonce_loop B L t k True draws ctx = Some (n, ctx')"
    and "t' < t + ttl" "t \<le> t'"
  shows "remembered L ctx' n t' \<and> n \<in> set draws"
  using assms(4-6)
proof (induction draws arbitrary: ctx)
  case (Cons d ds)
  obtain hit c1 where s: "context_check_nonce_and_set B L t k d ctx = (hit, c1)" by fastforce
  then have pol: "replay_policy c1 \<noteq> PolicyIgnore"
    using Cons.prems(1)
    by (auto simp: context_check_nonce_and_set_def case_prod_beta Let_def split: replay_policy.splits)
  show ?case
  proof (cases hit)
    case True
    then show ?thesis using Cons.IH [OF pol] Cons.prems s by auto
  next
    case False
    then have "n = d" "c1 = ctx'" using Cons.prems(3) s by auto
    moreover have "remembered L c1 d t'"
      using False s Cons.prems assms(1,3,7,8)
      by (auto simp: remembered_def context_check_nonce_and_set_def protector_check_and_set_def
            lru_laws_def case_prod_beta Let_def split: replay_policy.splits if_splits)
    ultimately show ?thesis by simp
  qed
qed simp

text \<open>
  C23: The ping-pong Bloom filter remembers at least half of its capacity: in every run from a new
  filter (5,000 entries per half for a client, 500,000 for a server), a salt that was accepted is
  reported as repeated as long as at most one half's capacity of other salts was accepted since,
  however often the two halves were swapped and cleared.
\<close>

theorem ppbloom_detects_replay:
  assumes "bloom_laws B"
    and "p = snd (ppbloom_run B (ppbloom_new B ty) before)"
    and "ppbloom_check_and_set B p x = (False, p')"
    and "count_list (fst (ppbloom_run B p' after)) False \<le> item_count (ppbloom_new B ty)"
  shows "fst (ppbloom_check_and_set B (snd (ppbloom_run B p' after)) x)"
proof -
  have wf: "ppbloom_wf p" and n: "item_count p = item_count (ppbloom_new B ty)"
    using ppbloom_wf_run [OF ppbloom_wf_new [of B ty], of B before] assms(2) by simp_all
  have "ppbloom_keeps B p' x (item_count p)"
    using ppbloom_keeps_set [OF assms(1) wf, of x] assms(3) by simp
  moreover have "ppbloom_wf p'" using ppbloom_wf_step(1) [OF wf, of B x] assms(3) by simp
  ultimately show ?thesis
    using ppbloom_keeps_run [OF assms(1), of p' x "item_count p" after] assms(4) n by simp
qed

text \<open>
  C22: A salt of an AEAD-2022 method is accepted once. Whatever the configured policy, and whatever
  calls (checks with any method, generated salts, policy changes) reach the shared context in
  between, a salt accepted at time \<open>t\<close> is rejected with an error at every later time before the
  expiry of the salt set.
\<close>

theorem aead2022_salt_accepted_once:
  assumes "lru_laws L ttl" "is_aead_2022 kind" "is_aead_2022 kind'" "salt \<noteq> []"
    and "check_nonce_replay B L t kind salt ctx = (Ok (), ctx')"
    and "\<forall>c \<in> set calls. call_time c \<le> t'" "t \<le> t'" "t' < t + ttl"
  shows "fst (check_nonce_replay B L t' kind' salt (fold (context_apply B L) calls ctx'))
           = Err (io_other ''detected repeated nonce (iv/salt)'')"
proof -
  have "remembered L ctx' salt t'"
    using assms by (intro remembered_accepted [of L ttl kind salt t t' B ctx ctx']) simp_all
  then have "remembered L (fold (context_apply B L) calls ctx') salt t'"
    using assms by (intro remembered_calls) simp_all
  then show ?thesis using assms by (simp add: check_nonce_replay_2022)
qed

text \<open>
  A generated salt cannot come back. When \<open>generate_nonce\<close> returns a unique AEAD-2022 salt, the
  salt is one of the random draws and the context rejects it when a peer reflects it before the
  expiry of the salt set.
\<close>

theorem generated_salt_registered:
  assumes "lru_laws L ttl" "is_aead_2022 kind" "replay_policy ctx \<noteq> PolicyIgnore"
    and "\<forall>d \<in> set draws. length d = len" "0 < len"
    and "generate_nonce B L t kind len True draws ctx = Some (salt, ctx')"
    and "t \<le> t'" "t' < t + ttl"
  shows "salt \<in> set draws
    \<and> fst (check_nonce_replay B L t' kind salt ctx') = Err (io_other ''detected repeated nonce (iv/salt)'')"
proof -
  have ne: "\<forall>d \<in> set draws. d \<noteq> []" using assms(4,5) by auto
  have loop: "generate_nonce_loop B L t kind True draws ctx = Some (salt, ctx')"
    using assms(5,6) by (simp add: generate_nonce_def)
  have "0 < ttl" using assms(7,8) by linarith
  from generated_remembered [OF assms(1) this assms(2,3) ne loop assms(8,7)] ne
  show ?thesis using assms(2) by (auto simp: check_nonce_replay_2022)
qed

section \<open>Instances\<close>

text \<open>Exact containers that satisfy the laws: a set kept as a list, and a list of timed keys.\<close>

definition exact_bloom :: "byte list list bloom_ops" where
  "exact_bloom = \<lparr>bloom_new = (\<lambda>ty n. []), bloom_check = (\<lambda>b x. x \<in> set b),
     bloom_set = (\<lambda>b x. x # b), bloom_clear = (\<lambda>b. [])\<rparr>"

definition exact_lru :: "nat \<Rightarrow> (byte list \<times> nat) list lru_ops" where
  "exact_lru ttl = \<lparr>lru_empty = [],
     lru_get = (\<lambda>t k c. (list_ex (\<lambda>(j, u). j = k \<and> t < u + ttl) c, c)),
     lru_insert = (\<lambda>t k c. (k, t) # c)\<rparr>"

definition kind_2022 :: cipher_kind where
  "kind_2022 = \<lparr>category = CatAead2022, key_len = 32, salt_len = 32, tag_len = 16, iv_len = 0,
     nonce_len = 12, support_eih = True\<rparr>"

lemma exact_bloom_laws: "bloom_laws exact_bloom"
  by (simp add: bloom_laws_def exact_bloom_def)

lemma exact_lru_laws: "lru_laws (exact_lru ttl) ttl"
  by (simp add: lru_laws_def exact_lru_def)

lemma kind_2022_is: "is_aead_2022 kind_2022"
  by (simp add: is_aead_2022_def kind_2022_def)

theorem ppbloom_detects_replay_witness:
  "fst (ppbloom_check_and_set exact_bloom
     (snd (ppbloom_run exact_bloom
        (snd (ppbloom_check_and_set exact_bloom (ppbloom_new exact_bloom LocalType) [1])) [[2], [3]])) [1])"
proof (rule ppbloom_detects_replay [OF exact_bloom_laws, of _ LocalType "[]"])
  show "ppbloom_new exact_bloom LocalType = snd (ppbloom_run exact_bloom (ppbloom_new exact_bloom LocalType) [])"
    by simp
  show "ppbloom_check_and_set exact_bloom (ppbloom_new exact_bloom LocalType) [1]
      = (False, snd (ppbloom_check_and_set exact_bloom (ppbloom_new exact_bloom LocalType) [1]))"
    by (simp add: ppbloom_check_and_set_def ppbloom_new_def exact_bloom_def Let_def)
  show "count_list (fst (ppbloom_run exact_bloom
      (snd (ppbloom_check_and_set exact_bloom (ppbloom_new exact_bloom LocalType) [1])) [[2], [3]])) False
      \<le> item_count (ppbloom_new exact_bloom LocalType)"
    by (simp add: ppbloom_check_and_set_def ppbloom_new_def exact_bloom_def Let_def)
qed

theorem aead2022_salt_accepted_once_witness:
  "fst (check_nonce_replay exact_bloom (exact_lru 60000) 59000 kind_2022 [7]
     (fold (context_apply exact_bloom (exact_lru 60000)) [SetPolicy PolicyIgnore, CheckReplay 10 kind_2022 [8]]
       (snd (check_nonce_replay exact_bloom (exact_lru 60000) 0 kind_2022 [7]
         (context_new exact_bloom exact_lru ServerType)))))
   = Err (io_other ''detected repeated nonce (iv/salt)'')"
proof (rule aead2022_salt_accepted_once [OF exact_lru_laws kind_2022_is kind_2022_is])
  show "check_nonce_replay exact_bloom (exact_lru 60000) 0 kind_2022 [7] (context_new exact_bloom exact_lru ServerType)
      = (Ok (), snd (check_nonce_replay exact_bloom (exact_lru 60000) 0 kind_2022 [7]
           (context_new exact_bloom exact_lru ServerType)))"
    by (simp add: check_nonce_replay_def protector_check_and_set_def context_new_def protector_new_def
          exact_lru_def kind_2022_def is_aead_2022_def)
qed simp_all

theorem generated_salt_registered_witness:
  "fst (check_nonce_replay exact_bloom (exact_lru 60000) 5 kind_2022 [7]
     (snd (the (generate_nonce exact_bloom (exact_lru 60000) 0 kind_2022 1 True [[7], [9]]
        (context_new exact_bloom exact_lru ServerType)))))
   = Err (io_other ''detected repeated nonce (iv/salt)'')"
proof -
  let ?ctx = "context_new exact_bloom exact_lru ServerType"
  have "\<exists>c. generate_nonce exact_bloom (exact_lru 60000) 0 kind_2022 1 True [[7], [9]] ?ctx = Some ([7], c)"
    by (simp add: generate_nonce_def context_check_nonce_and_set_def protector_check_and_set_def
          context_new_def protector_new_def exact_lru_def kind_2022_def is_aead_2022_def)
  then obtain c where c: "generate_nonce exact_bloom (exact_lru 60000) 0 kind_2022 1 True [[7], [9]] ?ctx = Some ([7], c)" ..
  have "replay_policy ?ctx \<noteq> PolicyIgnore" by (simp add: context_new_def)
  from generated_salt_registered [OF exact_lru_laws kind_2022_is this _ _ c, of 5] show ?thesis
    unfolding c by simp
qed

end
