(* ===== verification/Async_Io.thy ===== *)
theory Async_Io
  imports Prelude
begin

text \<open>
  Polled I/O as the relay code sees it: a stream that may deliver its bytes in any pieces, block
  in between, fail or end, and a sink that may accept any part of what it is given. The loop that
  fills a buffer (\<open>poll_read_exact\<close>, the same code in \<open>tcprelay/aead.rs\<close> and \<open>aead_2022.rs\<close>) and the
  loop that drains one are modelled here, with the lemmas that make the relay code independent of
  how the network cuts the stream.
\<close>

section \<open>Polling\<close>

datatype ('a, 'e) poll = Pending | Ready "('a, 'e) res"

text \<open>What a socket does at the next polls. The empty list is end of stream, at every further poll.\<close>

datatype net_event = Data "byte list" | WouldBlock | Fail io_error

type_synonym net = "net_event list"

fun poll_read :: "nat \<Rightarrow> net \<Rightarrow> (byte list, io_error) poll \<times> net" where
  "poll_read n [] = (Ready (Ok []), [])"
| "poll_read n (WouldBlock # es) = (Pending, es)"
| "poll_read n (Fail e # es) = (Ready (Err e), es)"
| "poll_read n (Data bs # es) =
     (Ready (Ok (take n bs)), if length bs \<le> n then es else Data (drop n bs) # es)"

fun net_bytes :: "net \<Rightarrow> byte list" where
  "net_bytes [] = []"
| "net_bytes (Data bs # es) = bs @ net_bytes es"
| "net_bytes (e # es) = net_bytes es"

text \<open>A network that delivers: no failure and no empty piece.\<close>

fun net_ok :: "net \<Rightarrow> bool" where
  "net_ok [] = True"
| "net_ok (Data bs # es) = (bs \<noteq> [] \<and> net_ok es)"
| "net_ok (WouldBlock # es) = net_ok es"
| "net_ok (Fail e # es) = False"

text \<open>\<open>poll_read_exact\<close>: the buffer grows until it has \<open>sz\<close> bytes; 0 is returned at end of stream
  with an empty buffer.\<close>

function poll_read_exact_loop ::
  "nat \<Rightarrow> byte list \<Rightarrow> net \<Rightarrow> (nat, io_error) poll \<times> byte list \<times> net" where
  "poll_read_exact_loop sz buffer net =
     (if sz \<le> length buffer then (Ready (Ok sz), buffer, net)
      else (case poll_read (sz - length buffer) net of
          (Pending, net) \<Rightarrow> (Pending, buffer, net)
        | (Ready (Err e), net) \<Rightarrow> (Ready (Err e), buffer, net)
        | (Ready Panic, net) \<Rightarrow> (Ready Panic, buffer, net)
        | (Ready (Ok bs), net) \<Rightarrow>
            if bs = [] then
              (Ready (if buffer \<noteq> [] then Err io_eof else Ok 0), buffer, net)
            else poll_read_exact_loop sz (buffer @ bs) net))"
  by pat_completeness auto
termination
  by (relation "measure (\<lambda>(sz, buffer, net). sz - length buffer)") (auto intro!: diff_less_mono2)

definition poll_read_exact ::
  "nat \<Rightarrow> byte list \<Rightarrow> net \<Rightarrow> (nat, io_error) poll \<times> byte list \<times> net" where
  "poll_read_exact sz buffer net =
     (if sz = 0 then (Ready Panic, buffer, net) else poll_read_exact_loop sz buffer net)"

text \<open>A sink: what it does at the next polls, and what it has taken so far.\<close>

datatype sink_event = Accept nat | SinkBlock | SinkFail io_error

record sink =
  sink_events :: "sink_event list"
  sunk :: "byte list"

definition poll_write :: "byte list \<Rightarrow> sink \<Rightarrow> (nat, io_error) poll \<times> sink" where
  "poll_write buf s =
     (case sink_events s of
        [] \<Rightarrow> (Pending, s)
      | SinkBlock # es \<Rightarrow> (Pending, s\<lparr>sink_events := es\<rparr>)
      | SinkFail e # es \<Rightarrow> (Ready (Err e), s\<lparr>sink_events := es\<rparr>)
      | Accept n # es \<Rightarrow>
          (Ready (Ok (min n (length buf))), s\<lparr>sink_events := es, sunk := sunk s @ take n buf\<rparr>))"

text \<open>The loop \<open>while pos < buffer.len() { n = poll_write(buffer[pos..]); ... pos += n }\<close>.\<close>

function write_loop :: "byte list \<Rightarrow> nat \<Rightarrow> sink \<Rightarrow> (unit, io_error) poll \<times> nat \<times> sink" where
  "write_loop buffer pos s =
     (if pos < length buffer then
        (case poll_write (drop pos buffer) s of
           (Pending, s) \<Rightarrow> (Pending, pos, s)
         | (Ready (Err e), s) \<Rightarrow> (Ready (Err e), pos, s)
         | (Ready Panic, s) \<Rightarrow> (Ready Panic, pos, s)
         | (Ready (Ok n), s) \<Rightarrow>
             if n = 0 then (Ready (Err io_eof), pos, s) else write_loop buffer (pos + n) s)
      else (Ready (Ok ()), pos, s))"
  by pat_completeness auto
termination
  by (relation "measure (\<lambda>(buffer, pos, s). length buffer - pos)") auto

declare poll_read_exact_loop.simps [simp del] write_loop.simps [simp del]

section \<open>Filling a buffer\<close>

lemma poll_read_bytes:
  assumes "poll_read n net = (Ready (Ok bs), net')"
  shows "net_bytes net = bs @ net_bytes net'"
  using assms by (cases "(n, net)" rule: poll_read.cases) auto

lemma poll_read_pending_bytes:
  assumes "poll_read n net = (Pending, net')"
  shows "net_bytes net' = net_bytes net" "length net' < length net"
  using assms by (cases "(n, net)" rule: poll_read.cases; simp)+

lemma poll_read_net_ok:
  assumes "net_ok net"
  shows "net_ok (snd (poll_read n net))"
  using assms by (cases "(n, net)" rule: poll_read.cases) auto

lemma poll_read_ok_cases:
  assumes "net_ok net" "0 < n"
  obtains net' where "poll_read n net = (Pending, net')" "net_ok net'" "net_bytes net' = net_bytes net"
      "length net' < length net"
    | "net = []" "poll_read n net = (Ready (Ok []), [])"
    | bs net' where "poll_read n net = (Ready (Ok bs), net')" "bs \<noteq> []" "length bs \<le> n"
        "net_ok net'" "net_bytes net = bs @ net_bytes net'" "length net' \<le> length net"
  using assms that by (cases "(n, net)" rule: poll_read.cases) auto

lemma net_ok_empty: "net_ok net \<Longrightarrow> net_bytes net = [] \<Longrightarrow> list_all (\<lambda>e. e = WouldBlock) net"
  by (induction net rule: net_ok.induct) auto

lemma poll_read_exact_size:
  assumes "poll_read_exact_loop sz buffer net = (Ready (Ok n), buffer', net')" "n \<noteq> 0"
  shows "sz \<le> length buffer' \<and> n = sz \<and> buffer' @ net_bytes net' = buffer @ net_bytes net"
  using assms
proof (induction sz buffer net rule: poll_read_exact_loop.induct)
  case (1 sz buffer net)
  show ?case
  proof (cases "sz \<le> length buffer")
    case True
    then show ?thesis using "1.prems" by (simp add: poll_read_exact_loop.simps)
  next
    case False
    with "1.prems" obtain bs net1 where r: "poll_read (sz - length buffer) net = (Ready (Ok bs), net1)"
      and ne: "bs \<noteq> []" and l: "poll_read_exact_loop sz (buffer @ bs) net1 = (Ready (Ok n), buffer', net')"
      by (auto simp: poll_read_exact_loop.simps [of sz buffer net] split: prod.splits poll.splits
            res.splits if_splits)
    from "1.IH" [OF False r [symmetric] refl refl ne l "1.prems"(2)] poll_read_bytes [OF r]
    show ?thesis by simp
  qed
qed

text \<open>
  The view of a correct stream: the buffer and the bytes still to come start with the \<open>sz\<close> bytes
  that are wanted. The read then blocks without losing anything, or returns exactly these bytes.
\<close>

lemma poll_read_exact_sim:
  assumes "net_ok net" "buffer @ net_bytes net = want @ rest" "length want = sz" "0 < sz"
    and "length buffer \<le> sz"
  shows "(\<exists>buffer' net'. poll_read_exact sz buffer net = (Pending, buffer', net') \<and> net_ok net'
            \<and> buffer' @ net_bytes net' = want @ rest \<and> length buffer' \<le> sz \<and> length net' < length net)
       \<or> (\<exists>net'. poll_read_exact sz buffer net = (Ready (Ok sz), want, net') \<and> net_ok net'
            \<and> net_bytes net' = rest \<and> length net' \<le> length net)"
  using assms
proof (induction sz buffer net rule: poll_read_exact_loop.induct)
  case (1 sz buffer net)
  show ?case
  proof (cases "sz \<le> length buffer")
    case True
    then have "buffer = want" "net_bytes net = rest"
      using "1.prems" by (auto simp: append_eq_append_conv)
    then show ?thesis using True "1.prems" by (auto simp: poll_read_exact_def poll_read_exact_loop.simps)
  next
    case False
    then have n: "0 < sz - length buffer" by simp
    from "1.prems"(1) n show ?thesis
    proof (cases rule: poll_read_ok_cases)
      case (1 net')
      then show ?thesis using False "1.prems" by (simp add: poll_read_exact_def poll_read_exact_loop.simps)
    next
      case 2
      then have "buffer = want @ rest" using "1.prems" by simp
      then show ?thesis using False "1.prems" by simp
    next
      case (3 bs net')
      have unfold: "poll_read_exact sz buffer net = poll_read_exact sz (buffer @ bs) net'"
        using 3 False "1.prems" by (simp add: poll_read_exact_def poll_read_exact_loop.simps [of sz buffer net])
      have "(buffer @ bs) @ net_bytes net' = want @ rest" "length (buffer @ bs) \<le> sz"
        using 3 False "1.prems" by auto
      from "1.IH" [OF False 3(1) [symmetric] refl refl 3(2) 3(4) this(1) "1.prems"(3,4) this(2)]
      show ?thesis unfolding unfold using 3(6)
        by (elim disjE exE conjE) (metis less_le_trans, metis le_trans)
    qed
  qed
qed

text \<open>At the end of a correct stream with an empty buffer the read blocks or reports 0.\<close>

lemma poll_read_exact_eof:
  assumes "net_ok net" "net_bytes net = []" "0 < sz"
  shows "(\<exists>net'. poll_read_exact sz [] net = (Pending, [], net') \<and> net_ok net' \<and> net_bytes net' = []
            \<and> length net' < length net)
       \<or> (net = [] \<and> poll_read_exact sz [] net = (Ready (Ok 0), [], []))"
proof -
  have n: "0 < sz - length []" using assms by simp
  from assms(1) n show ?thesis
    by (cases rule: poll_read_ok_cases)
       (use assms in \<open>auto simp: poll_read_exact_def poll_read_exact_loop.simps\<close>)
qed

section \<open>Draining a buffer\<close>

lemma write_loop_sunk:
  assumes "write_loop buffer pos s = (out, pos', s')" "pos \<le> length buffer"
  shows "pos \<le> pos' \<and> pos' \<le> length buffer \<and> sunk s' = sunk s @ slice pos pos' buffer
    \<and> (out = Ready (Ok ()) \<longrightarrow> pos' = length buffer)"
  using assms
proof (induction buffer pos s rule: write_loop.induct)
  case (1 buffer pos s)
  show ?case
  proof (cases "pos < length buffer")
    case False
    then show ?thesis using "1.prems" by (auto simp: write_loop.simps slice_def)
  next
    case True
    note w = write_loop.simps [of buffer pos s]
    show ?thesis
    proof (cases "sink_events s")
      case Nil
      then show ?thesis using True "1.prems" by (auto simp: w poll_write_def slice_def)
    next
      case (Cons ev es)
      show ?thesis
      proof (cases ev)
        case (Accept n)
        define k where "k = min n (length buffer - pos)"
        define s1 where "s1 = s\<lparr>sink_events := es, sunk := sunk s @ take n (drop pos buffer)\<rparr>"
        have p: "poll_write (drop pos buffer) s = (Ready (Ok k), s1)"
          by (simp add: poll_write_def Cons Accept k_def s1_def)
        show ?thesis
        proof (cases "k = 0")
          case True
          then show ?thesis using \<open>pos < length buffer\<close> "1.prems" p
            by (auto simp: w slice_def s1_def k_def)
        next
          case False
          then have l: "write_loop buffer (pos + k) s1 = (out, pos', s')"
            using True "1.prems" p by (simp add: w)
          have "pos + k \<le> length buffer" using True by (simp add: k_def)
          from "1.IH" [OF True p [symmetric] refl refl False l this]
          have ih: "pos + k \<le> pos'" "pos' \<le> length buffer"
            "sunk s' = sunk s1 @ slice (pos + k) pos' buffer" "out = Ready (Ok ()) \<longrightarrow> pos' = length buffer"
            by simp_all
          have "take n (drop pos buffer) = take k (drop pos buffer)"
            by (simp add: k_def min_def)
          moreover have "slice pos pos' buffer = take k (drop pos buffer) @ slice (pos + k) pos' buffer"
            using ih(1) by (simp add: slice_def add.commute take_add [symmetric] flip: drop_drop)
          ultimately show ?thesis using ih by (simp add: s1_def)
        qed
      qed (use True "1.prems" Cons in \<open>auto simp: w poll_write_def slice_def\<close>)
    qed
  qed
qed

end
