(* ===== verification/Tcp_Aead.thy ===== *)
theory Tcp_Aead
  imports Async_Io Replay
begin

text \<open>
  The AEAD stream of \<open>shadowsocks/src/relay/tcprelay/aead.rs\<close>: a salt, then frames of an encrypted
  two-byte length and an encrypted payload of at most 0x3FFF bytes. Reader and writer are polled
  state machines; the cipher is external and enters as a record of operations.
\<close>

section \<open>The cipher\<close>

text \<open>
  \<open>Cipher::new\<close>, \<open>encrypt_packet\<close> (the plaintext becomes ciphertext and tag) and \<open>decrypt_packet\<close>
  (ciphertext and tag become the plaintext, \<open>None\<close> when the tag is wrong). The state holds the
  nonce counter, which both operations advance.
\<close>

record 'c cipher_ops =
  cipher_new :: "cipher_kind \<Rightarrow> byte list \<Rightarrow> byte list \<Rightarrow> 'c"
  encrypt_packet :: "'c \<Rightarrow> byte list \<Rightarrow> byte list \<times> 'c"
  decrypt_packet :: "'c \<Rightarrow> byte list \<Rightarrow> byte list option \<times> 'c"

text \<open>What the streams rely on: a packet encrypted in some state decrypts in the same state to the
  same plaintext, both ends reach the same next state, and the tag has the length of the method.\<close>

definition cipher_laws :: "'c cipher_ops \<Rightarrow> cipher_kind \<Rightarrow> bool" where
  "cipher_laws C kind \<longleftrightarrow>
     (\<forall>c m. decrypt_packet C c (fst (encrypt_packet C c m)) = (Some m, snd (encrypt_packet C c m))
        \<and> length (fst (encrypt_packet C c m)) = length m + tag_len kind)"

section \<open>The reader\<close>

abbreviation "MAX_PACKET_SIZE \<equiv> 0x3FFF :: nat"

datatype aead_error = AeadIo io_error
  | HeaderTooShort nat nat
  | DecryptDataError
  | DecryptLengthError
  | DataTooLong nat

datatype decrypt_read_state = WaitSalt "byte list" | ReadLength | ReadData nat | BufferedData nat

record 'c decrypted_reader =
  rd_state :: decrypt_read_state
  rd_cipher :: "'c option"
  rd_buffer :: "byte list"
  rd_method :: cipher_kind
  rd_salt :: "byte list option"
  has_handshaked :: bool

definition reader_new :: "'c cipher_ops \<Rightarrow> cipher_kind \<Rightarrow> byte list \<Rightarrow> 'c decrypted_reader" where
  "reader_new C kind key =
     (if 0 < salt_len kind then
        \<lparr>rd_state = WaitSalt key, rd_cipher = None, rd_buffer = [], rd_method = kind,
         rd_salt = None, has_handshaked = False\<rparr>
      else
        \<lparr>rd_state = ReadLength, rd_cipher = Some (cipher_new C kind key []), rd_buffer = [],
         rd_method = kind, rd_salt = None, has_handshaked = False\<rparr>)"

text \<open>The polled functions return the outcome, the reader and the network.\<close>

definition poll_read_salt ::
  "'c cipher_ops \<Rightarrow> byte list \<Rightarrow> 'c decrypted_reader \<Rightarrow> net
     \<Rightarrow> (unit, aead_error) poll \<times> 'c decrypted_reader \<times> net" where
  "poll_read_salt C key r net =
     (let n = salt_len (rd_method r) in
      case poll_read_exact n (rd_buffer r) net of
        (Pending, buffer, net) \<Rightarrow> (Pending, r\<lparr>rd_buffer := buffer\<rparr>, net)
      | (Ready (Err e), buffer, net) \<Rightarrow> (Ready (Err (AeadIo e)), r\<lparr>rd_buffer := buffer\<rparr>, net)
      | (Ready Panic, buffer, net) \<Rightarrow> (Ready Panic, r\<lparr>rd_buffer := buffer\<rparr>, net)
      | (Ready (Ok k), buffer, net) \<Rightarrow>
          if k < n then (Ready (Err (AeadIo io_eof)), r\<lparr>rd_buffer := buffer\<rparr>, net)
          else (Ready (Ok ()),
                r\<lparr>rd_buffer := buffer, rd_salt := Some (take n buffer),
                  rd_cipher := Some (cipher_new C (rd_method r) key (take n buffer))\<rparr>, net))"

definition decrypt_length :: "'c cipher_ops \<Rightarrow> 'c \<Rightarrow> byte list \<Rightarrow> (nat, aead_error) res \<times> 'c" where
  "decrypt_length C c m =
     (case decrypt_packet C c m of
        (None, c) \<Rightarrow> (Err DecryptLengthError, c)
      | (Some p, c) \<Rightarrow>
          let plen = unat (of_be (take 2 p) :: u16)
          in (if MAX_PACKET_SIZE < plen then Err (DataTooLong plen) else Ok plen, c))"

definition poll_read_length ::
  "'c cipher_ops \<Rightarrow> 'c decrypted_reader \<Rightarrow> net
     \<Rightarrow> (nat option, aead_error) poll \<times> 'c decrypted_reader \<times> net" where
  "poll_read_length C r net =
     (let n = 2 + tag_len (rd_method r) in
      case poll_read_exact n (rd_buffer r) net of
        (Pending, buffer, net) \<Rightarrow> (Pending, r\<lparr>rd_buffer := buffer\<rparr>, net)
      | (Ready (Err e), buffer, net) \<Rightarrow> (Ready (Err (AeadIo e)), r\<lparr>rd_buffer := buffer\<rparr>, net)
      | (Ready Panic, buffer, net) \<Rightarrow> (Ready Panic, r\<lparr>rd_buffer := buffer\<rparr>, net)
      | (Ready (Ok k), buffer, net) \<Rightarrow>
          if k = 0 then (Ready (Ok None), r\<lparr>rd_buffer := buffer\<rparr>, net)
          else (case rd_cipher r of
                  None \<Rightarrow> (Ready Panic, r\<lparr>rd_buffer := buffer\<rparr>, net)
                | Some c \<Rightarrow>
                    (let (out, c) = decrypt_length C c (take n buffer);
                         r = r\<lparr>rd_buffer := buffer, rd_cipher := Some c\<rparr>
                     in (case out of
                           Ok len \<Rightarrow> (Ready (Ok (Some len)), r, net)
                         | Err e \<Rightarrow> (Ready (Err e), r, net)
                         | Panic \<Rightarrow> (Ready Panic, r, net)))))"

text \<open>
  The shared context is a state \<open>'x\<close> with the salt check \<open>chk\<close> on it (\<open>Context::check_nonce_replay\<close>
  for the reader's method).
\<close>

definition poll_read_data ::
  "'c cipher_ops \<Rightarrow> (byte list \<Rightarrow> 'x \<Rightarrow> (unit, io_error) res \<times> 'x) \<Rightarrow> nat \<Rightarrow> 'c decrypted_reader \<Rightarrow> net \<Rightarrow> 'x
     \<Rightarrow> (unit, aead_error) poll \<times> 'c decrypted_reader \<times> net \<times> 'x" where
  "poll_read_data C chk len r net x =
     (let n = len + tag_len (rd_method r) in
      case poll_read_exact n (rd_buffer r) net of
        (Pending, buffer, net) \<Rightarrow> (Pending, r\<lparr>rd_buffer := buffer\<rparr>, net, x)
      | (Ready (Err e), buffer, net) \<Rightarrow> (Ready (Err (AeadIo e)), r\<lparr>rd_buffer := buffer\<rparr>, net, x)
      | (Ready Panic, buffer, net) \<Rightarrow> (Ready Panic, r\<lparr>rd_buffer := buffer\<rparr>, net, x)
      | (Ready (Ok k), buffer, net) \<Rightarrow>
          if k = 0 then (Ready (Err (AeadIo io_eof)), r\<lparr>rd_buffer := buffer\<rparr>, net, x)
          else (case rd_cipher r of
                  None \<Rightarrow> (Ready Panic, r\<lparr>rd_buffer := buffer\<rparr>, net, x)
                | Some c \<Rightarrow>
                    (case decrypt_packet C c (take n buffer) of
                       (None, c) \<Rightarrow> (Ready (Err DecryptDataError),
                                     r\<lparr>rd_buffer := buffer, rd_cipher := Some c\<rparr>, net, x)
                     | (Some p, c) \<Rightarrow>
                         (let (out, x) = (case rd_salt r of Some s \<Rightarrow> chk s x | None \<Rightarrow> (Ok (), x));
                              r = r\<lparr>rd_cipher := Some c, rd_salt := None\<rparr>
                          in (case out of
                                Ok u \<Rightarrow> (Ready (Ok ()), r\<lparr>rd_buffer := take len p\<rparr>, net, x)
                              | Err e \<Rightarrow> (Ready (Err (AeadIo e)), r\<lparr>rd_buffer := p\<rparr>, net, x)
                              | Panic \<Rightarrow> (Ready Panic, r\<lparr>rd_buffer := p\<rparr>, net, x))))))"

text \<open>One round of the loop in \<open>poll_read_decrypted\<close>: it returns, with the bytes put into a buffer
  that has room for \<open>room\<close>, or goes round again.\<close>

datatype ('s, 'o) round = Return 'o | Again 's

definition reader_round ::
  "'c cipher_ops \<Rightarrow> (byte list \<Rightarrow> 'x \<Rightarrow> (unit, io_error) res \<times> 'x) \<Rightarrow> nat
     \<Rightarrow> 'c decrypted_reader \<times> net \<times> 'x
     \<Rightarrow> ('c decrypted_reader \<times> net \<times> 'x,
         (byte list, aead_error) poll \<times> 'c decrypted_reader \<times> net \<times> 'x) round" where
  "reader_round C chk room s =
     (case s of (r, net, x) \<Rightarrow>
      case rd_state r of
        WaitSalt key \<Rightarrow>
          (case poll_read_salt C key r net of
             (Pending, r, net) \<Rightarrow> Return (Pending, r, net, x)
           | (Ready (Err e), r, net) \<Rightarrow> Return (Ready (Err e), r, net, x)
           | (Ready Panic, r, net) \<Rightarrow> Return (Ready Panic, r, net, x)
           | (Ready (Ok u), r, net) \<Rightarrow>
               Again (r\<lparr>rd_buffer := [], rd_state := ReadLength, has_handshaked := True\<rparr>, net, x))
      | ReadLength \<Rightarrow>
          (case poll_read_length C r net of
             (Pending, r, net) \<Rightarrow> Return (Pending, r, net, x)
           | (Ready (Err e), r, net) \<Rightarrow> Return (Ready (Err e), r, net, x)
           | (Ready Panic, r, net) \<Rightarrow> Return (Ready Panic, r, net, x)
           | (Ready (Ok None), r, net) \<Rightarrow> Return (Ready (Ok []), r, net, x)
           | (Ready (Ok (Some len)), r, net) \<Rightarrow>
               Again (r\<lparr>rd_buffer := [], rd_state := ReadData len\<rparr>, net, x))
      | ReadData len \<Rightarrow>
          (case poll_read_data C chk len r net x of
             (Pending, r, net, x) \<Rightarrow> Return (Pending, r, net, x)
           | (Ready (Err e), r, net, x) \<Rightarrow> Return (Ready (Err e), r, net, x)
           | (Ready Panic, r, net, x) \<Rightarrow> Return (Ready Panic, r, net, x)
           | (Ready (Ok u), r, net, x) \<Rightarrow> Again (r\<lparr>rd_state := BufferedData 0\<rparr>, net, x))
      | BufferedData pos \<Rightarrow>
          if pos < length (rd_buffer r) then
            let consumed = min (length (rd_buffer r) - pos) room
            in Return (Ready (Ok (slice pos (pos + consumed) (rd_buffer r))),
                       r\<lparr>rd_state := BufferedData (pos + consumed)\<rparr>, net, x)
          else Again (r\<lparr>rd_buffer := [], rd_state := ReadLength\<rparr>, net, x))"

text \<open>Every further round has less to read.\<close>

definition reader_work :: "'c decrypted_reader \<times> net \<times> 'x \<Rightarrow> nat" where
  "reader_work s =
     (case s of (r, net, x) \<Rightarrow>
      case rd_state r of
        BufferedData pos \<Rightarrow> 2 * length (net_bytes net) + 1
      | _ \<Rightarrow> 2 * (length (net_bytes net) + length (rd_buffer r)))"

lemma poll_read_exact_work:
  assumes "poll_read_exact sz buffer net = (Ready (Ok n), buffer', net')" "n \<noteq> 0"
  shows "length (net_bytes net') < length (net_bytes net) + length buffer" "sz \<le> length buffer'" "n = sz"
proof -
  have sz: "sz \<noteq> 0" and l: "poll_read_exact_loop sz buffer net = (Ready (Ok n), buffer', net')"
    using assms by (auto simp: poll_read_exact_def split: if_splits)
  from poll_read_exact_size [OF l assms(2)] have "sz \<le> length buffer'" "n = sz"
    "buffer' @ net_bytes net' = buffer @ net_bytes net" by simp_all
  moreover from this(3) have "length buffer' + length (net_bytes net') = length buffer + length (net_bytes net)"
    by (metis length_append)
  ultimately show "length (net_bytes net') < length (net_bytes net) + length buffer"
    "sz \<le> length buffer'" "n = sz" using sz by linarith+
qed

lemma poll_read_salt_work:
  assumes "poll_read_salt C key r net = (Ready (Ok u), r', net')"
  shows "length (net_bytes net') < length (net_bytes net) + length (rd_buffer r)"
proof -
  obtain out buffer net1 where p: "poll_read_exact (salt_len (rd_method r)) (rd_buffer r) net = (out, buffer, net1)"
    by (metis prod_cases3)
  obtain k where "out = Ready (Ok k)" "k \<noteq> 0" "net1 = net'"
    using assms p by (cases "salt_len (rd_method r) = 0")
      (auto simp: poll_read_salt_def Let_def poll_read_exact_def split: poll.splits res.splits if_splits)
  then show ?thesis using poll_read_exact_work [of _ _ net k buffer net'] p by simp
qed

lemma poll_read_length_work:
  assumes "poll_read_length C r net = (Ready (Ok (Some len)), r', net')"
  shows "length (net_bytes net') < length (net_bytes net) + length (rd_buffer r)"
proof -
  obtain out buffer net1 where p: "poll_read_exact (2 + tag_len (rd_method r)) (rd_buffer r) net = (out, buffer, net1)"
    by (metis prod_cases3)
  obtain k where "out = Ready (Ok k)" "k \<noteq> 0" "net1 = net'"
    using assms p
    by (auto simp: poll_read_length_def Let_def split: poll.splits res.splits if_splits option.splits prod.splits)
  then show ?thesis using poll_read_exact_work [of _ _ net k buffer net'] p by simp
qed

lemma poll_read_data_work:
  assumes "poll_read_data C chk len r net x = (Ready (Ok u), r', net', x')"
  shows "length (net_bytes net') < length (net_bytes net) + length (rd_buffer r)"
proof -
  obtain out buffer net1 where p: "poll_read_exact (len + tag_len (rd_method r)) (rd_buffer r) net = (out, buffer, net1)"
    by (metis prod_cases3)
  obtain k where "out = Ready (Ok k)" "k \<noteq> 0" "net1 = net'"
    using assms p
    by (auto simp: poll_read_data_def Let_def split: poll.splits res.splits if_splits option.splits prod.splits)
  then show ?thesis using poll_read_exact_work [of _ _ net k buffer net'] p by simp
qed

lemma reader_round_decreases:
  assumes "reader_round C chk room s = Again s'"
  shows "reader_work s' < reader_work s"
proof -
  obtain r net x where s: "s = (r, net, x)" by (cases s)
  show ?thesis
  proof (cases "rd_state r")
    case (WaitSalt key)
    then show ?thesis using assms
      by (auto simp: s reader_round_def reader_work_def dest: poll_read_salt_work
            split: prod.splits poll.splits res.splits)
  next
    case ReadLength
    then show ?thesis using assms
      by (auto simp: s reader_round_def reader_work_def dest: poll_read_length_work
            split: prod.splits poll.splits res.splits option.splits)
  next
    case (ReadData len)
    then show ?thesis using assms
      by (auto simp: s reader_round_def reader_work_def dest!: poll_read_data_work
            split: prod.splits poll.splits res.splits)
  next
    case (BufferedData pos)
    then show ?thesis using assms
      by (auto simp: s reader_round_def reader_work_def Let_def split: if_splits)
  qed
qed

function poll_read_decrypted ::
  "'c cipher_ops \<Rightarrow> (byte list \<Rightarrow> 'x \<Rightarrow> (unit, io_error) res \<times> 'x) \<Rightarrow> nat
     \<Rightarrow> 'c decrypted_reader \<times> net \<times> 'x
     \<Rightarrow> (byte list, aead_error) poll \<times> 'c decrypted_reader \<times> net \<times> 'x" where
  "poll_read_decrypted C chk room s =
     (case reader_round C chk room s of
        Return out \<Rightarrow> out
      | Again s \<Rightarrow> poll_read_decrypted C chk room s)"
  by pat_completeness auto
termination
  by (relation "measure (\<lambda>(C, chk, room, s). reader_work s)") (auto simp: reader_round_decreases)

declare poll_read_decrypted.simps [simp del]

section \<open>The writer\<close>

datatype encrypt_write_state = AssemblePacket | Writing nat

record 'c encrypted_writer =
  wr_cipher :: 'c
  wr_buffer :: "byte list"
  wr_state :: encrypt_write_state
  wr_salt :: "byte list"

definition writer_new :: "'c cipher_ops \<Rightarrow> cipher_kind \<Rightarrow> byte list \<Rightarrow> byte list \<Rightarrow> 'c encrypted_writer" where
  "writer_new C kind key nonce =
     \<lparr>wr_cipher = cipher_new C kind key nonce, wr_buffer = nonce, wr_state = AssemblePacket,
      wr_salt = nonce\<rparr>"

definition assemble_packet :: "'c cipher_ops \<Rightarrow> byte list \<Rightarrow> 'c encrypted_writer \<Rightarrow> 'c encrypted_writer" where
  "assemble_packet C buf w =
     (let (len_ct, c) = encrypt_packet C (wr_cipher w) (be_of 2 (word_of_nat (length buf) :: u16));
          (data_ct, c) = encrypt_packet C c buf
      in w\<lparr>wr_cipher := c, wr_buffer := wr_buffer w @ len_ct @ data_ct, wr_state := Writing 0\<rparr>)"

definition poll_write_encrypted ::
  "'c cipher_ops \<Rightarrow> byte list \<Rightarrow> 'c encrypted_writer \<times> sink
     \<Rightarrow> (nat, io_error) poll \<times> 'c encrypted_writer \<times> sink" where
  "poll_write_encrypted C buf s =
     (case s of (w, snk) \<Rightarrow>
      let buf = (if MAX_PACKET_SIZE < length buf then take MAX_PACKET_SIZE buf else buf);
          w = (case wr_state w of AssemblePacket \<Rightarrow> assemble_packet C buf w | Writing pos \<Rightarrow> w);
          pos = (case wr_state w of AssemblePacket \<Rightarrow> 0 | Writing pos \<Rightarrow> pos)
      in (case write_loop (wr_buffer w) pos snk of
            (Pending, pos, snk) \<Rightarrow> (Pending, w\<lparr>wr_state := Writing pos\<rparr>, snk)
          | (Ready (Err e), pos, snk) \<Rightarrow> (Ready (Err e), w\<lparr>wr_state := Writing pos\<rparr>, snk)
          | (Ready Panic, pos, snk) \<Rightarrow> (Ready Panic, w\<lparr>wr_state := Writing pos\<rparr>, snk)
          | (Ready (Ok u), pos, snk) \<Rightarrow>
              (Ready (Ok (length buf)), w\<lparr>wr_state := AssemblePacket, wr_buffer := []\<rparr>, snk)))"

section \<open>The wire format\<close>

fun seal_frames :: "'c cipher_ops \<Rightarrow> 'c \<Rightarrow> byte list list \<Rightarrow> byte list \<times> 'c" where
  "seal_frames C c [] = ([], c)"
| "seal_frames C c (m # ms) =
     (let (len_ct, c) = encrypt_packet C c (be_of 2 (word_of_nat (length m) :: u16));
          (data_ct, c) = encrypt_packet C c m;
          (rest, c) = seal_frames C c ms
      in (len_ct @ data_ct @ rest, c))"

lemma seal_frames_append:
  "seal_frames C c (ms @ ns) =
     (fst (seal_frames C c ms) @ fst (seal_frames C (snd (seal_frames C c ms)) ns),
      snd (seal_frames C (snd (seal_frames C c ms)) ns))"
  by (induction ms arbitrary: c) (simp_all add: case_prod_beta Let_def)

lemma seal_frames_one:
  "assemble_packet C m w = w\<lparr>wr_cipher := snd (seal_frames C (wr_cipher w) [m]),
     wr_buffer := wr_buffer w @ fst (seal_frames C (wr_cipher w) [m]), wr_state := Writing 0\<rparr>"
  by (simp add: assemble_packet_def case_prod_beta Let_def)

section \<open>The writer puts whole frames on the wire\<close>

text \<open>What has been sent and what is buffered behind it.\<close>

definition writer_total :: "'c encrypted_writer \<times> sink \<Rightarrow> byte list" where
  "writer_total s =
     (case s of (w, snk) \<Rightarrow>
      sunk snk @ (case wr_state w of AssemblePacket \<Rightarrow> wr_buffer w | Writing pos \<Rightarrow> drop pos (wr_buffer w)))"

definition writer_wf :: "'c encrypted_writer \<Rightarrow> bool" where
  "writer_wf w \<longleftrightarrow> (case wr_state w of AssemblePacket \<Rightarrow> True | Writing pos \<Rightarrow> pos \<le> length (wr_buffer w))"

lemma poll_write_encrypted_step:
  assumes "poll_write_encrypted C buf (w, snk) = (out, w', snk')" "writer_wf w"
  defines "m \<equiv> take MAX_PACKET_SIZE buf"
  defines "new \<equiv> (if wr_state w = AssemblePacket then [m] else [])"
  shows "writer_wf w'"
    and "writer_total (w', snk') = writer_total (w, snk) @ fst (seal_frames C (wr_cipher w) new)"
    and "wr_cipher w' = snd (seal_frames C (wr_cipher w) new)"
    and "\<And>n. out = Ready (Ok n) \<Longrightarrow> n = length m \<and> wr_state w' = AssemblePacket \<and> wr_buffer w' = []"
    and "(\<And>n. out \<noteq> Ready (Ok n)) \<Longrightarrow> wr_state w' \<noteq> AssemblePacket"
proof -
  have m: "(if MAX_PACKET_SIZE < length buf then take MAX_PACKET_SIZE buf else buf) = m"
    by (simp add: m_def)
  define w1 where "w1 = (case wr_state w of AssemblePacket \<Rightarrow> assemble_packet C m w | Writing pos \<Rightarrow> w)"
  define pos where "pos = (case wr_state w1 of AssemblePacket \<Rightarrow> 0 | Writing pos \<Rightarrow> pos)"
  obtain o1 pos1 snk1 where l: "write_loop (wr_buffer w1) pos snk = (o1, pos1, snk1)"
    by (metis prod_cases3)
  have st: "wr_state w1 = Writing pos" and pos: "pos \<le> length (wr_buffer w1)"
    using assms(2) by (auto simp: w1_def pos_def seal_frames_one writer_wf_def split: encrypt_write_state.splits)
  have tot: "writer_total (w1, snk) = writer_total (w, snk) @ fst (seal_frames C (wr_cipher w) new)"
    and cip: "wr_cipher w1 = snd (seal_frames C (wr_cipher w) new)"
    using assms(2) by (auto simp: w1_def new_def seal_frames_one writer_total_def split: encrypt_write_state.splits)
  from write_loop_sunk [OF l pos]
  have "pos \<le> pos1" "pos1 \<le> length (wr_buffer w1)" "sunk snk1 = sunk snk @ slice pos pos1 (wr_buffer w1)"
    "o1 = Ready (Ok ()) \<longrightarrow> pos1 = length (wr_buffer w1)" by simp_all
  moreover have "slice pos pos1 b @ drop pos1 b = drop pos b" if "pos \<le> pos1" for b :: "byte list"
    using that by (simp add: slice_def) (metis append_take_drop_id drop_drop le_add_diff_inverse2)
  ultimately have sunk1: "sunk snk1 @ drop pos1 (wr_buffer w1) = writer_total (w1, snk)"
    by (simp add: writer_total_def st)
  have res: "(out, w', snk') = (case (o1, pos1, snk1) of
            (Pending, pos, snk) \<Rightarrow> (Pending, w1\<lparr>wr_state := Writing pos\<rparr>, snk)
          | (Ready (Err e), pos, snk) \<Rightarrow> (Ready (Err e), w1\<lparr>wr_state := Writing pos\<rparr>, snk)
          | (Ready Panic, pos, snk) \<Rightarrow> (Ready Panic, w1\<lparr>wr_state := Writing pos\<rparr>, snk)
          | (Ready (Ok u), pos, snk) \<Rightarrow>
              (Ready (Ok (length m)), w1\<lparr>wr_state := AssemblePacket, wr_buffer := []\<rparr>, snk))"
    using assms(1) l unfolding poll_write_encrypted_def m
    by (simp add: w1_def [symmetric] pos_def Let_def) (auto simp: w1_def split: poll.splits res.splits)
  note facts = \<open>pos1 \<le> length (wr_buffer w1)\<close> \<open>o1 = Ready (Ok ()) \<longrightarrow> pos1 = length (wr_buffer w1)\<close>
    sunk1 tot cip res
  show "writer_wf w'" using facts by (auto simp: writer_wf_def split: poll.splits res.splits)
  show "writer_total (w', snk') = writer_total (w, snk) @ fst (seal_frames C (wr_cipher w) new)"
    using facts by (auto simp: writer_total_def split: poll.splits res.splits)
  show "wr_cipher w' = snd (seal_frames C (wr_cipher w) new)"
    using facts by (auto split: poll.splits res.splits)
  show "\<And>n. out = Ready (Ok n) \<Longrightarrow> n = length m \<and> wr_state w' = AssemblePacket \<and> wr_buffer w' = []"
    using facts by (auto split: poll.splits res.splits)
  show "(\<And>n. out \<noteq> Ready (Ok n)) \<Longrightarrow> wr_state w' \<noteq> AssemblePacket"
    using facts by (auto split: poll.splits res.splits)
qed

text \<open>
  A task that sends messages: it polls with the same message after each \<open>Pending\<close> until the write is
  complete, and then goes on to the next message.
\<close>

inductive send_one :: "'c cipher_ops \<Rightarrow> byte list \<Rightarrow> 'c encrypted_writer \<times> sink \<Rightarrow> nat \<Rightarrow> 'c encrypted_writer \<times> sink \<Rightarrow> bool"
  for C :: "'c cipher_ops" and m :: "byte list" where
  sent: "poll_write_encrypted C m s = (Ready (Ok n), s') \<Longrightarrow> send_one C m s n s'"
| blocked: "poll_write_encrypted C m s = (Pending, s1) \<Longrightarrow> send_one C m s1 n s' \<Longrightarrow> send_one C m s n s'"

inductive send_all :: "'c cipher_ops \<Rightarrow> byte list list \<Rightarrow> 'c encrypted_writer \<times> sink \<Rightarrow> nat list \<Rightarrow> 'c encrypted_writer \<times> sink \<Rightarrow> bool"
  for C :: "'c cipher_ops" where
  none: "send_all C [] s [] s"
| more: "send_one C m s n s1 \<Longrightarrow> send_all C ms s1 ns s' \<Longrightarrow> send_all C (m # ms) s (n # ns) s'"

inductive_cases send_all_NilE: "send_all C [] s ns s'"
inductive_cases send_all_ConsE: "send_all C (m # ms) s ns s'"

lemma send_one_frame:
  assumes "send_one C m s n s'" "writer_wf (fst s)"
  defines "new \<equiv> (if wr_state (fst s) = AssemblePacket then [take MAX_PACKET_SIZE m] else [])"
  shows "n = min (length m) MAX_PACKET_SIZE \<and> wr_state (fst s') = AssemblePacket \<and> wr_buffer (fst s') = []
    \<and> writer_total s' = writer_total s @ fst (seal_frames C (wr_cipher (fst s)) new)
    \<and> wr_cipher (fst s') = snd (seal_frames C (wr_cipher (fst s)) new)"
  using assms(1,2) unfolding new_def
proof (induction rule: send_one.induct)
  case (sent s n s')
  obtain w snk w' snk' where s: "s = (w, snk)" "s' = (w', snk')" by (metis prod.exhaust)
  from poll_write_encrypted_step [OF sent.hyps [unfolded s]] sent.prems
  show ?case by (auto simp: s min_def)
next
  case (blocked s s1 n s')
  obtain w snk w1 snk1 where s: "s = (w, snk)" "s1 = (w1, snk1)" by (metis prod.exhaust)
  note step = poll_write_encrypted_step [OF blocked.hyps(1) [unfolded s]]
  have "writer_wf w1" "wr_state w1 \<noteq> AssemblePacket" using step(1,5) blocked.prems by (auto simp: s)
  then show ?case using blocked.IH step(2,3) blocked.prems by (auto simp: s)
qed

lemma send_all_frames:
  assumes "send_all C ms s ns s'" "wr_state (fst s) = AssemblePacket"
  shows "ns = map (\<lambda>m. min (length m) MAX_PACKET_SIZE) ms \<and> wr_state (fst s') = AssemblePacket
    \<and> (ms \<noteq> [] \<longrightarrow> wr_buffer (fst s') = [])
    \<and> writer_total s' = writer_total s @ fst (seal_frames C (wr_cipher (fst s)) (map (take MAX_PACKET_SIZE) ms))"
  using assms
proof (induction rule: send_all.induct)
  case (more m s n s1 ms ns s')
  have "writer_wf (fst s)" using more.prems by (simp add: writer_wf_def)
  from send_one_frame [OF more.hyps(1) this] more.prems
  have one: "n = min (length m) MAX_PACKET_SIZE" "wr_state (fst s1) = AssemblePacket" "wr_buffer (fst s1) = []"
    "writer_total s1 = writer_total s @ fst (seal_frames C (wr_cipher (fst s)) [take MAX_PACKET_SIZE m])"
    "wr_cipher (fst s1) = snd (seal_frames C (wr_cipher (fst s)) [take MAX_PACKET_SIZE m])"
    by simp_all
  have "ms \<noteq> [] \<or> s' = s1" using more.hyps(2) by (auto elim: send_all.cases)
  then show ?case
    using more.IH [OF one(2)] one
      seal_frames_append [of C "wr_cipher (fst s)" "[take MAX_PACKET_SIZE m]" "map (take MAX_PACKET_SIZE) ms"]
    by (auto simp del: seal_frames.simps)
qed simp

section \<open>The reader recovers the plaintext\<close>

definition reader_sync ::
  "'c cipher_ops \<Rightarrow> cipher_kind \<Rightarrow> (byte list \<Rightarrow> 'x \<Rightarrow> (unit, io_error) res \<times> 'x)
     \<Rightarrow> 'c decrypted_reader \<times> net \<times> 'x \<Rightarrow> byte list \<Rightarrow> bool" where
  "reader_sync C kind chk s plain \<longleftrightarrow>
     (case s of (r, net, x) \<Rightarrow>
      rd_method r = kind \<and> net_ok net \<and> (\<forall>salt. rd_salt r = Some salt \<longrightarrow> fst (chk salt x) = Ok ()) \<and>
      (case rd_state r of
         WaitSalt key \<Rightarrow>
           (\<exists>salt ms. length salt = salt_len kind \<and> salt \<noteq> [] \<and> fst (chk salt x) = Ok ()
              \<and> length (rd_buffer r) \<le> length salt
              \<and> rd_buffer r @ net_bytes net = salt @ fst (seal_frames C (cipher_new C kind key salt) ms)
              \<and> (\<forall>m \<in> set ms. length m \<le> MAX_PACKET_SIZE) \<and> plain = concat ms)
       | ReadLength \<Rightarrow>
           (\<exists>c ms. rd_cipher r = Some c \<and> length (rd_buffer r) \<le> 2 + tag_len kind
              \<and> rd_buffer r @ net_bytes net = fst (seal_frames C c ms)
              \<and> (\<forall>m \<in> set ms. length m \<le> MAX_PACKET_SIZE) \<and> plain = concat ms)
       | ReadData len \<Rightarrow>
           (\<exists>c m ms. rd_cipher r = Some c \<and> len = length m \<and> length (rd_buffer r) \<le> len + tag_len kind
              \<and> rd_buffer r @ net_bytes net
                  = fst (encrypt_packet C c m) @ fst (seal_frames C (snd (encrypt_packet C c m)) ms)
              \<and> (\<forall>m \<in> set ms. length m \<le> MAX_PACKET_SIZE) \<and> plain = m @ concat ms)
       | BufferedData pos \<Rightarrow>
           (\<exists>c ms. rd_cipher r = Some c \<and> pos \<le> length (rd_buffer r)
              \<and> net_bytes net = fst (seal_frames C c ms)
              \<and> (\<forall>m \<in> set ms. length m \<le> MAX_PACKET_SIZE) \<and> plain = drop pos (rd_buffer r) @ concat ms)))"

text \<open>What a poll may do in such a state: block after using up a network event, or deliver.\<close>

definition delivers ::
  "'c cipher_ops \<Rightarrow> cipher_kind \<Rightarrow> (byte list \<Rightarrow> 'x \<Rightarrow> (unit, io_error) res \<times> 'x) \<Rightarrow> nat \<Rightarrow> nat \<Rightarrow> byte list
     \<Rightarrow> (byte list, aead_error) poll \<times> 'c decrypted_reader \<times> net \<times> 'x \<Rightarrow> bool" where
  "delivers C kind chk room k plain res \<longleftrightarrow>
     (case res of (out, r, net, x) \<Rightarrow>
       (out = Pending \<and> reader_sync C kind chk (r, net, x) plain \<and> length net < k)
       \<or> (\<exists>bs rest. out = Ready (Ok bs) \<and> plain = bs @ rest \<and> length bs \<le> room \<and> (bs = [] \<longrightarrow> plain = [])
            \<and> reader_sync C kind chk (r, net, x) rest \<and> length net \<le> k))"

lemma delivers_mono: "delivers C kind chk room k plain res \<Longrightarrow> k \<le> k' \<Longrightarrow> delivers C kind chk room k' plain res"
  by (auto simp: delivers_def split: prod.splits)

text \<open>What a round may do: return such a result, or go on in a state with the same plaintext ahead.\<close>

definition round_sound ::
  "'c cipher_ops \<Rightarrow> cipher_kind \<Rightarrow> (byte list \<Rightarrow> 'x \<Rightarrow> (unit, io_error) res \<times> 'x) \<Rightarrow> nat \<Rightarrow> nat \<Rightarrow> byte list
     \<Rightarrow> ('c decrypted_reader \<times> net \<times> 'x, (byte list, aead_error) poll \<times> 'c decrypted_reader \<times> net \<times> 'x) round \<Rightarrow> bool" where
  "round_sound C kind chk room k plain rnd \<longleftrightarrow>
     (case rnd of
        Return res \<Rightarrow> delivers C kind chk room k plain res
      | Again s \<Rightarrow> reader_sync C kind chk s plain \<and> length (fst (snd s)) \<le> k)"

lemma round_salt:
  assumes sync: "reader_sync C kind chk (r, net, x) plain" and st: "rd_state r = WaitSalt key"
  shows "round_sound C kind chk room (length net) plain (reader_round C chk room (r, net, x))"
proof -
  obtain salt ms where salt: "length salt = salt_len kind" "salt \<noteq> []" "fst (chk salt x) = Ok ()"
      "length (rd_buffer r) \<le> salt_len kind"
    and bytes: "rd_buffer r @ net_bytes net = salt @ fst (seal_frames C (cipher_new C kind key salt) ms)"
    and ms: "\<forall>m \<in> set ms. length m \<le> MAX_PACKET_SIZE" "plain = concat ms"
    and kind: "rd_method r = kind" and ok: "net_ok net"
    and rs: "\<forall>salt. rd_salt r = Some salt \<longrightarrow> fst (chk salt x) = Ok ()"
    using sync st by (auto simp: reader_sync_def)
  have pos: "0 < salt_len kind" using salt(1,2) by (cases salt) auto
  from poll_read_exact_sim [OF ok bytes salt(1) pos salt(4)] show ?thesis
  proof (elim disjE exE conjE)
    fix b net' assume "poll_read_exact (salt_len kind) (rd_buffer r) net = (Pending, b, net')" "net_ok net'"
      "b @ net_bytes net' = salt @ fst (seal_frames C (cipher_new C kind key salt) ms)"
      "length b \<le> salt_len kind" "length net' < length net"
    then show ?thesis using st kind salt ms rs
      by (auto simp: round_sound_def delivers_def reader_sync_def reader_round_def poll_read_salt_def)
  next
    fix net' assume "poll_read_exact (salt_len kind) (rd_buffer r) net = (Ready (Ok (salt_len kind)), salt, net')"
      "net_ok net'" "net_bytes net' = fst (seal_frames C (cipher_new C kind key salt) ms)" "length net' \<le> length net"
    then show ?thesis using st kind salt ms rs
      by (auto simp: round_sound_def delivers_def reader_sync_def reader_round_def poll_read_salt_def)
  qed
qed

lemma round_length:
  assumes laws: "cipher_laws C kind" and sync: "reader_sync C kind chk (r, net, x) plain"
    and st: "rd_state r = ReadLength"
  shows "round_sound C kind chk room (length net) plain (reader_round C chk room (r, net, x))"
proof -
  let ?n = "2 + tag_len kind"
  obtain c ms where c: "rd_cipher r = Some c" and len: "length (rd_buffer r) \<le> ?n"
    and bytes: "rd_buffer r @ net_bytes net = fst (seal_frames C c ms)"
    and ms: "\<forall>m \<in> set ms. length m \<le> MAX_PACKET_SIZE" "plain = concat ms"
    and kind: "rd_method r = kind" and ok: "net_ok net"
    and rs: "\<forall>salt. rd_salt r = Some salt \<longrightarrow> fst (chk salt x) = Ok ()"
    using sync st by (auto simp: reader_sync_def)
  show ?thesis
  proof (cases ms)
    case Nil
    then have e: "rd_buffer r = []" "net_bytes net = []" using bytes by simp_all
    have "0 < ?n" by simp
    from poll_read_exact_eof [OF ok e(2) this] show ?thesis using e st kind ms Nil c rs
      by (auto simp: round_sound_def delivers_def reader_sync_def reader_round_def poll_read_length_def Let_def
          intro!: exI [of _ "[]"])
  next
    case (Cons m ms')
    define lb where "lb = be_of 2 (word_of_nat (length m) :: u16)"
    define c1 where "c1 = snd (encrypt_packet C c lb)"
    define rest where "rest = fst (encrypt_packet C c1 m) @ fst (seal_frames C (snd (encrypt_packet C c1 m)) ms')"
    have want: "rd_buffer r @ net_bytes net = fst (encrypt_packet C c lb) @ rest"
      using bytes by (simp add: Cons case_prod_beta Let_def lb_def c1_def rest_def)
    have wl: "length (fst (encrypt_packet C c lb)) = ?n" using laws by (simp add: cipher_laws_def lb_def)
    have "length m \<le> MAX_PACKET_SIZE" using ms Cons by simp
    then have plen: "decrypt_length C c (fst (encrypt_packet C c lb)) = (Ok (length m), c1)"
      using laws by (simp add: decrypt_length_def cipher_laws_def lb_def c1_def unat_of_nat)
    have "0 < ?n" by simp
    from poll_read_exact_sim [OF ok want wl this len] show ?thesis
    proof (elim disjE exE conjE)
      fix b net' assume "poll_read_exact ?n (rd_buffer r) net = (Pending, b, net')" "net_ok net'"
        "b @ net_bytes net' = fst (encrypt_packet C c lb) @ rest" "length b \<le> ?n" "length net' < length net"
      then show ?thesis using st kind ms rs c want bytes
        by (auto simp: round_sound_def delivers_def reader_sync_def reader_round_def poll_read_length_def
            intro!: exI [of _ ms])
    next
      fix net' assume "poll_read_exact ?n (rd_buffer r) net = (Ready (Ok ?n), fst (encrypt_packet C c lb), net')"
        "net_ok net'" "net_bytes net' = rest" "length net' \<le> length net"
      moreover have "fst (encrypt_packet C c lb) = take ?n (fst (encrypt_packet C c lb))" using wl by simp
      ultimately show ?thesis using st kind ms rs c plen wl
        by (auto simp: round_sound_def reader_sync_def reader_round_def poll_read_length_def Let_def
              Cons rest_def)
    qed
  qed
qed

lemma round_data:
  assumes laws: "cipher_laws C kind" "0 < tag_len kind" and sync: "reader_sync C kind chk (r, net, x) plain"
    and st: "rd_state r = ReadData len"
  shows "round_sound C kind chk room (length net) plain (reader_round C chk room (r, net, x))"
proof -
  obtain c m ms where c: "rd_cipher r = Some c" and m: "len = length m"
    and len: "length (rd_buffer r) \<le> len + tag_len kind"
    and bytes: "rd_buffer r @ net_bytes net
                  = fst (encrypt_packet C c m) @ fst (seal_frames C (snd (encrypt_packet C c m)) ms)"
    and ms: "\<forall>m \<in> set ms. length m \<le> MAX_PACKET_SIZE" "plain = m @ concat ms"
    and kind: "rd_method r = kind" and ok: "net_ok net"
    and rs: "\<forall>salt. rd_salt r = Some salt \<longrightarrow> fst (chk salt x) = Ok ()"
    using sync st by (auto simp: reader_sync_def)
  define want where "want = fst (encrypt_packet C c m)"
  define c1 where "c1 = snd (encrypt_packet C c m)"
  have wl: "length want = len + tag_len kind" using laws m by (simp add: cipher_laws_def want_def)
  have dec: "decrypt_packet C c want = (Some m, c1)" using laws by (simp add: cipher_laws_def want_def c1_def)
  note bytes = bytes [folded want_def c1_def]
  obtain x1 where chk: "(case rd_salt r of Some s \<Rightarrow> chk s x | None \<Rightarrow> (Ok (), x)) = (Ok (), x1)"
    using rs by (cases "rd_salt r") (auto simp: prod_eq_iff)
  have "0 < len + tag_len kind" using laws(2) by simp
  from poll_read_exact_sim [OF ok bytes wl this len] show ?thesis
  proof (elim disjE exE conjE)
    fix b net' assume "poll_read_exact (len + tag_len kind) (rd_buffer r) net = (Pending, b, net')" "net_ok net'"
      "b @ net_bytes net' = want @ fst (seal_frames C c1 ms)" "length b \<le> len + tag_len kind"
      "length net' < length net"
    then show ?thesis using st kind ms rs c m
      by (auto simp: round_sound_def delivers_def reader_sync_def reader_round_def poll_read_data_def
            want_def c1_def)
  next
    fix net' assume "poll_read_exact (len + tag_len kind) (rd_buffer r) net
        = (Ready (Ok (len + tag_len kind)), want, net')"
      "net_ok net'" "net_bytes net' = fst (seal_frames C c1 ms)" "length net' \<le> length net"
    then show ?thesis using st kind ms c m wl laws(2) dec
      by (auto simp: round_sound_def reader_round_def poll_read_data_def Let_def chk reader_sync_def)
  qed
qed

lemma round_buffered:
  assumes sync: "reader_sync C kind chk (r, net, x) plain" and st: "rd_state r = BufferedData pos"
    and room: "0 < room"
  shows "round_sound C kind chk room (length net) plain (reader_round C chk room (r, net, x))"
proof (cases "pos < length (rd_buffer r)")
  case True
  define k where "k = min (length (rd_buffer r) - pos) room"
  have "drop pos (rd_buffer r) = slice pos (pos + k) (rd_buffer r) @ drop (pos + k) (rd_buffer r)"
    by (simp add: slice_def add.commute flip: drop_drop)
  moreover have "slice pos (pos + k) (rd_buffer r) \<noteq> []" "length (slice pos (pos + k) (rd_buffer r)) \<le> room"
    "pos + k \<le> length (rd_buffer r)"
    using True room by (auto simp: slice_def k_def)
  ultimately show ?thesis using sync st True
    by (auto simp: round_sound_def delivers_def reader_sync_def reader_round_def Let_def k_def [symmetric])
next
  case False
  then show ?thesis using sync st
    by (auto simp: round_sound_def reader_sync_def reader_round_def)
qed

lemma reader_round_sound:
  assumes "cipher_laws C kind" "0 < tag_len kind" "0 < room" "reader_sync C kind chk (r, net, x) plain"
  shows "round_sound C kind chk room (length net) plain (reader_round C chk room (r, net, x))"
proof (cases "rd_state r")
  case (WaitSalt key)
  show ?thesis by (rule round_salt [OF assms(4) WaitSalt])
next
  case ReadLength
  show ?thesis by (rule round_length [OF assms(1,4) ReadLength])
next
  case (ReadData len)
  show ?thesis by (rule round_data [OF assms(1,2,4) ReadData])
next
  case (BufferedData pos)
  show ?thesis by (rule round_buffered [OF assms(4) BufferedData assms(3)])
qed

lemma poll_read_decrypted_sound:
  assumes "cipher_laws C kind" "0 < tag_len kind" "0 < room" "reader_sync C kind chk s plain"
  shows "delivers C kind chk room (length (fst (snd s))) plain (poll_read_decrypted C chk room s)"
  using assms
proof (induction C chk room s rule: poll_read_decrypted.induct)
  case (1 C chk room s)
  obtain r net x where s: "s = (r, net, x)" by (cases s)
  note snd = reader_round_sound [OF "1.prems" [unfolded s]]
  show ?case
  proof (cases "reader_round C chk room s")
    case (Return out)
    then show ?thesis using snd by (simp add: s round_sound_def poll_read_decrypted.simps)
  next
    case (Again s')
    then have "reader_sync C kind chk s' plain" "length (fst (snd s')) \<le> length net"
      using snd by (simp_all add: s round_sound_def)
    with "1.IH" [OF Again "1.prems"(1-3)] show ?thesis
      using Again by (auto simp: s poll_read_decrypted.simps [of C chk room "(r, net, x)"] intro: delivers_mono)
  qed
qed

text \<open>A task that reads: it polls once for each given buffer size and stops at an error.\<close>

fun read_polls ::
  "'c cipher_ops \<Rightarrow> (byte list \<Rightarrow> 'x \<Rightarrow> (unit, io_error) res \<times> 'x) \<Rightarrow> nat list \<Rightarrow> 'c decrypted_reader \<times> net \<times> 'x
     \<Rightarrow> (byte list, aead_error) res \<times> 'c decrypted_reader \<times> net \<times> 'x" where
  "read_polls C chk [] s = (Ok [], s)"
| "read_polls C chk (room # rooms) s =
     (case poll_read_decrypted C chk room s of
        (Pending, s) \<Rightarrow> read_polls C chk rooms s
      | (Ready (Err e), s) \<Rightarrow> (Err e, s)
      | (Ready Panic, s) \<Rightarrow> (Panic, s)
      | (Ready (Ok bs), s) \<Rightarrow>
          (case read_polls C chk rooms s of (Ok cs, s) \<Rightarrow> (Ok (bs @ cs), s) | out \<Rightarrow> out))"

lemma read_polls_sound:
  assumes "cipher_laws C kind" "0 < tag_len kind" "\<forall>room \<in> set rooms. 0 < room"
    and "reader_sync C kind chk s plain"
  shows "\<exists>got rest s'. read_polls C chk rooms s = (Ok got, s') \<and> got @ rest = plain
           \<and> (length (fst (snd s)) + length plain \<le> length rooms \<longrightarrow> rest = [])"
  using assms(3,4)
proof (induction rooms arbitrary: s plain)
  case (Cons room rooms)
  obtain out r net x where p: "poll_read_decrypted C chk room s = (out, r, net, x)" by (metis prod_cases4)
  have "0 < room" using Cons.prems by simp
  from poll_read_decrypted_sound [OF assms(1,2) this Cons.prems(2)] p
  have "delivers C kind chk room (length (fst (snd s))) plain (out, r, net, x)" by simp
  then consider (pend) "out = Pending" "reader_sync C kind chk (r, net, x) plain" "length net < length (fst (snd s))"
    | (got) bs rest where "out = Ready (Ok bs)" "plain = bs @ rest" "bs = [] \<longrightarrow> plain = []"
        "reader_sync C kind chk (r, net, x) rest" "length net \<le> length (fst (snd s))"
    by (auto simp: delivers_def)
  then show ?case
  proof cases
    case pend
    from Cons.IH [OF _ pend(2)] Cons.prems(1) obtain got rest s'
      where "read_polls C chk rooms (r, net, x) = (Ok got, s')" "got @ rest = plain"
        "length net + length plain \<le> length rooms \<longrightarrow> rest = []" by auto
    then show ?thesis using p pend(1,3) by (cases s') auto
  next
    case (got bs rest)
    from Cons.IH [OF _ got(4)] Cons.prems(1) obtain cs rest' s'
      where "read_polls C chk rooms (r, net, x) = (Ok cs, s')" "cs @ rest' = rest"
        "length net + length rest \<le> length rooms \<longrightarrow> rest' = []" by auto
    moreover have "rest' = []" if "length (fst (snd s)) + length plain \<le> Suc (length rooms)"
      using that calculation got(2,3,5) by (cases bs) auto
    ultimately show ?thesis using p got(1,2) by (cases s') auto
  qed
qed (metis append_Nil le_zero_eq length_0_conv list.size(3) read_polls.simps(1) add_is_0)

lemma reader_new_sync:
  assumes "length salt = salt_len kind" "0 < salt_len kind" "net_ok net" "fst (chk salt x) = Ok ()"
    and "net_bytes net = salt @ fst (seal_frames C (cipher_new C kind key salt) ms)"
    and "\<forall>m \<in> set ms. length m \<le> MAX_PACKET_SIZE"
  shows "reader_sync C kind chk (reader_new C kind key, net, x) (concat ms)"
  using assms by (auto simp: reader_sync_def reader_new_def)

text \<open>
  C10: An AEAD stream arrives as it was sent. The writer sends any messages through a sink that
  accepts arbitrary parts and blocks at arbitrary points; the bytes then reach the reader cut into
  arbitrary pieces with arbitrary blocking in between, and the reader polls with arbitrary
  positive buffer sizes. If the salt is new to the replay filter, the reader never fails, what it
  returns is a prefix of what was sent, and after as many polls as there are network events and
  message bytes it has returned all of it. Each message is cut at 0x3FFF bytes, which is the count
  the writer reports.
\<close>

theorem aead_stream_roundtrip:
  assumes "cipher_laws C kind" "0 < tag_len kind" "0 < salt_len kind" "length salt = salt_len kind"
    and "send_all C ms (writer_new C kind key salt, \<lparr>sink_events = evs, sunk = []\<rparr>) ns (w, snk)" "ms \<noteq> []"
    and "net_ok net" "net_bytes net = sunk snk"
    and "fst (check_nonce_replay B L now kind salt ctx) = Ok ()"
    and "\<forall>room \<in> set rooms. 0 < room"
  defines "sent \<equiv> concat (map (take MAX_PACKET_SIZE) ms)"
  shows "ns = map (\<lambda>m. min (length m) MAX_PACKET_SIZE) ms
    \<and> (\<exists>got rest s. read_polls C (check_nonce_replay B L now kind) rooms (reader_new C kind key, net, ctx) = (Ok got, s)
         \<and> got @ rest = sent \<and> (length net + length sent \<le> length rooms \<longrightarrow> rest = []))"
proof -
  have st: "wr_state (fst (writer_new C kind key salt, \<lparr>sink_events = evs, sunk = []\<rparr>)) = AssemblePacket"
    by (simp add: writer_new_def)
  note all = send_all_frames [OF assms(5) st]
  then have "sunk snk = salt @ fst (seal_frames C (cipher_new C kind key salt) (map (take MAX_PACKET_SIZE) ms))"
    using assms(6) by (auto simp: writer_total_def writer_new_def)
  then have "reader_sync C kind (check_nonce_replay B L now kind) (reader_new C kind key, net, ctx) sent"
    unfolding sent_def using assms by (intro reader_new_sync) auto
  from read_polls_sound [OF assms(1,2,10) this] all show ?thesis by simp
qed

section \<open>No plaintext before the salt is checked\<close>

text \<open>A reader that has not passed the salt check yet.\<close>

definition unvetted :: "'c decrypted_reader \<Rightarrow> bool" where
  "unvetted r \<longleftrightarrow>
     (case rd_state r of
        WaitSalt key \<Rightarrow> True
      | ReadLength \<Rightarrow> rd_salt r \<noteq> None
      | ReadData len \<Rightarrow> rd_salt r \<noteq> None
      | BufferedData pos \<Rightarrow> False)"

definition stays_unvetted ::
  "(byte list, aead_error) poll \<times> 'c decrypted_reader \<times> net \<times> 'x \<Rightarrow> bool" where
  "stays_unvetted res \<longleftrightarrow>
     (case res of (out, r, net, x) \<Rightarrow>
       (out = Pending \<longrightarrow> unvetted r) \<and> (\<forall>bs. out = Ready (Ok bs) \<longrightarrow> bs = [] \<and> unvetted r))"

lemma round_unvetted:
  assumes "unvetted r" "\<forall>salt x. fst (chk salt x) \<noteq> Ok ()"
  shows "(case reader_round C chk room (r, net, x) of
            Return res \<Rightarrow> stays_unvetted res
          | Again s \<Rightarrow> unvetted (fst s))"
proof (cases "rd_state r")
  case (WaitSalt key)
  then show ?thesis
    by (auto simp: reader_round_def poll_read_salt_def unvetted_def stays_unvetted_def Let_def
          split: prod.splits poll.splits res.splits)
next
  case ReadLength
  then show ?thesis using assms(1)
    by (auto simp: reader_round_def poll_read_length_def unvetted_def stays_unvetted_def Let_def
          split: prod.splits poll.splits res.splits option.splits)
next
  case (ReadData len)
  then obtain salt where "rd_salt r = Some salt" using assms(1) by (auto simp: unvetted_def)
  moreover obtain out x1 where "chk salt x = (out, x1)" "out \<noteq> Ok ()"
    using assms(2) by (metis fst_conv prod.exhaust)
  ultimately show ?thesis using ReadData
    by (auto simp: reader_round_def poll_read_data_def unvetted_def stays_unvetted_def Let_def
          split: prod.splits poll.splits res.splits option.splits)
next
  case (BufferedData pos)
  then show ?thesis using assms(1) by (simp add: unvetted_def)
qed

lemma poll_unvetted:
  assumes "unvetted (fst s)" "\<forall>salt x. fst (chk salt x) \<noteq> Ok ()"
  shows "stays_unvetted (poll_read_decrypted C chk room s)"
  using assms
proof (induction C chk room s rule: poll_read_decrypted.induct)
  case (1 C chk room s)
  obtain r net x where s: "s = (r, net, x)" by (cases s)
  from round_unvetted [where C = C and room = room and net = net and x = x, of r chk] "1.prems" "1.IH"
  show ?case by (subst poll_read_decrypted.simps) (auto simp: s split: round.splits)
qed

lemma read_polls_unvetted:
  assumes "unvetted (fst s)" "\<forall>salt x. fst (chk salt x) \<noteq> Ok ()"
    and "read_polls C chk rooms s = (Ok got, s')"
  shows "got = []"
  using assms(1,3)
proof (induction rooms arbitrary: s got)
  case (Cons room rooms)
  from poll_unvetted [where C = C and room = room, OF Cons.prems(1) assms(2)] Cons
  show ?case
    by (auto simp: stays_unvetted_def split: prod.splits poll.splits res.splits)
qed simp


section \<open>Instances\<close>

text \<open>A cipher that satisfies the laws: the tag is the nonce counter.\<close>

definition counter_cipher :: "nat cipher_ops" where
  "counter_cipher = \<lparr>cipher_new = (\<lambda>kind key salt. 0),
     encrypt_packet = (\<lambda>c m. (m @ [word_of_nat c, 7], Suc c)),
     decrypt_packet = (\<lambda>c m. (if drop (length m - 2) m = [word_of_nat c, 7]
                              then Some (take (length m - 2) m) else None, Suc c))\<rparr>"

definition counter_kind :: cipher_kind where
  "counter_kind = \<lparr>category = CatAead, key_len = 1, salt_len = 2, tag_len = 2, iv_len = 0,
     nonce_len = 0, support_eih = False\<rparr>"

lemma counter_cipher_laws: "cipher_laws counter_cipher counter_kind"
  by (simp add: cipher_laws_def counter_cipher_def counter_kind_def)

lemma counter_send:
  "send_all counter_cipher [[1, 2, 3]] (writer_new counter_cipher counter_kind [5] [8, 9],
       \<lparr>sink_events = [Accept 4, SinkBlock, Accept 100], sunk = []\<rparr>) [3]
     (\<lparr>wr_cipher = 2, wr_buffer = [], wr_state = AssemblePacket, wr_salt = [8, 9]\<rparr>,
      \<lparr>sink_events = [], sunk = [8, 9, 0, 3, 0, 7, 1, 2, 3, 1, 7]\<rparr>)"
proof (rule send_all.more [OF send_one.blocked [OF _ send_one.sent] send_all.none])
  show "poll_write_encrypted counter_cipher [1, 2, 3] (writer_new counter_cipher counter_kind [5] [8, 9],
       \<lparr>sink_events = [Accept 4, SinkBlock, Accept 100], sunk = []\<rparr>)
    = (Pending, \<lparr>wr_cipher = 2, wr_buffer = [8, 9, 0, 3, 0, 7, 1, 2, 3, 1, 7], wr_state = Writing 4, wr_salt = [8, 9]\<rparr>,
       \<lparr>sink_events = [Accept 100], sunk = [8, 9, 0, 3]\<rparr>)"
    by code_simp
  show "poll_write_encrypted counter_cipher [1, 2, 3]
      (\<lparr>wr_cipher = 2, wr_buffer = [8, 9, 0, 3, 0, 7, 1, 2, 3, 1, 7], wr_state = Writing 4, wr_salt = [8, 9]\<rparr>,
       \<lparr>sink_events = [Accept 100], sunk = [8, 9, 0, 3]\<rparr>)
    = (Ready (Ok 3), \<lparr>wr_cipher = 2, wr_buffer = [], wr_state = AssemblePacket, wr_salt = [8, 9]\<rparr>,
       \<lparr>sink_events = [], sunk = [8, 9, 0, 3, 0, 7, 1, 2, 3, 1, 7]\<rparr>)"
    by code_simp
qed

theorem aead_stream_roundtrip_witness:
  "\<exists>s. read_polls counter_cipher (check_nonce_replay exact_bloom (exact_lru 60000) 0 counter_kind) (replicate 7 2)
     (reader_new counter_cipher counter_kind [5],
      [Data [8], WouldBlock, Data [9, 0, 3, 0, 7], Data [1, 2, 3, 1, 7]], context_new exact_bloom exact_lru ServerType)
     = (Ok [1, 2, 3], s)"
proof -
  let ?net = "[Data [8], WouldBlock, Data [9, 0, 3, 0, 7], Data [1, 2, 3, 1, 7]]"
  have "fst (check_nonce_replay exact_bloom (exact_lru 60000) 0 counter_kind [8, 9]
      (context_new exact_bloom exact_lru ServerType)) = Ok ()"
    by (simp add: check_nonce_replay_def context_new_def counter_kind_def is_aead_2022_def)
  from aead_stream_roundtrip [OF counter_cipher_laws _ _ _ counter_send _ _ _ this, of ?net "replicate 7 2"]
  show ?thesis by (auto simp: counter_kind_def)
qed


end
