(* ===== verification/Server_Users.thy ===== *)
theory Server_Users
  imports Replay "HOL-Library.AList"
begin

text \<open>
  The users of an AEAD-2022 server and the identity headers that select them: \<open>ServerUser\<close> and
  \<open>ServerUserManager\<close> of \<open>shadowsocks/src/config.rs\<close>, and the identity blocks of
  \<open>tcprelay/aead_2022.rs\<close>. BLAKE3 and AES are external and enter as a record of operations.
\<close>

record hash_ops =
  blake3_hash :: "byte list \<Rightarrow> byte list"
  blake3_derive_key :: "byte list \<Rightarrow> byte list"
  aes_encrypt_block :: "byte list \<Rightarrow> byte list \<Rightarrow> byte list"
  aes_decrypt_block :: "byte list \<Rightarrow> byte list \<Rightarrow> byte list"

text \<open>Decryption of a block inverts encryption under the same key; hashes have at least 16 bytes and
  blocks exactly 16.\<close>

definition hash_laws :: "hash_ops \<Rightarrow> bool" where
  "hash_laws H \<longleftrightarrow>
     (\<forall>k b. length b = 16 \<longrightarrow> aes_decrypt_block H k (aes_encrypt_block H k b) = b
        \<and> length (aes_encrypt_block H k b) = 16)
     \<and> (\<forall>k. 16 \<le> length (blake3_hash H k))"

record server_user =
  user_name :: rstring
  user_key :: "byte list"
  identity_hash :: "byte list"

definition user_new :: "hash_ops \<Rightarrow> rstring \<Rightarrow> byte list \<Rightarrow> server_user" where
  "user_new H name key =
     \<lparr>user_name = name, user_key = key, identity_hash = slice 0 16 (blake3_hash H key)\<rparr>"

text \<open>The \<open>HashMap\<close> of users, keyed by the identity hash.\<close>

type_synonym user_manager = "(byte list \<times> server_user) list"

definition manager_new :: user_manager where
  "manager_new = []"

definition add_user :: "server_user \<Rightarrow> user_manager \<Rightarrow> user_manager" where
  "add_user u m = AList.update (identity_hash u) u m"

definition get_user_by_hash :: "user_manager \<Rightarrow> byte list \<Rightarrow> server_user option" where
  "get_user_by_hash m h = map_of m h"

definition user_count :: "user_manager \<Rightarrow> nat" where
  "user_count m = length m"

text \<open>The AES key of an identity block is the leading part of the derived sub-key (16 or 32 bytes,
  the key length of the method).\<close>

definition make_eih :: "hash_ops \<Rightarrow> cipher_kind \<Rightarrow> byte list \<Rightarrow> byte list \<Rightarrow> byte list" where
  "make_eih H kind sub_key ipsk =
     aes_encrypt_block H (take (key_len kind) sub_key) (slice 0 16 (blake3_hash H ipsk))"

definition eih_sub_key :: "hash_ops \<Rightarrow> byte list \<Rightarrow> byte list \<Rightarrow> byte list" where
  "eih_sub_key H ipsk salt = blake3_derive_key H (ipsk @ salt)"

text \<open>The chain of identity blocks: each key but the first is announced under the sub-key of the one
  before it, and the final key under the sub-key of the last.\<close>

fun eih_chain :: "hash_ops \<Rightarrow> cipher_kind \<Rightarrow> byte list \<Rightarrow> byte list option \<Rightarrow> byte list list \<Rightarrow> byte list \<Rightarrow> byte list" where
  "eih_chain H kind salt sub_key [] key =
     (case sub_key of None \<Rightarrow> [] | Some sk \<Rightarrow> make_eih H kind sk key)"
| "eih_chain H kind salt sub_key (ipsk # ipsks) key =
     (case sub_key of None \<Rightarrow> [] | Some sk \<Rightarrow> make_eih H kind sk ipsk)
     @ eih_chain H kind salt (Some (eih_sub_key H ipsk salt)) ipsks key"

definition decrypt_eih :: "hash_ops \<Rightarrow> cipher_kind \<Rightarrow> byte list \<Rightarrow> byte list \<Rightarrow> byte list \<Rightarrow> byte list" where
  "decrypt_eih H kind key salt eih = aes_decrypt_block H (take (key_len kind) (eih_sub_key H key salt)) eih"

section \<open>Lemmas\<close>

lemma distinct_add_user: "distinct (map fst m) \<Longrightarrow> distinct (map fst (add_user u m))"
  by (simp add: add_user_def distinct_update)

lemma get_add_user [simp]:
  "get_user_by_hash (add_user u m) h = (if h = identity_hash u then Some u else get_user_by_hash m h)"
  by (simp add: get_user_by_hash_def add_user_def update_conv')

lemma make_eih_length:
  "hash_laws H \<Longrightarrow> length (make_eih H kind sk key) = 16"
  by (simp add: make_eih_def hash_laws_def min_def)

lemma eih_chain_length:
  assumes "hash_laws H"
  shows "length (eih_chain H kind salt sub ipsks key) = 16 * (length ipsks + (if sub = None then 0 else 1))"
  by (induction ipsks arbitrary: sub) (auto simp: make_eih_length [OF assms] split: option.splits)

text \<open>The server that holds the first identity key reads the hash of the second key.\<close>

lemma decrypt_make_eih:
  assumes "hash_laws H"
  shows "decrypt_eih H kind key salt (make_eih H kind (eih_sub_key H key salt) ipsk) = slice 0 16 (blake3_hash H ipsk)"
  using assms by (simp add: decrypt_eih_def make_eih_def hash_laws_def)

lemma eih_selects_user:
  assumes "hash_laws H"
  shows "decrypt_eih H kind ipsk salt (eih_chain H kind salt None [ipsk] key) = identity_hash (user_new H name key)"
  using decrypt_make_eih [OF assms] by (simp add: user_new_def)

end
