(* ===== verification/Tcp_Aead2022.thy ===== *)
theory Tcp_Aead2022
  imports Tcp_Aead Server_Users
begin

text \<open>
  The AEAD-2022 stream of \<open>shadowsocks/src/relay/tcprelay/aead_2022.rs\<close>: a header chunk with type,
  timestamp, the salt being answered and the length of the first payload, then frames as in the
  older AEAD stream but with payloads up to 0xFFFF bytes. The header must arrive in one read. The
  clock is an argument, in seconds; BLAKE3, AES and the cipher are external.
\<close>

section \<open>Types\<close>

abbreviation "MAX_PACKET_SIZE_2022 \<equiv> 0xFFFF :: nat"

datatype stream_type = ClientStream | ServerStream

datatype aead2022_error = Aead2022Io io_error
  | Header2022TooShort nat nat
  | MissingExtendedIdentityHeader
  | InvalidClientUser "byte list"
  | DecryptHeaderChunkError
  | Decrypt2022DataError
  | Decrypt2022LengthError
  | InvalidStreamType byte byte
  | InvalidTimestamp u64 u64

datatype decrypt_read_state_2022 = ReadHeader "byte list" | ReadLength2 | ReadData2 nat | BufferedData2 nat

record 'c decrypted_reader_2022 =
  r2_stream_ty :: stream_type
  r2_state :: decrypt_read_state_2022
  r2_cipher :: "'c option"
  r2_buffer :: "byte list"
  r2_method :: cipher_kind
  r2_salt :: "byte list option"
  r2_request_salt :: "byte list option"
  data_chunk_count :: u64
  r2_user_manager :: "user_manager option"
  r2_user_key :: "byte list option"
  r2_handshaked :: bool

definition reader2022_with_user_manager ::
  "'c cipher_ops \<Rightarrow> stream_type \<Rightarrow> cipher_kind \<Rightarrow> byte list \<Rightarrow> user_manager option \<Rightarrow> 'c decrypted_reader_2022" where
  "reader2022_with_user_manager C ty kind key um =
     \<lparr>r2_stream_ty = ty,
      r2_state = (if 0 < salt_len kind then ReadHeader key else ReadHeader []),
      r2_cipher = (if 0 < salt_len kind then None else Some (cipher_new C kind key [])),
      r2_buffer = [], r2_method = kind, r2_salt = None, r2_request_salt = None, data_chunk_count = 0,
      r2_user_manager = um, r2_user_key = None, r2_handshaked = False\<rparr>"

definition request_salt :: "'c decrypted_reader_2022 \<Rightarrow> byte list option" where
  "request_salt r = (case r2_request_salt r of Some n \<Rightarrow> if n \<noteq> [] then Some n else None | None \<Rightarrow> None)"

definition abs_diff :: "u64 \<Rightarrow> u64 \<Rightarrow> u64" where
  "abs_diff a b = (if a < b then b - a else a - b)"

text \<open>The check that a timestamp is close enough to the clock.\<close>

definition timestamp_ok :: "u64 \<Rightarrow> u64 \<Rightarrow> bool" where
  "timestamp_ok now ts \<longleftrightarrow> \<not> 30 < abs_diff now ts"

section \<open>The reader\<close>

definition header_request_salt_len :: "'c decrypted_reader_2022 \<Rightarrow> nat" where
  "header_request_salt_len r =
     (case r2_stream_ty r of ClientStream \<Rightarrow> salt_len (r2_method r) | ServerStream \<Rightarrow> 0)"

definition require_eih :: "'c decrypted_reader_2022 \<Rightarrow> bool" where
  "require_eih r \<longleftrightarrow> r2_stream_ty r = ServerStream \<and> support_eih (r2_method r) \<and> r2_user_manager r \<noteq> None"

definition header_len :: "'c decrypted_reader_2022 \<Rightarrow> nat" where
  "header_len r =
     salt_len (r2_method r) + (if require_eih r then 16 else 0) + 1 + 8 + header_request_salt_len r + 2
     + tag_len (r2_method r)"

text \<open>The cipher for the header: keyed by the user that the identity header names, or by the server's
  own key. The result also says which part of the header is left.\<close>

definition header_cipher ::
  "'c cipher_ops \<Rightarrow> hash_ops \<Rightarrow> byte list \<Rightarrow> byte list \<Rightarrow> byte list \<Rightarrow> 'c decrypted_reader_2022
     \<Rightarrow> ('c \<times> byte list, aead2022_error) res \<times> 'c decrypted_reader_2022" where
  "header_cipher C H key salt header_chunk r =
     (if require_eih r then
        (case r2_user_manager r of
           None \<Rightarrow> (Panic, r)
         | Some um \<Rightarrow>
             if length header_chunk < 16 then (Err MissingExtendedIdentityHeader, r)
             else
               let eih = take 16 header_chunk; rest = drop 16 header_chunk;
                   user_hash = decrypt_eih H (r2_method r) key salt eih
               in (case get_user_by_hash um user_hash of
                     None \<Rightarrow> (Err (InvalidClientUser user_hash), r)
                   | Some user \<Rightarrow>
                       (Ok (cipher_new C (r2_method r) (user_key user) salt, rest),
                        r\<lparr>r2_user_key := Some (user_key user)\<rparr>)))
      else (Ok (cipher_new C (r2_method r) key salt, header_chunk), r))"

text \<open>The header after decryption: type, timestamp, request salt, length; then the salt check.\<close>

definition check_header ::
  "(byte list \<Rightarrow> 'x \<Rightarrow> (unit, io_error) res \<times> 'x) \<Rightarrow> u64 \<Rightarrow> byte list \<Rightarrow> byte list \<Rightarrow> 'c \<Rightarrow> 'c decrypted_reader_2022 \<Rightarrow> 'x
     \<Rightarrow> (nat, aead2022_error) res \<times> 'c decrypted_reader_2022 \<times> 'x" where
  "check_header chk now salt p c r x =
     (let ty = p ! 0;
          expected = (case r2_stream_ty r of ClientStream \<Rightarrow> 1 | ServerStream \<Rightarrow> 0);
          ts = of_be (slice 1 9 p);
          n = header_request_salt_len r
      in if ty \<noteq> expected then (Err (InvalidStreamType expected ty), r, x)
         else if \<not> timestamp_ok now ts then (Err (InvalidTimestamp ts now), r, x)
         else
           let r = (if 0 < n then r\<lparr>r2_request_salt := Some (slice 9 (9 + n) p)\<rparr> else r);
               len = unat (of_be (slice (9 + n) (11 + n) p) :: u16);
               (out, x) = (if r2_stream_ty r = ServerStream then chk salt x else (Ok (), x))
           in (case out of
                 Err e \<Rightarrow> (Err (Aead2022Io e), r, x)
               | Panic \<Rightarrow> (Panic, r, x)
               | Ok u \<Rightarrow> (Ok len, r\<lparr>r2_salt := Some salt, r2_cipher := Some c\<rparr>, x)))"

definition process_header ::
  "'c cipher_ops \<Rightarrow> hash_ops \<Rightarrow> (byte list \<Rightarrow> 'x \<Rightarrow> (unit, io_error) res \<times> 'x) \<Rightarrow> u64 \<Rightarrow> byte list \<Rightarrow> byte list
     \<Rightarrow> 'c decrypted_reader_2022 \<Rightarrow> 'x
     \<Rightarrow> (nat, aead2022_error) res \<times> 'c decrypted_reader_2022 \<times> 'x" where
  "process_header C H chk now key header_buf r x =
     (let salt = take (salt_len (r2_method r)) header_buf;
          header_chunk = drop (salt_len (r2_method r)) header_buf
      in (case header_cipher C H key salt header_chunk r of
            (Err e, r) \<Rightarrow> (Err e, r, x)
          | (Panic, r) \<Rightarrow> (Panic, r, x)
          | (Ok (c, header_chunk), r) \<Rightarrow>
              (case decrypt_packet C c header_chunk of
                 (None, c) \<Rightarrow> (Err DecryptHeaderChunkError, r, x)
               | (Some p, c) \<Rightarrow> check_header chk now salt p c r x)))"

text \<open>The header is read into scratch space of the buffer with a single \<open>poll_read\<close>; the buffer is
  cleared before it is used for frames, so the scratch content is not part of the model.\<close>

definition poll_read_header ::
  "'c cipher_ops \<Rightarrow> hash_ops \<Rightarrow> (byte list \<Rightarrow> 'x \<Rightarrow> (unit, io_error) res \<times> 'x) \<Rightarrow> u64 \<Rightarrow> byte list
     \<Rightarrow> 'c decrypted_reader_2022 \<Rightarrow> net \<Rightarrow> 'x
     \<Rightarrow> (nat option, aead2022_error) poll \<times> 'c decrypted_reader_2022 \<times> net \<times> 'x" where
  "poll_read_header C H chk now key r net x =
     (let n = header_len r in
      case poll_read n net of
        (Pending, net) \<Rightarrow> (Pending, r, net, x)
      | (Ready (Err e), net) \<Rightarrow> (Ready (Err (Aead2022Io e)), r, net, x)
      | (Ready Panic, net) \<Rightarrow> (Ready Panic, r, net, x)
      | (Ready (Ok header_buf), net) \<Rightarrow>
          if header_buf = [] then (Ready (Ok None), r, net, x)
          else if length header_buf \<noteq> n then (Ready (Err (Header2022TooShort n (length header_buf))), r, net, x)
          else (case process_header C H chk now key header_buf r x of
                  (Ok len, r, x) \<Rightarrow> (Ready (Ok (Some len)), r, net, x)
                | (Err e, r, x) \<Rightarrow> (Ready (Err e), r, net, x)
                | (Panic, r, x) \<Rightarrow> (Ready Panic, r, net, x)))"

definition decrypt_length_2022 :: "'c cipher_ops \<Rightarrow> 'c \<Rightarrow> byte list \<Rightarrow> (nat, aead2022_error) res \<times> 'c" where
  "decrypt_length_2022 C c m =
     (case decrypt_packet C c m of
        (None, c) \<Rightarrow> (Err Decrypt2022LengthError, c)
      | (Some p, c) \<Rightarrow> (Ok (unat (of_be (take 2 p) :: u16)), c))"

definition poll_read_length_2022 ::
  "'c cipher_ops \<Rightarrow> 'c decrypted_reader_2022 \<Rightarrow> net
     \<Rightarrow> (nat option, aead2022_error) poll \<times> 'c decrypted_reader_2022 \<times> net" where
  "poll_read_length_2022 C r net =
     (let n = 2 + tag_len (r2_method r) in
      case poll_read_exact n (r2_buffer r) net of
        (Pending, buffer, net) \<Rightarrow> (Pending, r\<lparr>r2_buffer := buffer\<rparr>, net)
      | (Ready (Err e), buffer, net) \<Rightarrow> (Ready (Err (Aead2022Io e)), r\<lparr>r2_buffer := buffer\<rparr>, net)
      | (Ready Panic, buffer, net) \<Rightarrow> (Ready Panic, r\<lparr>r2_buffer := buffer\<rparr>, net)
      | (Ready (Ok k), buffer, net) \<Rightarrow>
          if k = 0 then (Ready (Ok None), r\<lparr>r2_buffer := buffer\<rparr>, net)
          else (case r2_cipher r of
                  None \<Rightarrow> (Ready Panic, r\<lparr>r2_buffer := buffer\<rparr>, net)
                | Some c \<Rightarrow>
                    (let (out, c) = decrypt_length_2022 C c (take n buffer);
                         r = r\<lparr>r2_buffer := buffer, r2_cipher := Some c\<rparr>
                     in (case out of
                           Ok len \<Rightarrow> (Ready (Ok (Some len)), r, net)
                         | Err e \<Rightarrow> (Ready (Err e), r, net)
                         | Panic \<Rightarrow> (Ready Panic, r, net)))))"

definition poll_read_data_2022 ::
  "'c cipher_ops \<Rightarrow> nat \<Rightarrow> 'c decrypted_reader_2022 \<Rightarrow> net
     \<Rightarrow> (unit, aead2022_error) poll \<times> 'c decrypted_reader_2022 \<times> net" where
  "poll_read_data_2022 C len r net =
     (let n = len + tag_len (r2_method r) in
      case poll_read_exact n (r2_buffer r) net of
        (Pending, buffer, net) \<Rightarrow> (Pending, r\<lparr>r2_buffer := buffer\<rparr>, net)
      | (Ready (Err e), buffer, net) \<Rightarrow> (Ready (Err (Aead2022Io e)), r\<lparr>r2_buffer := buffer\<rparr>, net)
      | (Ready Panic, buffer, net) \<Rightarrow> (Ready Panic, r\<lparr>r2_buffer := buffer\<rparr>, net)
      | (Ready (Ok k), buffer, net) \<Rightarrow>
          if k = 0 then (Ready (Err (Aead2022Io io_eof)), r\<lparr>r2_buffer := buffer\<rparr>, net)
          else (case r2_cipher r of
                  None \<Rightarrow> (Ready Panic, r\<lparr>r2_buffer := buffer\<rparr>, net)
                | Some c \<Rightarrow>
                    (case decrypt_packet C c (take n buffer) of
                       (None, c) \<Rightarrow> (Ready (Err Decrypt2022DataError),
                                     r\<lparr>r2_buffer := buffer, r2_cipher := Some c\<rparr>, net)
                     | (Some p, c) \<Rightarrow>
                         (Ready (Ok ()), r\<lparr>r2_buffer := take len p, r2_cipher := Some c\<rparr>, net))))"

definition reader_round_2022 ::
  "'c cipher_ops \<Rightarrow> hash_ops \<Rightarrow> (byte list \<Rightarrow> 'x \<Rightarrow> (unit, io_error) res \<times> 'x) \<Rightarrow> u64 \<Rightarrow> nat
     \<Rightarrow> 'c decrypted_reader_2022 \<times> net \<times> 'x
     \<Rightarrow> ('c decrypted_reader_2022 \<times> net \<times> 'x,
         (byte list, aead2022_error) poll \<times> 'c decrypted_reader_2022 \<times> net \<times> 'x) round" where
  "reader_round_2022 C H chk now room s =
     (case s of (r, net, x) \<Rightarrow>
      case r2_state r of
        ReadHeader key \<Rightarrow>
          (case poll_read_header C H chk now key r net x of
             (Pending, r, net, x) \<Rightarrow> Return (Pending, r, net, x)
           | (Ready (Err e), r, net, x) \<Rightarrow> Return (Ready (Err e), r, net, x)
           | (Ready Panic, r, net, x) \<Rightarrow> Return (Ready Panic, r, net, x)
           | (Ready (Ok None), r, net, x) \<Rightarrow> Return (Ready (Ok []), r, net, x)
           | (Ready (Ok (Some len)), r, net, x) \<Rightarrow>
               Again (r\<lparr>r2_buffer := [], r2_state := ReadData2 len, r2_handshaked := True\<rparr>, net, x))
      | ReadLength2 \<Rightarrow>
          (case poll_read_length_2022 C r net of
             (Pending, r, net) \<Rightarrow> Return (Pending, r, net, x)
           | (Ready (Err e), r, net) \<Rightarrow> Return (Ready (Err e), r, net, x)
           | (Ready Panic, r, net) \<Rightarrow> Return (Ready Panic, r, net, x)
           | (Ready (Ok None), r, net) \<Rightarrow> Return (Ready (Ok []), r, net, x)
           | (Ready (Ok (Some len)), r, net) \<Rightarrow>
               Again (r\<lparr>r2_buffer := [], r2_state := ReadData2 len\<rparr>, net, x))
      | ReadData2 len \<Rightarrow>
          (case poll_read_data_2022 C len r net of
             (Pending, r, net) \<Rightarrow> Return (Pending, r, net, x)
           | (Ready (Err e), r, net) \<Rightarrow> Return (Ready (Err e), r, net, x)
           | (Ready Panic, r, net) \<Rightarrow> Return (Ready Panic, r, net, x)
           | (Ready (Ok u), r, net) \<Rightarrow>
               Again (r\<lparr>r2_state := BufferedData2 0, data_chunk_count := data_chunk_count r + 1\<rparr>, net, x))
      | BufferedData2 pos \<Rightarrow>
          if pos < length (r2_buffer r) then
            let consumed = min (length (r2_buffer r) - pos) room
            in Return (Ready (Ok (slice pos (pos + consumed) (r2_buffer r))),
                       r\<lparr>r2_state := BufferedData2 (pos + consumed)\<rparr>, net, x)
          else Again (r\<lparr>r2_buffer := [], r2_state := ReadLength2\<rparr>, net, x))"

definition current_data_chunk_remaining :: "'c decrypted_reader_2022 \<Rightarrow> u64 \<times> nat" where
  "current_data_chunk_remaining r =
     (case r2_state r of
        BufferedData2 pos \<Rightarrow> (data_chunk_count r, length (r2_buffer r) - pos)
      | _ \<Rightarrow> (data_chunk_count r, 0))"

definition reader_work_2022 :: "'c decrypted_reader_2022 \<times> net \<times> 'x \<Rightarrow> nat" where
  "reader_work_2022 s =
     (case s of (r, net, x) \<Rightarrow>
      case r2_state r of
        ReadHeader key \<Rightarrow> 2 * length (net_bytes net)
      | BufferedData2 pos \<Rightarrow> 2 * length (net_bytes net) + 1
      | _ \<Rightarrow> 2 * (length (net_bytes net) + length (r2_buffer r)))"

lemma poll_read_header_work:
  assumes "poll_read_header C H chk now key r net x = (Ready (Ok (Some len)), r', net', x')"
  shows "length (net_bytes net') < length (net_bytes net)"
proof -
  obtain out net1 where p: "poll_read (header_len r) net = (out, net1)" by fastforce
  obtain bs where "out = Ready (Ok bs)" "bs \<noteq> []" "net1 = net'"
    using assms p
    by (auto simp: poll_read_header_def Let_def header_len_def require_eih_def header_request_salt_len_def
          split: poll.splits res.splits if_splits prod.splits option.splits)
  then show ?thesis using poll_read_bytes [of "header_len r" net bs net'] p by simp
qed

lemma poll_read_length_2022_work:
  assumes "poll_read_length_2022 C r net = (Ready (Ok (Some len)), r', net')"
  shows "length (net_bytes net') < length (net_bytes net) + length (r2_buffer r)"
proof -
  obtain out buffer net1 where p: "poll_read_exact (2 + tag_len (r2_method r)) (r2_buffer r) net = (out, buffer, net1)"
    by (metis prod_cases3)
  obtain k where "out = Ready (Ok k)" "k \<noteq> 0" "net1 = net'"
    using assms p
    by (auto simp: poll_read_length_2022_def Let_def split: poll.splits res.splits if_splits option.splits prod.splits)
  then show ?thesis using poll_read_exact_work [of _ _ net k buffer net'] p by simp
qed

lemma poll_read_data_2022_work:
  assumes "poll_read_data_2022 C len r net = (Ready (Ok u), r', net')"
  shows "length (net_bytes net') < length (net_bytes net) + length (r2_buffer r)"
proof -
  obtain out buffer net1 where p: "poll_read_exact (len + tag_len (r2_method r)) (r2_buffer r) net = (out, buffer, net1)"
    by (metis prod_cases3)
  obtain k where "out = Ready (Ok k)" "k \<noteq> 0" "net1 = net'"
    using assms p
    by (auto simp: poll_read_data_2022_def Let_def split: poll.splits res.splits if_splits option.splits prod.splits)
  then show ?thesis using poll_read_exact_work [of _ _ net k buffer net'] p by simp
qed

lemma reader_round_2022_decreases:
  assumes "reader_round_2022 C H chk now room s = Again s'"
  shows "reader_work_2022 s' < reader_work_2022 s"
proof -
  obtain r net x where s: "s = (r, net, x)" by (cases s)
  show ?thesis
  proof (cases "r2_state r")
    case (ReadHeader key)
    then show ?thesis using assms
      by (auto simp: s reader_round_2022_def reader_work_2022_def dest: poll_read_header_work
            split: prod.splits poll.splits res.splits option.splits)
  next
    case ReadLength2
    then show ?thesis using assms
      by (auto simp: s reader_round_2022_def reader_work_2022_def dest: poll_read_length_2022_work
            split: prod.splits poll.splits res.splits option.splits)
  next
    case (ReadData2 len)
    then show ?thesis using assms
      by (auto simp: s reader_round_2022_def reader_work_2022_def dest!: poll_read_data_2022_work
            split: prod.splits poll.splits res.splits)
  next
    case (BufferedData2 pos)
    then show ?thesis using assms
      by (auto simp: s reader_round_2022_def reader_work_2022_def Let_def split: if_splits)
  qed
qed

function poll_read_decrypted_2022 ::
  "'c cipher_ops \<Rightarrow> hash_ops \<Rightarrow> (byte list \<Rightarrow> 'x \<Rightarrow> (unit, io_error) res \<times> 'x) \<Rightarrow> u64 \<Rightarrow> nat
     \<Rightarrow> 'c decrypted_reader_2022 \<times> net \<times> 'x
     \<Rightarrow> (byte list, aead2022_error) poll \<times> 'c decrypted_reader_2022 \<times> net \<times> 'x" where
  "poll_read_decrypted_2022 C H chk now room s =
     (case reader_round_2022 C H chk now room s of
        Return out \<Rightarrow> out
      | Again s \<Rightarrow> poll_read_decrypted_2022 C H chk now room s)"
  by pat_completeness auto
termination
  by (relation "measure (\<lambda>(C, H, chk, now, room, s). reader_work_2022 s)")
     (auto simp: reader_round_2022_decreases)

declare poll_read_decrypted_2022.simps [simp del]

section \<open>The writer\<close>

datatype encrypt_write_state_2022 = AssembleHeader | AssemblePacket2 | Writing2 nat

record 'c encrypted_writer_2022 =
  w2_stream_ty :: stream_type
  w2_cipher :: 'c
  w2_method :: cipher_kind
  w2_buffer :: "byte list"
  w2_state :: encrypt_write_state_2022
  w2_salt :: "byte list"
  w2_request_salt :: "byte list option"

definition writer2022_with_identity ::
  "'c cipher_ops \<Rightarrow> hash_ops \<Rightarrow> stream_type \<Rightarrow> cipher_kind \<Rightarrow> byte list \<Rightarrow> byte list \<Rightarrow> byte list list
     \<Rightarrow> 'c encrypted_writer_2022" where
  "writer2022_with_identity C H ty kind key nonce identity_keys =
     \<lparr>w2_stream_ty = ty, w2_cipher = cipher_new C kind key nonce, w2_method = kind,
      w2_buffer = nonce @ (if ty = ClientStream \<and> support_eih kind
                           then eih_chain H kind nonce None identity_keys key else []),
      w2_state = AssembleHeader, w2_salt = nonce, w2_request_salt = None\<rparr>"

definition set_request_salt :: "byte list \<Rightarrow> 'c encrypted_writer_2022 \<Rightarrow> 'c encrypted_writer_2022" where
  "set_request_salt salt w = w\<lparr>w2_request_salt := Some salt\<rparr>"

definition reset_cipher_with_key ::
  "'c cipher_ops \<Rightarrow> byte list \<Rightarrow> 'c encrypted_writer_2022 \<Rightarrow> 'c encrypted_writer_2022" where
  "reset_cipher_with_key C key w = w\<lparr>w2_cipher := cipher_new C (w2_method w) key (w2_salt w)\<rparr>"

definition header_plain :: "stream_type \<Rightarrow> u64 \<Rightarrow> byte list option \<Rightarrow> nat \<Rightarrow> byte list" where
  "header_plain ty now rsalt n =
     (case ty of ClientStream \<Rightarrow> 0 | ServerStream \<Rightarrow> 1) # be_of 8 now
     @ (case rsalt of None \<Rightarrow> [] | Some salt \<Rightarrow> salt) @ be_of 2 (word_of_nat n :: u16)"

definition assemble_header ::
  "'c cipher_ops \<Rightarrow> u64 \<Rightarrow> byte list \<Rightarrow> 'c encrypted_writer_2022 \<Rightarrow> 'c encrypted_writer_2022" where
  "assemble_header C now buf w =
     (let (header_ct, c) = encrypt_packet C (w2_cipher w)
            (header_plain (w2_stream_ty w) now (w2_request_salt w) (length buf));
          (data_ct, c) = encrypt_packet C c buf
      in w\<lparr>w2_cipher := c, w2_buffer := w2_buffer w @ header_ct @ data_ct, w2_state := Writing2 0\<rparr>)"

definition assemble_packet_2022 ::
  "'c cipher_ops \<Rightarrow> byte list \<Rightarrow> 'c encrypted_writer_2022 \<Rightarrow> 'c encrypted_writer_2022" where
  "assemble_packet_2022 C buf w =
     (let (len_ct, c) = encrypt_packet C (w2_cipher w) (be_of 2 (word_of_nat (length buf) :: u16));
          (data_ct, c) = encrypt_packet C c buf
      in w\<lparr>w2_cipher := c, w2_buffer := w2_buffer w @ len_ct @ data_ct, w2_state := Writing2 0\<rparr>)"

definition poll_write_encrypted_2022 ::
  "'c cipher_ops \<Rightarrow> u64 \<Rightarrow> byte list \<Rightarrow> 'c encrypted_writer_2022 \<times> sink
     \<Rightarrow> (nat, io_error) poll \<times> 'c encrypted_writer_2022 \<times> sink" where
  "poll_write_encrypted_2022 C now buf s =
     (case s of (w, snk) \<Rightarrow>
      let buf = (if MAX_PACKET_SIZE_2022 < length buf then take MAX_PACKET_SIZE_2022 buf else buf);
          w = (case w2_state w of
                 AssembleHeader \<Rightarrow> assemble_header C now buf w
               | AssemblePacket2 \<Rightarrow> assemble_packet_2022 C buf w
               | Writing2 pos \<Rightarrow> w);
          pos = (case w2_state w of Writing2 pos \<Rightarrow> pos | _ \<Rightarrow> 0)
      in (case write_loop (w2_buffer w) pos snk of
            (Pending, pos, snk) \<Rightarrow> (Pending, w\<lparr>w2_state := Writing2 pos\<rparr>, snk)
          | (Ready (Err e), pos, snk) \<Rightarrow> (Ready (Err e), w\<lparr>w2_state := Writing2 pos\<rparr>, snk)
          | (Ready Panic, pos, snk) \<Rightarrow> (Ready Panic, w\<lparr>w2_state := Writing2 pos\<rparr>, snk)
          | (Ready (Ok u), pos, snk) \<Rightarrow>
              (Ready (Ok (length buf)), w\<lparr>w2_state := AssemblePacket2, w2_buffer := []\<rparr>, snk)))"

section \<open>The writer puts the header and whole frames on the wire\<close>

text \<open>The bytes of one message in the given writer state.\<close>

definition seal_next :: "'c cipher_ops \<Rightarrow> u64 \<Rightarrow> 'c encrypted_writer_2022 \<Rightarrow> byte list \<Rightarrow> byte list \<times> 'c" where
  "seal_next C now w m =
     (let (head_ct, c) = encrypt_packet C (w2_cipher w)
            (if w2_state w = AssembleHeader
             then header_plain (w2_stream_ty w) now (w2_request_salt w) (length m)
             else be_of 2 (word_of_nat (length m) :: u16));
          (data_ct, c) = encrypt_packet C c m
      in (head_ct @ data_ct, c))"

definition writer_total_2022 :: "'c encrypted_writer_2022 \<times> sink \<Rightarrow> byte list" where
  "writer_total_2022 s =
     (case s of (w, snk) \<Rightarrow>
      sunk snk @ (case w2_state w of Writing2 pos \<Rightarrow> drop pos (w2_buffer w) | _ \<Rightarrow> w2_buffer w))"

definition idle_2022 :: "'c encrypted_writer_2022 \<Rightarrow> bool" where
  "idle_2022 w \<longleftrightarrow> w2_state w = AssembleHeader \<or> w2_state w = AssemblePacket2"

definition writer_wf_2022 :: "'c encrypted_writer_2022 \<Rightarrow> bool" where
  "writer_wf_2022 w \<longleftrightarrow> (case w2_state w of Writing2 pos \<Rightarrow> pos \<le> length (w2_buffer w) | _ \<Rightarrow> True)"

lemma assemble_2022:
  "w2_state w = AssembleHeader \<Longrightarrow> assemble_header C now m w =
     w\<lparr>w2_cipher := snd (seal_next C now w m), w2_buffer := w2_buffer w @ fst (seal_next C now w m),
       w2_state := Writing2 0\<rparr>"
  "w2_state w \<noteq> AssembleHeader \<Longrightarrow> assemble_packet_2022 C m w =
     w\<lparr>w2_cipher := snd (seal_next C now w m), w2_buffer := w2_buffer w @ fst (seal_next C now w m),
       w2_state := Writing2 0\<rparr>"
  by (simp_all add: assemble_header_def assemble_packet_2022_def seal_next_def case_prod_beta Let_def)

lemma poll_write_encrypted_2022_step:
  assumes "poll_write_encrypted_2022 C now buf (w, snk) = (out, w', snk')" "writer_wf_2022 w"
  defines "m \<equiv> take MAX_PACKET_SIZE_2022 buf"
  defines "new \<equiv> (if idle_2022 w then seal_next C now w m else ([], w2_cipher w))"
  shows "writer_wf_2022 w'"
    and "writer_total_2022 (w', snk') = writer_total_2022 (w, snk) @ fst new"
    and "w2_cipher w' = snd new"
    and "\<And>n. out = Ready (Ok n) \<Longrightarrow> n = length m \<and> w2_state w' = AssemblePacket2 \<and> w2_buffer w' = []"
    and "(\<And>n. out \<noteq> Ready (Ok n)) \<Longrightarrow> \<not> idle_2022 w'"
proof -
  have m: "(if MAX_PACKET_SIZE_2022 < length buf then take MAX_PACKET_SIZE_2022 buf else buf) = m"
    by (simp add: m_def)
  define w1 where "w1 = (case w2_state w of
                 AssembleHeader \<Rightarrow> assemble_header C now m w
               | AssemblePacket2 \<Rightarrow> assemble_packet_2022 C m w
               | Writing2 pos \<Rightarrow> w)"
  define pos where "pos = (case w2_state w1 of Writing2 pos \<Rightarrow> pos | _ \<Rightarrow> 0)"
  obtain o1 pos1 snk1 where l: "write_loop (w2_buffer w1) pos snk = (o1, pos1, snk1)"
    by (metis prod_cases3)
  have w1: "w1 = (if idle_2022 w then w\<lparr>w2_cipher := snd new, w2_buffer := w2_buffer w @ fst new, w2_state := Writing2 0\<rparr> else w)"
    by (auto simp: w1_def new_def idle_2022_def assemble_2022 assemble_2022(2) [where now = now]
          split: encrypt_write_state_2022.splits)
  have st: "w2_state w1 = Writing2 pos" and pos: "pos \<le> length (w2_buffer w1)"
    using assms(2) by (auto simp: w1 pos_def writer_wf_2022_def idle_2022_def split: encrypt_write_state_2022.splits)
  have tot: "writer_total_2022 (w1, snk) = writer_total_2022 (w, snk) @ fst new" and cip: "w2_cipher w1 = snd new"
    by (auto simp: w1 writer_total_2022_def new_def idle_2022_def split: encrypt_write_state_2022.splits)
  from write_loop_sunk [OF l pos]
  have "pos \<le> pos1" "pos1 \<le> length (w2_buffer w1)" "sunk snk1 = sunk snk @ slice pos pos1 (w2_buffer w1)"
    "o1 = Ready (Ok ()) \<longrightarrow> pos1 = length (w2_buffer w1)" by simp_all
  moreover have "slice pos pos1 b @ drop pos1 b = drop pos b" if "pos \<le> pos1" for b :: "byte list"
    using that by (simp add: slice_def) (metis append_take_drop_id drop_drop le_add_diff_inverse2)
  ultimately have sunk1: "sunk snk1 @ drop pos1 (w2_buffer w1) = writer_total_2022 (w1, snk)"
    by (simp add: writer_total_2022_def st)
  have res: "(out, w', snk') = (case (o1, pos1, snk1) of
            (Pending, pos, snk) \<Rightarrow> (Pending, w1\<lparr>w2_state := Writing2 pos\<rparr>, snk)
          | (Ready (Err e), pos, snk) \<Rightarrow> (Ready (Err e), w1\<lparr>w2_state := Writing2 pos\<rparr>, snk)
          | (Ready Panic, pos, snk) \<Rightarrow> (Ready Panic, w1\<lparr>w2_state := Writing2 pos\<rparr>, snk)
          | (Ready (Ok u), pos, snk) \<Rightarrow>
              (Ready (Ok (length m)), w1\<lparr>w2_state := AssemblePacket2, w2_buffer := []\<rparr>, snk))"
    using assms(1) l unfolding poll_write_encrypted_2022_def m
    by (simp add: w1_def [symmetric] pos_def Let_def)
       (auto simp: w1_def [symmetric] pos_def split: poll.splits res.splits)
  note facts = \<open>pos1 \<le> length (w2_buffer w1)\<close> \<open>o1 = Ready (Ok ()) \<longrightarrow> pos1 = length (w2_buffer w1)\<close>
    sunk1 tot cip res
  show "writer_wf_2022 w'" using facts by (auto simp: writer_wf_2022_def split: poll.splits res.splits)
  show "writer_total_2022 (w', snk') = writer_total_2022 (w, snk) @ fst new"
    using facts by (auto simp: writer_total_2022_def split: poll.splits res.splits)
  show "w2_cipher w' = snd new"
    using facts by (auto split: poll.splits res.splits)
  show "\<And>n. out = Ready (Ok n) \<Longrightarrow> n = length m \<and> w2_state w' = AssemblePacket2 \<and> w2_buffer w' = []"
    using facts by (auto split: poll.splits res.splits)
  show "(\<And>n. out \<noteq> Ready (Ok n)) \<Longrightarrow> \<not> idle_2022 w'"
    using facts by (auto simp: idle_2022_def split: poll.splits res.splits)
qed

inductive send_one_2022 ::
  "'c cipher_ops \<Rightarrow> u64 \<Rightarrow> byte list \<Rightarrow> 'c encrypted_writer_2022 \<times> sink \<Rightarrow> nat \<Rightarrow> 'c encrypted_writer_2022 \<times> sink \<Rightarrow> bool"
  for C :: "'c cipher_ops" and now :: u64 and m :: "byte list" where
  sent2: "poll_write_encrypted_2022 C now m s = (Ready (Ok n), s') \<Longrightarrow> send_one_2022 C now m s n s'"
| blocked2: "poll_write_encrypted_2022 C now m s = (Pending, s1) \<Longrightarrow> send_one_2022 C now m s1 n s' \<Longrightarrow> send_one_2022 C now m s n s'"

inductive send_all_2022 ::
  "'c cipher_ops \<Rightarrow> u64 \<Rightarrow> byte list list \<Rightarrow> 'c encrypted_writer_2022 \<times> sink \<Rightarrow> nat list \<Rightarrow> 'c encrypted_writer_2022 \<times> sink \<Rightarrow> bool"
  for C :: "'c cipher_ops" and now :: u64 where
  none2: "send_all_2022 C now [] s [] s"
| more2: "send_one_2022 C now m s n s1 \<Longrightarrow> send_all_2022 C now ms s1 ns s' \<Longrightarrow> send_all_2022 C now (m # ms) s (n # ns) s'"

lemma send_one_2022_frame:
  assumes "send_one_2022 C now m s n s'" "writer_wf_2022 (fst s)"
  defines "new \<equiv> (if idle_2022 (fst s) then seal_next C now (fst s) (take MAX_PACKET_SIZE_2022 m) else ([], w2_cipher (fst s)))"
  shows "n = min (length m) MAX_PACKET_SIZE_2022 \<and> w2_state (fst s') = AssemblePacket2 \<and> w2_buffer (fst s') = []
    \<and> writer_total_2022 s' = writer_total_2022 s @ fst new \<and> w2_cipher (fst s') = snd new"
  using assms(1,2) unfolding new_def
proof (induction rule: send_one_2022.induct)
  case (sent2 s n s')
  obtain w snk w' snk' where s: "s = (w, snk)" "s' = (w', snk')" by (metis prod.exhaust)
  from poll_write_encrypted_2022_step [OF sent2.hyps [unfolded s]] sent2.prems
  show ?case by (auto simp: s min_def)
next
  case (blocked2 s s1 n s')
  obtain w snk w1 snk1 where s: "s = (w, snk)" "s1 = (w1, snk1)" by (metis prod.exhaust)
  note step = poll_write_encrypted_2022_step [OF blocked2.hyps(1) [unfolded s]]
  have "writer_wf_2022 w1" "\<not> idle_2022 w1" using step(1,5) blocked2.prems by (auto simp: s)
  then show ?case using blocked2.IH step(2,3) blocked2.prems by (auto simp: s)
qed

lemma seal_next_packet:
  "w2_state w = AssemblePacket2 \<Longrightarrow> seal_next C now w m = seal_frames C (w2_cipher w) [m]"
  by (simp add: seal_next_def case_prod_beta Let_def)

lemma send_all_2022_frames:
  assumes "send_all_2022 C now ms s ns s'" "w2_state (fst s) = AssemblePacket2"
  shows "ns = map (\<lambda>m. min (length m) MAX_PACKET_SIZE_2022) ms
    \<and> (w2_buffer (fst s) = [] \<longrightarrow> w2_buffer (fst s') = []) \<and> w2_state (fst s') = AssemblePacket2
    \<and> writer_total_2022 s' = writer_total_2022 s
        @ fst (seal_frames C (w2_cipher (fst s)) (map (take MAX_PACKET_SIZE_2022) ms))"
  using assms
proof (induction rule: send_all_2022.induct)
  case (more2 m s n s1 ms ns s')
  let ?m = "take MAX_PACKET_SIZE_2022 m"
  have "writer_wf_2022 (fst s)" "idle_2022 (fst s)" using more2.prems by (simp_all add: writer_wf_2022_def idle_2022_def)
  with send_one_2022_frame [OF more2.hyps(1)] seal_next_packet [OF more2.prems, of C now ?m]
  have one: "n = min (length m) MAX_PACKET_SIZE_2022" "w2_state (fst s1) = AssemblePacket2" "w2_buffer (fst s1) = []"
    "writer_total_2022 s1 = writer_total_2022 s @ fst (seal_frames C (w2_cipher (fst s)) [?m])"
    "w2_cipher (fst s1) = snd (seal_frames C (w2_cipher (fst s)) [?m])"
    by simp_all
  show ?case
    using more2.IH [OF one(2)] one
      seal_frames_append [of C "w2_cipher (fst s)" "[?m]" "map (take MAX_PACKET_SIZE_2022) ms"]
    by (auto simp del: seal_frames.simps)
qed simp

lemma send_all_2022_stream:
  assumes "send_all_2022 C now (m # ms) (w, \<lparr>sink_events = evs, sunk = []\<rparr>) ns (w', snk)"
    and "w2_state w = AssembleHeader"
  defines "m' \<equiv> take MAX_PACKET_SIZE_2022 m" and "ms' \<equiv> map (take MAX_PACKET_SIZE_2022) ms"
  shows "ns = map (\<lambda>m. min (length m) MAX_PACKET_SIZE_2022) (m # ms)"
    and "sunk snk = w2_buffer w @ fst (seal_next C now w m') @ fst (seal_frames C (snd (seal_next C now w m')) ms')"
proof -
  let ?s = "(w, \<lparr>sink_events = evs, sunk = []\<rparr>)"
  from assms(1) obtain n ns1 s1 where one: "send_one_2022 C now m ?s n s1"
    and rest: "send_all_2022 C now ms s1 ns1 (w', snk)" and ns: "ns = n # ns1"
    by (auto elim: send_all_2022.cases)
  have "writer_wf_2022 (fst ?s)" "idle_2022 (fst ?s)"
    using assms(2) by (simp_all add: writer_wf_2022_def idle_2022_def)
  with send_one_2022_frame [OF one]
  have n: "n = min (length m) MAX_PACKET_SIZE_2022" and s1: "w2_state (fst s1) = AssemblePacket2"
      "w2_buffer (fst s1) = []" "w2_cipher (fst s1) = snd (seal_next C now w m')"
    and tot: "writer_total_2022 s1 = writer_total_2022 ?s @ fst (seal_next C now w m')"
    by (simp_all add: m'_def)
  from send_all_2022_frames [OF rest s1(1)] n ns
  show "ns = map (\<lambda>m. min (length m) MAX_PACKET_SIZE_2022) (m # ms)" by simp
  from send_all_2022_frames [OF rest s1(1)] s1(2,3) tot assms(2)
  show "sunk snk = w2_buffer w @ fst (seal_next C now w m') @ fst (seal_frames C (snd (seal_next C now w m')) ms')"
    by (auto simp: writer_total_2022_def ms'_def)
qed

section \<open>The reader recovers the plaintext\<close>

text \<open>The next bytes of the network come in one read of at least \<open>n\<close> bytes.\<close>

fun one_read :: "nat \<Rightarrow> net \<Rightarrow> bool" where
  "one_read n [] = False"
| "one_read n (WouldBlock # es) = one_read n es"
| "one_read n (Data bs # es) = (n \<le> length bs)"
| "one_read n (Fail e # es) = False"

definition reader_sync_2022 ::
  "'c cipher_ops \<Rightarrow> hash_ops \<Rightarrow> (byte list \<Rightarrow> 'x \<Rightarrow> (unit, io_error) res \<times> 'x) \<Rightarrow> u64 \<Rightarrow> cipher_kind
     \<Rightarrow> byte list option \<Rightarrow> 'c decrypted_reader_2022 \<times> net \<times> 'x \<Rightarrow> byte list \<Rightarrow> bool" where
  "reader_sync_2022 C H chk now kind rs s plain \<longleftrightarrow>
     (case s of (r, net, x) \<Rightarrow>
      r2_method r = kind \<and> net_ok net \<and>
      (case r2_state r of
         ReadHeader key \<Rightarrow>
           (\<exists>hb c m ms r1 x1. process_header C H chk now key hb r x = (Ok (length m), r1, x1)
              \<and> r2_cipher r1 = Some c \<and> r2_method r1 = kind \<and> r2_request_salt r1 = rs
              \<and> data_chunk_count r = 0 \<and> length hb = header_len r
              \<and> one_read (header_len r) net
              \<and> net_bytes net = hb @ fst (encrypt_packet C c m) @ fst (seal_frames C (snd (encrypt_packet C c m)) ms)
              \<and> (\<forall>m \<in> set ms. length m \<le> MAX_PACKET_SIZE_2022) \<and> plain = m @ concat ms)
       | ReadLength2 \<Rightarrow>
           (\<exists>c ms. r2_cipher r = Some c \<and> r2_request_salt r = rs \<and> length (r2_buffer r) \<le> 2 + tag_len kind
              \<and> r2_buffer r @ net_bytes net = fst (seal_frames C c ms)
              \<and> (\<forall>m \<in> set ms. length m \<le> MAX_PACKET_SIZE_2022) \<and> plain = concat ms)
       | ReadData2 len \<Rightarrow>
           (\<exists>c m ms. r2_cipher r = Some c \<and> r2_request_salt r = rs \<and> len = length m \<and> length (r2_buffer r) \<le> len + tag_len kind
              \<and> r2_buffer r @ net_bytes net
                  = fst (encrypt_packet C c m) @ fst (seal_frames C (snd (encrypt_packet C c m)) ms)
              \<and> (\<forall>m \<in> set ms. length m \<le> MAX_PACKET_SIZE_2022) \<and> plain = m @ concat ms)
       | BufferedData2 pos \<Rightarrow>
           (\<exists>c ms. r2_cipher r = Some c \<and> r2_request_salt r = rs \<and> pos \<le> length (r2_buffer r)
              \<and> net_bytes net = fst (seal_frames C c ms)
              \<and> (\<forall>m \<in> set ms. length m \<le> MAX_PACKET_SIZE_2022) \<and> plain = drop pos (r2_buffer r) @ concat ms)))"

definition round_sound_2022 ::
  "'c cipher_ops \<Rightarrow> hash_ops \<Rightarrow> (byte list \<Rightarrow> 'x \<Rightarrow> (unit, io_error) res \<times> 'x) \<Rightarrow> u64 \<Rightarrow> cipher_kind \<Rightarrow> byte list option
     \<Rightarrow> nat \<Rightarrow> nat \<Rightarrow> byte list
     \<Rightarrow> ('c decrypted_reader_2022 \<times> net \<times> 'x, (byte list, aead2022_error) poll \<times> 'c decrypted_reader_2022 \<times> net \<times> 'x) round \<Rightarrow> bool" where
  "round_sound_2022 C H chk now kind rs room k plain rnd \<longleftrightarrow>
     (case rnd of
        Return (out, r, net, x) \<Rightarrow>
          (out = Pending \<and> reader_sync_2022 C H chk now kind rs (r, net, x) plain \<and> length net < k)
          \<or> (\<exists>bs rest. out = Ready (Ok bs) \<and> plain = bs @ rest \<and> length bs \<le> room \<and> (bs = [] \<longrightarrow> plain = [])
               \<and> reader_sync_2022 C H chk now kind rs (r, net, x) rest \<and> length net \<le> k)
      | Again s \<Rightarrow> reader_sync_2022 C H chk now kind rs s plain \<and> length (fst (snd s)) \<le> k)"

lemma one_read_poll:
  assumes "one_read n net" "net_ok net" "length hb = n" "net_bytes net = hb @ rest" "0 < n"
  shows "(\<exists>net'. poll_read n net = (Pending, net') \<and> one_read n net' \<and> net_ok net'
             \<and> net_bytes net' = net_bytes net \<and> length net' < length net)
       \<or> (\<exists>net'. poll_read n net = (Ready (Ok hb), net') \<and> net_ok net' \<and> net_bytes net' = rest \<and> length net' \<le> length net)"
  using assms
proof (cases "(n, net)" rule: poll_read.cases)
  case (4 m bs es)
  have "take n bs = hb" "drop n bs @ net_bytes es = rest"
    using assms 4 by (auto simp: append_eq_append_conv_if split: if_splits)
  then show ?thesis using assms 4 by (auto split: if_splits)
qed auto

lemma round_header_2022:
  assumes sync: "reader_sync_2022 C H chk now kind rs (r, net, x) plain" and st: "r2_state r = ReadHeader key"
  shows "round_sound_2022 C H chk now kind rs room (length net) plain (reader_round_2022 C H chk now room (r, net, x))"
proof -
  obtain hb c m ms r1 x1 where ph: "process_header C H chk now key hb r x = (Ok (length m), r1, x1)"
    and r1: "r2_cipher r1 = Some c" "r2_method r1 = kind" "r2_request_salt r1 = rs" "data_chunk_count r = 0" and hb: "length hb = header_len r"
    and one: "one_read (header_len r) net"
    and bytes: "net_bytes net = hb @ fst (encrypt_packet C c m) @ fst (seal_frames C (snd (encrypt_packet C c m)) ms)"
    and ms: "\<forall>m \<in> set ms. length m \<le> MAX_PACKET_SIZE_2022" "plain = m @ concat ms"
    and kind: "r2_method r = kind" and ok: "net_ok net"
    using sync st by (auto simp: reader_sync_2022_def)
  have pos: "0 < header_len r" by (simp add: header_len_def)
  then have ne: "hb \<noteq> []" using hb by auto
  from one_read_poll [OF one ok hb bytes pos] show ?thesis
  proof (elim disjE exE conjE)
    fix net' assume "poll_read (header_len r) net = (Pending, net')" "one_read (header_len r) net'" "net_ok net'"
      "net_bytes net' = net_bytes net" "length net' < length net"
    then show ?thesis using st kind ph r1 hb bytes ms
      by (simp add: round_sound_2022_def reader_sync_2022_def reader_round_2022_def poll_read_header_def) blast
  next
    fix net' assume "poll_read (header_len r) net = (Ready (Ok hb), net')" "net_ok net'"
      "net_bytes net' = fst (encrypt_packet C c m) @ fst (seal_frames C (snd (encrypt_packet C c m)) ms)"
      "length net' \<le> length net"
    then show ?thesis using st kind ph r1 hb ms ne
      by (auto simp: round_sound_2022_def reader_sync_2022_def reader_round_2022_def poll_read_header_def Let_def)
  qed
qed

lemma round_length_2022:
  assumes laws: "cipher_laws C kind" and sync: "reader_sync_2022 C H chk now kind rs (r, net, x) plain"
    and st: "r2_state r = ReadLength2"
  shows "round_sound_2022 C H chk now kind rs room (length net) plain (reader_round_2022 C H chk now room (r, net, x))"
proof -
  let ?n = "2 + tag_len kind"
  obtain c ms where c: "r2_cipher r = Some c" "r2_request_salt r = rs" and len: "length (r2_buffer r) \<le> ?n"
    and bytes: "r2_buffer r @ net_bytes net = fst (seal_frames C c ms)"
    and ms: "\<forall>m \<in> set ms. length m \<le> MAX_PACKET_SIZE_2022" "plain = concat ms"
    and kind: "r2_method r = kind" and ok: "net_ok net"
    using sync st by (auto simp: reader_sync_2022_def)
  have n: "0 < ?n" by simp
  show ?thesis
  proof (cases ms)
    case Nil
    then have e: "r2_buffer r = []" "net_bytes net = []" using bytes by simp_all
    from poll_read_exact_eof [OF ok e(2) n] show ?thesis using e st kind ms Nil c
      by (auto simp: round_sound_2022_def reader_sync_2022_def reader_round_2022_def poll_read_length_2022_def Let_def
          intro!: exI [of _ "[]"])
  next
    case (Cons m ms')
    define lb where "lb = be_of 2 (word_of_nat (length m) :: u16)"
    define c1 where "c1 = snd (encrypt_packet C c lb)"
    define rest where "rest = fst (encrypt_packet C c1 m) @ fst (seal_frames C (snd (encrypt_packet C c1 m)) ms')"
    have want: "r2_buffer r @ net_bytes net = fst (encrypt_packet C c lb) @ rest"
      using bytes by (simp add: Cons case_prod_beta Let_def lb_def c1_def rest_def)
    have wl: "length (fst (encrypt_packet C c lb)) = ?n" using laws by (simp add: cipher_laws_def lb_def)
    have "length m \<le> MAX_PACKET_SIZE_2022" using ms Cons by simp
    then have plen: "decrypt_length_2022 C c (fst (encrypt_packet C c lb)) = (Ok (length m), c1)"
      using laws by (simp add: decrypt_length_2022_def cipher_laws_def lb_def c1_def unat_of_nat)
    from poll_read_exact_sim [OF ok want wl n len] show ?thesis
    proof (elim disjE exE conjE)
      fix b net' assume "poll_read_exact ?n (r2_buffer r) net = (Pending, b, net')" "net_ok net'"
        "b @ net_bytes net' = fst (encrypt_packet C c lb) @ rest" "length b \<le> ?n" "length net' < length net"
      then show ?thesis using st kind ms c want bytes
        by (auto simp: round_sound_2022_def reader_sync_2022_def reader_round_2022_def poll_read_length_2022_def
            intro!: exI [of _ ms])
    next
      fix net' assume "poll_read_exact ?n (r2_buffer r) net = (Ready (Ok ?n), fst (encrypt_packet C c lb), net')"
        "net_ok net'" "net_bytes net' = rest" "length net' \<le> length net"
      then show ?thesis using st kind ms c plen wl
        by (auto simp: round_sound_2022_def reader_sync_2022_def reader_round_2022_def poll_read_length_2022_def Let_def
              Cons rest_def)
    qed
  qed
qed

lemma round_data_2022:
  assumes laws: "cipher_laws C kind" "0 < tag_len kind" and sync: "reader_sync_2022 C H chk now kind rs (r, net, x) plain"
    and st: "r2_state r = ReadData2 len"
  shows "round_sound_2022 C H chk now kind rs room (length net) plain (reader_round_2022 C H chk now room (r, net, x))"
proof -
  obtain c m ms where c: "r2_cipher r = Some c" "r2_request_salt r = rs" and m: "len = length m"
    and len: "length (r2_buffer r) \<le> len + tag_len kind"
    and bytes: "r2_buffer r @ net_bytes net
                  = fst (encrypt_packet C c m) @ fst (seal_frames C (snd (encrypt_packet C c m)) ms)"
    and ms: "\<forall>m \<in> set ms. length m \<le> MAX_PACKET_SIZE_2022" "plain = m @ concat ms"
    and kind: "r2_method r = kind" and ok: "net_ok net"
    using sync st by (auto simp: reader_sync_2022_def)
  define want where "want = fst (encrypt_packet C c m)"
  define c1 where "c1 = snd (encrypt_packet C c m)"
  have wl: "length want = len + tag_len kind" using laws m by (simp add: cipher_laws_def want_def)
  have dec: "decrypt_packet C c want = (Some m, c1)" using laws by (simp add: cipher_laws_def want_def c1_def)
  note bytes = bytes [folded want_def c1_def]
  have "0 < len + tag_len kind" using laws(2) by simp
  from poll_read_exact_sim [OF ok bytes wl this len] show ?thesis
  proof (elim disjE exE conjE)
    fix b net' assume "poll_read_exact (len + tag_len kind) (r2_buffer r) net = (Pending, b, net')" "net_ok net'"
      "b @ net_bytes net' = want @ fst (seal_frames C c1 ms)" "length b \<le> len + tag_len kind"
      "length net' < length net"
    then show ?thesis using st kind ms c m
      by (auto simp: round_sound_2022_def reader_sync_2022_def reader_round_2022_def poll_read_data_2022_def
            want_def c1_def)
  next
    fix net' assume "poll_read_exact (len + tag_len kind) (r2_buffer r) net
        = (Ready (Ok (len + tag_len kind)), want, net')"
      "net_ok net'" "net_bytes net' = fst (seal_frames C c1 ms)" "length net' \<le> length net"
    then show ?thesis using st kind ms c m wl laws(2) dec
      by (auto simp: round_sound_2022_def reader_round_2022_def poll_read_data_2022_def Let_def reader_sync_2022_def)
  qed
qed

lemma round_buffered_2022:
  assumes sync: "reader_sync_2022 C H chk now kind rs (r, net, x) plain" and st: "r2_state r = BufferedData2 pos"
    and room: "0 < room"
  shows "round_sound_2022 C H chk now kind rs room (length net) plain (reader_round_2022 C H chk now room (r, net, x))"
proof (cases "pos < length (r2_buffer r)")
  case True
  define k where "k = min (length (r2_buffer r) - pos) room"
  have "drop pos (r2_buffer r) = slice pos (pos + k) (r2_buffer r) @ drop (pos + k) (r2_buffer r)"
    by (simp add: slice_def add.commute flip: drop_drop)
  moreover have "slice pos (pos + k) (r2_buffer r) \<noteq> []" "length (slice pos (pos + k) (r2_buffer r)) \<le> room"
    "pos + k \<le> length (r2_buffer r)"
    using True room by (auto simp: slice_def k_def)
  ultimately show ?thesis using sync st True
    by (auto simp: round_sound_2022_def reader_sync_2022_def reader_round_2022_def Let_def k_def [symmetric])
next
  case False
  then show ?thesis using sync st
    by (auto simp: round_sound_2022_def reader_sync_2022_def reader_round_2022_def)
qed

lemma reader_round_2022_sound:
  assumes "cipher_laws C kind" "0 < tag_len kind" "0 < room" "reader_sync_2022 C H chk now kind rs (r, net, x) plain"
  shows "round_sound_2022 C H chk now kind rs room (length net) plain (reader_round_2022 C H chk now room (r, net, x))"
proof (cases "r2_state r")
  case (ReadHeader key)
  show ?thesis by (rule round_header_2022 [OF assms(4) ReadHeader])
next
  case ReadLength2
  show ?thesis by (rule round_length_2022 [OF assms(1,4) ReadLength2])
next
  case (ReadData2 len)
  show ?thesis by (rule round_data_2022 [OF assms(1,2,4) ReadData2])
next
  case (BufferedData2 pos)
  show ?thesis by (rule round_buffered_2022 [OF assms(4) BufferedData2 assms(3)])
qed

lemma round_sound_2022_mono:
  "round_sound_2022 C H chk now kind rs room k plain rnd \<Longrightarrow> k \<le> k' \<Longrightarrow> round_sound_2022 C H chk now kind rs room k' plain rnd"
  by (auto simp: round_sound_2022_def split: round.splits prod.splits)

lemma poll_read_decrypted_2022_sound:
  assumes "cipher_laws C kind" "0 < tag_len kind" "0 < room" "reader_sync_2022 C H chk now kind rs s plain"
  shows "round_sound_2022 C H chk now kind rs room (length (fst (snd s))) plain
           (Return (poll_read_decrypted_2022 C H chk now room s))"
  using assms
proof (induction C H chk now room s rule: poll_read_decrypted_2022.induct)
  case (1 C H chk now room s)
  obtain r net x where s: "s = (r, net, x)" by (cases s)
  note snd = reader_round_2022_sound [OF "1.prems" [unfolded s]]
  show ?case
  proof (cases "reader_round_2022 C H chk now room s")
    case (Return out)
    then show ?thesis using snd by (simp add: s poll_read_decrypted_2022.simps)
  next
    case (Again s')
    then have "reader_sync_2022 C H chk now kind rs s' plain" "length (fst (snd s')) \<le> length net"
      using snd by (simp_all add: s round_sound_2022_def)
    with "1.IH" [OF Again "1.prems"(1-3)] show ?thesis
      using Again by (auto simp: s poll_read_decrypted_2022.simps [of C H chk now room "(r, net, x)"]
                        intro: round_sound_2022_mono)
  qed
qed

fun read_polls_2022 ::
  "'c cipher_ops \<Rightarrow> hash_ops \<Rightarrow> (byte list \<Rightarrow> 'x \<Rightarrow> (unit, io_error) res \<times> 'x) \<Rightarrow> u64 \<Rightarrow> nat list
     \<Rightarrow> 'c decrypted_reader_2022 \<times> net \<times> 'x
     \<Rightarrow> (byte list, aead2022_error) res \<times> 'c decrypted_reader_2022 \<times> net \<times> 'x" where
  "read_polls_2022 C H chk now [] s = (Ok [], s)"
| "read_polls_2022 C H chk now (room # rooms) s =
     (case poll_read_decrypted_2022 C H chk now room s of
        (Pending, s) \<Rightarrow> read_polls_2022 C H chk now rooms s
      | (Ready (Err e), s) \<Rightarrow> (Err e, s)
      | (Ready Panic, s) \<Rightarrow> (Panic, s)
      | (Ready (Ok bs), s) \<Rightarrow>
          (case read_polls_2022 C H chk now rooms s of (Ok cs, s) \<Rightarrow> (Ok (bs @ cs), s) | out \<Rightarrow> out))"

lemma read_polls_2022_sound:
  assumes "cipher_laws C kind" "0 < tag_len kind" "\<forall>room \<in> set rooms. 0 < room"
    and "reader_sync_2022 C H chk now kind rs s plain"
  shows "\<exists>got rest s'. read_polls_2022 C H chk now rooms s = (Ok got, s') \<and> got @ rest = plain
           \<and> (length (fst (snd s)) + length plain \<le> length rooms \<longrightarrow> rest = [])"
  using assms(3,4)
proof (induction rooms arbitrary: s plain)
  case (Cons room rooms)
  obtain out r net x where p: "poll_read_decrypted_2022 C H chk now room s = (out, r, net, x)" by (metis prod_cases4)
  have "0 < room" using Cons.prems by simp
  from poll_read_decrypted_2022_sound [OF assms(1,2) this Cons.prems(2)] p
  consider (pend) "out = Pending" "reader_sync_2022 C H chk now kind rs (r, net, x) plain" "length net < length (fst (snd s))"
    | (got) bs rest where "out = Ready (Ok bs)" "plain = bs @ rest" "bs = [] \<longrightarrow> plain = []"
        "reader_sync_2022 C H chk now kind rs (r, net, x) rest" "length net \<le> length (fst (snd s))"
    by (auto simp: round_sound_2022_def)
  then show ?case
  proof cases
    case pend
    from Cons.IH [OF _ pend(2)] Cons.prems(1) obtain got rest s'
      where "read_polls_2022 C H chk now rooms (r, net, x) = (Ok got, s')" "got @ rest = plain"
        "length net + length plain \<le> length rooms \<longrightarrow> rest = []" by auto
    then show ?thesis using p pend(1,3) by (cases s') auto
  next
    case (got bs rest)
    from Cons.IH [OF _ got(4)] Cons.prems(1) obtain cs rest' s'
      where "read_polls_2022 C H chk now rooms (r, net, x) = (Ok cs, s')" "cs @ rest' = rest"
        "length net + length rest \<le> length rooms \<longrightarrow> rest' = []" by auto
    moreover have "rest' = []" if "length (fst (snd s)) + length plain \<le> Suc (length rooms)"
      using that calculation got(2,3,5) by (cases bs) auto
    ultimately show ?thesis using p got(1,2) by (cases s') auto
  qed
qed (metis append_Nil le_zero_eq length_0_conv list.size(3) read_polls_2022.simps(1) add_is_0)

section \<open>Headers\<close>

lemma header_plain_parts:
  assumes "length rs = n"
  shows "(b # be_of 8 (ts :: u64) @ rs @ be_of 2 (l :: u16)) ! 0 = b"
    and "slice 1 9 (b # be_of 8 ts @ rs @ be_of 2 l) = be_of 8 ts"
    and "slice 9 (9 + n) (b # be_of 8 ts @ rs @ be_of 2 l) = rs"
    and "slice (9 + n) (11 + n) (b # be_of 8 ts @ rs @ be_of 2 l) = be_of 2 l"
  using assms by (simp_all add: slice_def drop_Cons')

text \<open>How the client's keys match what the server knows: a single shared key without identity
  headers, or one identity key, the server's, and a user key known to the user manager.\<close>

definition keys_match ::
  "hash_ops \<Rightarrow> cipher_kind \<Rightarrow> byte list list \<Rightarrow> byte list \<Rightarrow> byte list \<Rightarrow> user_manager option \<Rightarrow> bool" where
  "keys_match H kind ids key skey um \<longleftrightarrow>
     (case um of
        None \<Rightarrow> key = skey \<and> (ids = [] \<or> \<not> support_eih kind)
      | Some m \<Rightarrow>
          if support_eih kind then
            ids = [skey] \<and> (\<exists>u. get_user_by_hash m (slice 0 16 (blake3_hash H key)) = Some u \<and> user_key u = key)
          else key = skey)"

lemma request_header_accepted:
  assumes laws: "cipher_laws C kind" "hash_laws H" and salt: "length salt = salt_len kind" "0 < salt_len kind"
    and keys: "keys_match H kind ids key skey um" and ts: "timestamp_ok now ts"
    and chk: "fst (chk salt x) = Ok ()" and m: "length m \<le> MAX_PACKET_SIZE_2022"
  defines "r \<equiv> reader2022_with_user_manager C ServerStream kind skey um"
    and "w \<equiv> writer2022_with_identity C H ClientStream kind key salt ids"
  defines "e \<equiv> encrypt_packet C (w2_cipher w) (header_plain ClientStream ts None (length m))"
  shows "length (w2_buffer w @ fst e) = header_len r
    \<and> (\<exists>r1 x1. process_header C H chk now skey (w2_buffer w @ fst e) r x = (Ok (length m), r1, x1)
         \<and> r2_cipher r1 = Some (snd e) \<and> r2_method r1 = kind)"
proof -
  define eih where "eih = (if support_eih kind then eih_chain H kind salt None ids key else [])"
  have buf: "w2_buffer w = salt @ eih" and cw: "w2_cipher w = cipher_new C kind key salt"
    by (simp_all add: w_def writer2022_with_identity_def eih_def)
  have req: "require_eih r \<longleftrightarrow> support_eih kind \<and> um \<noteq> None" and meth: "r2_method r = kind"
    and rsl: "header_request_salt_len r = 0" and ty: "r2_stream_ty r = ServerStream" and rum: "r2_user_manager r = um"
    by (simp_all add: r_def require_eih_def reader2022_with_user_manager_def header_request_salt_len_def)
  have el: "length eih = (if require_eih r then 16 else 0)"
    using keys eih_chain_length [OF laws(2), of kind salt None ids key]
    by (auto simp: eih_def req keys_match_def split: option.splits if_splits)
  have hp: "header_plain ClientStream ts None (length m) = 0 # be_of 8 ts @ [] @ be_of 2 (word_of_nat (length m) :: u16)"
    by (simp add: header_plain_def)
  have elen: "length (fst e) = 1 + 8 + 2 + tag_len kind" using laws(1) by (simp add: e_def cipher_laws_def hp)
  have hl: "length (w2_buffer w @ fst e) = header_len r"
    using salt by (simp add: buf header_len_def meth rsl el elen)
  have hc: "\<exists>r'. header_cipher C H skey salt (eih @ fst e) r = (Ok (w2_cipher w, fst e), r')
      \<and> r2_stream_ty r' = ServerStream \<and> r2_method r' = kind \<and> header_request_salt_len r' = 0"
  proof (cases "require_eih r")
    case True
    then obtain um' where um: "um = Some um'" "support_eih kind" by (auto simp: req)
    then obtain u where ids: "ids = [skey]" and u: "get_user_by_hash um' (slice 0 16 (blake3_hash H key)) = Some u" "user_key u = key"
      using keys by (auto simp: keys_match_def)
    have "eih = make_eih H kind (eih_sub_key H skey salt) key" using um ids by (simp add: eih_def)
    then show ?thesis using True el u ty meth rsl decrypt_make_eih [OF laws(2), of kind skey salt key]
      by (simp add: header_cipher_def rum um cw header_request_salt_len_def)
  next
    case False
    then have "eih = []" "key = skey" using el keys req by (auto simp: keys_match_def split: option.splits if_splits)
    then show ?thesis using False ty meth rsl cw by (simp add: header_cipher_def)
  qed
  then obtain r' where r': "header_cipher C H skey salt (eih @ fst e) r = (Ok (w2_cipher w, fst e), r')"
    "r2_stream_ty r' = ServerStream" "r2_method r' = kind" "header_request_salt_len r' = 0" by blast
  have dec: "decrypt_packet C (w2_cipher w) (fst e) = (Some (header_plain ClientStream ts None (length m)), snd e)"
    using laws(1) by (simp add: e_def cipher_laws_def)
  have len: "unat (word_of_nat (length m) :: u16) = length m" using m by (simp add: unat_of_nat)
  obtain x1 where x1: "chk salt x = (Ok (), x1)" using chk by (metis prod.collapse)
  have "\<exists>r1. check_header chk now salt (header_plain ClientStream ts None (length m)) (snd e) r' x = (Ok (length m), r1, x1)
      \<and> r2_cipher r1 = Some (snd e) \<and> r2_method r1 = kind"
    using r' ts x1 header_plain_parts [of "[]" 0 0 ts "word_of_nat (length m) :: u16"] len
    by (simp add: check_header_def hp Let_def)
  then show ?thesis using hl r'(1) dec salt by (auto simp: process_header_def buf meth Let_def)
qed

lemma response_header_accepted:
  fixes key skey m :: "byte list" and ids :: "byte list list" and H :: hash_ops
  assumes laws: "cipher_laws C kind" and salt: "length salt = salt_len kind" "length rs = salt_len kind" "0 < salt_len kind"
    and ts: "timestamp_ok now ts" and m: "length m \<le> MAX_PACKET_SIZE_2022"
  defines "r \<equiv> reader2022_with_user_manager C ClientStream kind key None"
    and "w \<equiv> set_request_salt rs (reset_cipher_with_key C key (writer2022_with_identity C H ServerStream kind skey salt ids))"
  defines "e \<equiv> encrypt_packet C (w2_cipher w) (header_plain ServerStream ts (Some rs) (length m))"
  shows "length (w2_buffer w @ fst e) = header_len r
    \<and> (\<exists>r1. process_header C H chk now key (w2_buffer w @ fst e) r x = (Ok (length m), r1, x)
         \<and> r2_cipher r1 = Some (snd e) \<and> r2_method r1 = kind \<and> r2_request_salt r1 = Some rs)"
proof -
  let ?hp = "1 # be_of 8 ts @ rs @ be_of 2 (word_of_nat (length m) :: u16)"
  have buf: "w2_buffer w = salt" and cw: "w2_cipher w = cipher_new C kind key salt"
    by (simp_all add: w_def writer2022_with_identity_def set_request_salt_def reset_cipher_with_key_def)
  have req: "\<not> require_eih r" and meth: "r2_method r = kind"
    and rsl: "header_request_salt_len r = salt_len kind" and ty: "r2_stream_ty r = ClientStream"
    by (simp_all add: r_def require_eih_def reader2022_with_user_manager_def header_request_salt_len_def)
  have hp: "header_plain ServerStream ts (Some rs) (length m) = ?hp" by (simp add: header_plain_def)
  have elen: "length (fst e) = 1 + 8 + salt_len kind + 2 + tag_len kind"
    using laws salt(2) by (simp add: e_def cipher_laws_def hp)
  have hl: "length (w2_buffer w @ fst e) = header_len r"
    using salt by (simp add: buf header_len_def meth rsl req elen)
  have dec: "decrypt_packet C (cipher_new C kind key salt) (fst e) = (Some ?hp, snd e)"
    using laws by (simp add: e_def cipher_laws_def hp cw)
  have len: "unat (word_of_nat (length m) :: u16) = length m" using m by (simp add: unat_of_nat)
  have "\<exists>r1. check_header chk now salt ?hp (snd e) r x = (Ok (length m), r1, x)
      \<and> r2_cipher r1 = Some (snd e) \<and> r2_method r1 = kind \<and> r2_request_salt r1 = Some rs"
    using ts ty rsl meth salt header_plain_parts [OF salt(2), of 1 ts "word_of_nat (length m) :: u16"] len
    by (simp add: check_header_def Let_def)
  then show ?thesis using hl dec salt req by (auto simp: process_header_def header_cipher_def buf meth Let_def)
qed

lemma seal_next_header:
  fixes C :: "'c cipher_ops" and ts :: u64 and m :: "byte list"
  assumes "w2_state w = AssembleHeader"
  defines "e \<equiv> encrypt_packet C (w2_cipher w) (header_plain (w2_stream_ty w) ts (w2_request_salt w) (length m))"
  shows "fst (seal_next C ts w m) = fst e @ fst (encrypt_packet C (snd e) m)"
    and "snd (seal_next C ts w m) = snd (encrypt_packet C (snd e) m)"
  using assms(1) by (simp_all add: seal_next_def e_def case_prod_beta Let_def)

lemma sync_headerI:
  assumes "process_header C H chk now key hb r x = (Ok (length m), r1, x1)" "r2_state r = ReadHeader key"
    and "r2_cipher r1 = Some c" "r2_method r1 = kind" "r2_request_salt r1 = rs"
    and "r2_method r = kind" "data_chunk_count r = 0" "length hb = header_len r" "net_ok net" "one_read (header_len r) net"
    and "net_bytes net = hb @ fst (encrypt_packet C c m) @ fst (seal_frames C (snd (encrypt_packet C c m)) ms)"
    and "\<forall>m \<in> set ms. length m \<le> MAX_PACKET_SIZE_2022"
  shows "reader_sync_2022 C H chk now kind rs (r, net, x) (m @ concat ms)"
  using assms by (simp add: reader_sync_2022_def) blast

lemma request_sync:
  assumes "cipher_laws C kind" "hash_laws H" "length salt = salt_len kind" "0 < salt_len kind"
    and "keys_match H kind ids key skey um" "timestamp_ok now ts" "fst (chk salt x) = Ok ()"
  defines "r \<equiv> reader2022_with_user_manager C ServerStream kind skey um"
    and "w \<equiv> writer2022_with_identity C H ClientStream kind key salt ids"
  assumes "net_ok net" "one_read (header_len r) net"
    and "net_bytes net = w2_buffer w @ fst (seal_next C ts w m) @ fst (seal_frames C (snd (seal_next C ts w m)) ms)"
    and "length m \<le> MAX_PACKET_SIZE_2022" "\<forall>m \<in> set ms. length m \<le> MAX_PACKET_SIZE_2022"
  shows "\<exists>rs. reader_sync_2022 C H chk now kind rs (r, net, x) (m @ concat ms)"
proof -
  define e where "e = encrypt_packet C (w2_cipher w) (header_plain ClientStream ts None (length m))"
  have w: "w2_state w = AssembleHeader" "w2_stream_ty w = ClientStream" "w2_request_salt w = None"
    by (simp_all add: w_def writer2022_with_identity_def)
  obtain r1 x1 where hl: "length (w2_buffer w @ fst e) = header_len r"
    and ph: "process_header C H chk now skey (w2_buffer w @ fst e) r x = (Ok (length m), r1, x1)"
    and r1: "r2_cipher r1 = Some (snd e)" "r2_method r1 = kind"
    using request_header_accepted [where chk = chk and x = x, OF assms(1-7) assms(13)] unfolding r_def w_def e_def by blast
  have r: "r2_state r = ReadHeader skey" "r2_method r = kind" "data_chunk_count r = 0"
    using assms(4) by (simp_all add: r_def reader2022_with_user_manager_def)
  have nb: "net_bytes net = (w2_buffer w @ fst e) @ fst (encrypt_packet C (snd e) m)
      @ fst (seal_frames C (snd (encrypt_packet C (snd e) m)) ms)"
    using assms(12) seal_next_header [OF w(1), of C ts m] by (simp add: w e_def)
  from sync_headerI [OF ph r(1) r1 refl r(2,3) hl assms(10,11) nb assms(14)] show ?thesis ..
qed

lemma response_sync:
  fixes key skey m :: "byte list" and ids :: "byte list list" and H :: hash_ops
  assumes "cipher_laws C kind" "length salt = salt_len kind" "length rs = salt_len kind" "0 < salt_len kind"
    and "timestamp_ok now ts"
  defines "r \<equiv> reader2022_with_user_manager C ClientStream kind key None"
    and "w \<equiv> set_request_salt rs (reset_cipher_with_key C key (writer2022_with_identity C H ServerStream kind skey salt ids))"
  assumes "net_ok net" "one_read (header_len r) net"
    and "net_bytes net = w2_buffer w @ fst (seal_next C ts w m) @ fst (seal_frames C (snd (seal_next C ts w m)) ms)"
    and "length m \<le> MAX_PACKET_SIZE_2022" "\<forall>m \<in> set ms. length m \<le> MAX_PACKET_SIZE_2022"
  shows "reader_sync_2022 C H chk now kind (Some rs) (r, net, x) (m @ concat ms)"
proof -
  define e where "e = encrypt_packet C (w2_cipher w) (header_plain ServerStream ts (Some rs) (length m))"
  have w: "w2_state w = AssembleHeader" "w2_stream_ty w = ServerStream" "w2_request_salt w = Some rs"
    by (simp_all add: w_def writer2022_with_identity_def set_request_salt_def reset_cipher_with_key_def)
  obtain r1 where hl: "length (w2_buffer w @ fst e) = header_len r"
    and ph: "process_header C H chk now key (w2_buffer w @ fst e) r x = (Ok (length m), r1, x)"
    and r1: "r2_cipher r1 = Some (snd e)" "r2_method r1 = kind" "r2_request_salt r1 = Some rs"
    using response_header_accepted [where key = key and skey = skey and ids = ids and H = H and chk = chk and x = x,
        OF assms(1-5) assms(11)] unfolding r_def w_def e_def by blast
  have r: "r2_state r = ReadHeader key" "r2_method r = kind" "data_chunk_count r = 0"
    using assms(4) by (simp_all add: r_def reader2022_with_user_manager_def)
  have nb: "net_bytes net = (w2_buffer w @ fst e) @ fst (encrypt_packet C (snd e) m)
      @ fst (seal_frames C (snd (encrypt_packet C (snd e) m)) ms)"
    using assms(10) seal_next_header [OF w(1), of C ts m] by (simp add: w e_def)
  show ?thesis by (rule sync_headerI [OF ph r(1) r1 r(2,3) hl assms(8,9) nb assms(12)])
qed

text \<open>
  C12: An AEAD-2022 request arrives as it was sent. A client with one identity key (the server's)
  and a user key known to the server, or with the server's key alone, sends any messages through an
  arbitrarily blocking sink; the bytes reach the server in arbitrary pieces, except that the header
  comes in one read. If the clocks differ by at most 30 seconds and the salt is new, the server's
  reader never fails, returns a prefix of what was sent at every point, and returns all of it after
  as many polls as there are network events and message bytes.
\<close>

theorem aead2022_request_roundtrip:
  assumes "cipher_laws C kind" "hash_laws H" "0 < tag_len kind" "0 < salt_len kind" "length salt = salt_len kind"
    and "keys_match H kind ids key skey um"
    and "send_all_2022 C ts (m # ms) (writer2022_with_identity C H ClientStream kind key salt ids,
           \<lparr>sink_events = evs, sunk = []\<rparr>) ns (w, snk)"
    and "net_ok net" "net_bytes net = sunk snk"
    and "one_read (header_len (reader2022_with_user_manager C ServerStream kind skey um)) net"
    and "timestamp_ok now ts" "fst (check_nonce_replay B L t kind salt ctx) = Ok ()"
    and "\<forall>room \<in> set rooms. 0 < room"
  defines "sent \<equiv> concat (map (take MAX_PACKET_SIZE_2022) (m # ms))"
  shows "ns = map (\<lambda>m. min (length m) MAX_PACKET_SIZE_2022) (m # ms)
    \<and> (\<exists>got rest s. read_polls_2022 C H (check_nonce_replay B L t kind) now rooms
           (reader2022_with_user_manager C ServerStream kind skey um, net, ctx) = (Ok got, s)
         \<and> got @ rest = sent \<and> (length net + length sent \<le> length rooms \<longrightarrow> rest = []))"
proof -
  let ?w = "writer2022_with_identity C H ClientStream kind key salt ids"
  have st: "w2_state ?w = AssembleHeader" by (simp add: writer2022_with_identity_def)
  note str = send_all_2022_stream [OF assms(7) st]
  have "\<exists>rs. reader_sync_2022 C H (check_nonce_replay B L t kind) now kind rs
      (reader2022_with_user_manager C ServerStream kind skey um, net, ctx) sent"
    unfolding sent_def list.map concat.simps
    by (rule request_sync [where chk = "check_nonce_replay B L t kind" and x = ctx, OF assms(1,2,5,4,6,11,12,8,10)]) (use assms(9) str(2) in auto)
  then obtain rs where "reader_sync_2022 C H (check_nonce_replay B L t kind) now kind rs
      (reader2022_with_user_manager C ServerStream kind skey um, net, ctx) sent" ..
  from read_polls_2022_sound [OF assms(1,3,13) this] str(1) show ?thesis by simp
qed

section \<open>What a header must satisfy\<close>

text \<open>A header is accepted only if it decrypts, has the right type and a timestamp within 30 seconds of
  the clock, and, on a server, passes the salt check; on a server with users it names one of them.\<close>

lemma process_header_Ok:
  assumes "process_header C H chk now key hb r x = (Ok len, r1, x1)"
  defines "salt \<equiv> take (salt_len (r2_method r)) hb"
  obtains c p c' ct where "decrypt_packet C c ct = (Some p, c')"
    and "p ! 0 = (case r2_stream_ty r of ClientStream \<Rightarrow> 1 | ServerStream \<Rightarrow> 0)"
    and "timestamp_ok now (of_be (slice 1 9 p))"
    and "r2_stream_ty r = ServerStream \<longrightarrow> chk salt x = (Ok (), x1)" and "r2_salt r1 = Some salt"
    and "require_eih r \<longrightarrow> (\<exists>um u. r2_user_manager r = Some um
             \<and> get_user_by_hash um (decrypt_eih H (r2_method r) key salt
                  (take 16 (drop (salt_len (r2_method r)) hb))) = Some u
             \<and> c = cipher_new C (r2_method r) (user_key u) salt \<and> r2_user_key r1 = Some (user_key u))"
    and "\<not> require_eih r \<longrightarrow> c = cipher_new C (r2_method r) key salt"
proof -
  obtain c ct r' where hc: "header_cipher C H key salt (drop (salt_len (r2_method r)) hb) r = (Ok (c, ct), r')"
    and rest: "(case decrypt_packet C c ct of (None, c) \<Rightarrow> (Err DecryptHeaderChunkError, r', x)
                | (Some p, c) \<Rightarrow> check_header chk now salt p c r' x) = (Ok len, r1, x1)"
    using assms(1) unfolding process_header_def salt_def Let_def by (auto split: prod.splits res.splits)
  then obtain p c' where dec: "decrypt_packet C c ct = (Some p, c')"
    and ch: "check_header chk now salt p c' r' x = (Ok len, r1, x1)"
    by (auto split: prod.splits option.splits)
  have r': "r2_stream_ty r' = r2_stream_ty r"
    using hc by (auto simp: header_cipher_def Let_def split: option.splits if_splits)
  have c1: "p ! 0 = (case r2_stream_ty r of ClientStream \<Rightarrow> 1 | ServerStream \<Rightarrow> 0)"
    "timestamp_ok now (of_be (slice 1 9 p))" "r2_stream_ty r = ServerStream \<longrightarrow> chk salt x = (Ok (), x1)"
    "r2_salt r1 = Some salt" "r2_user_key r1 = r2_user_key r'"
    using ch r' by (auto simp: check_header_def Let_def split: prod.splits res.splits if_splits)
  have c2: "require_eih r \<longrightarrow> (\<exists>um u. r2_user_manager r = Some um
             \<and> get_user_by_hash um (decrypt_eih H (r2_method r) key salt
                  (take 16 (drop (salt_len (r2_method r)) hb))) = Some u
             \<and> c = cipher_new C (r2_method r) (user_key u) salt \<and> r2_user_key r1 = Some (user_key u))"
    "\<not> require_eih r \<longrightarrow> c = cipher_new C (r2_method r) key salt"
    using hc c1(5) by (auto simp: header_cipher_def Let_def split: option.splits if_splits)
  show ?thesis using dec c1(1-4) c2 by (rule that)
qed

lemma round_refused_2022:
  assumes "r2_state r = ReadHeader key" "r2_stream_ty r = ServerStream" "\<forall>salt x. fst (chk salt x) \<noteq> Ok ()"
  shows "\<exists>out r' net' x'. reader_round_2022 C H chk now room (r, net, x) = Return (out, r', net', x')
    \<and> (out = Pending \<or> out = Ready (Ok []) \<longrightarrow> r2_state r' = ReadHeader key \<and> r2_stream_ty r' = ServerStream)
    \<and> (\<forall>bs. out = Ready (Ok bs) \<longrightarrow> bs = [])"
proof -
  have no: "process_header C H chk now key hb r x \<noteq> (Ok len, r1, x1)" for hb len r1 x1
  proof
    assume "process_header C H chk now key hb r x = (Ok len, r1, x1)"
    then have "chk (take (salt_len (r2_method r)) hb) x = (Ok (), x1)"
      by (rule process_header_Ok) (use assms(2) in simp)
    then show False using assms(3) by (metis fst_conv)
  qed
  show ?thesis using assms(1,2) no
    by (auto simp: reader_round_2022_def poll_read_header_def Let_def
          split: prod.splits poll.splits res.splits option.splits)
qed

lemma read_polls_refused_2022:
  assumes "r2_state (fst s) = ReadHeader key" "r2_stream_ty (fst s) = ServerStream"
    "\<forall>salt x. fst (chk salt x) \<noteq> Ok ()" "read_polls_2022 C H chk now rooms s = (Ok got, s')"
  shows "got = []"
  using assms(1,2,4)
proof (induction rooms arbitrary: s got)
  case (Cons room rooms)
  obtain r net x where s: "s = (r, net, x)" by (cases s)
  with Cons.prems have st: "r2_state r = ReadHeader key" "r2_stream_ty r = ServerStream" by simp_all
  obtain out r' net' x' where rnd: "reader_round_2022 C H chk now room s = Return (out, r', net', x')"
    and keep: "out = Pending \<or> out = Ready (Ok []) \<longrightarrow> r2_state r' = ReadHeader key \<and> r2_stream_ty r' = ServerStream"
    and none: "\<forall>bs. out = Ready (Ok bs) \<longrightarrow> bs = []"
    using round_refused_2022 [OF st assms(3)] unfolding s by blast
  have "poll_read_decrypted_2022 C H chk now room s = (out, r', net', x')"
    using rnd by (simp add: poll_read_decrypted_2022.simps)
  then show ?case using Cons.prems(3) keep none Cons.IH [of "(r', net', x')"]
    by (auto split: poll.splits res.splits prod.splits)
qed simp



section \<open>Instances\<close>

definition demo_hash :: hash_ops where
  "demo_hash = \<lparr>blake3_hash = (\<lambda>k. take 16 (k @ replicate 16 0)), blake3_derive_key = (\<lambda>k. k),
     aes_encrypt_block = (\<lambda>k b. rev b), aes_decrypt_block = (\<lambda>k b. rev b)\<rparr>"

definition demo_kind :: cipher_kind where
  "demo_kind = \<lparr>category = CatAead2022, key_len = 2, salt_len = 2, tag_len = 2, iv_len = 0,
     nonce_len = 0, support_eih = True\<rparr>"

lemma demo_hash_laws: "hash_laws demo_hash"
  by (auto simp: hash_laws_def demo_hash_def min_def)

lemma demo_cipher_laws: "cipher_laws counter_cipher demo_kind"
  by (simp add: cipher_laws_def counter_cipher_def demo_kind_def)

definition demo_users :: user_manager where
  "demo_users = add_user (user_new demo_hash (str ''u'') [5, 6]) manager_new"

abbreviation "demo_writer \<equiv> writer2022_with_identity counter_cipher demo_hash ClientStream demo_kind [5, 6] [8, 9] [[1, 2]]"
abbreviation "demo_bytes \<equiv> [8, 9, 0, 0, 0, 0, 0, 0, 0, 0, 0, 0, 0, 0, 0, 0, 6, 5,
  0, 0, 0, 0, 0, 0, 0, 3, 0xE8, 0, 3, 0, 7, 1, 2, 3, 1, 7] :: byte list"
abbreviation "demo_net \<equiv> [WouldBlock, Data demo_bytes]"
abbreviation "demo_end \<equiv> demo_writer\<lparr>w2_cipher := 2, w2_buffer := [], w2_state := AssemblePacket2\<rparr>"

lemma demo_buffer: "w2_buffer demo_writer = [8, 9, 0, 0, 0, 0, 0, 0, 0, 0, 0, 0, 0, 0, 0, 0, 6, 5]"
  by (simp add: writer2022_with_identity_def demo_kind_def demo_hash_def make_eih_def slice_def eval_nat_numeral)

lemma demo_header: "header_plain ClientStream 1000 None 3 = [0, 0, 0, 0, 0, 0, 0, 3, 0xE8, 0, 3]"
  by code_simp

lemma demo_poll:
  "poll_write_encrypted_2022 counter_cipher 1000 [1, 2, 3] (demo_writer, \<lparr>sink_events = [Accept 100], sunk = []\<rparr>)
     = (Ready (Ok 3), demo_end, \<lparr>sink_events = [], sunk = demo_bytes\<rparr>)"
proof -
  let ?w = "demo_writer\<lparr>w2_cipher := 2, w2_buffer := demo_bytes, w2_state := Writing2 0\<rparr>"
  have w: "w2_state demo_writer = AssembleHeader" "w2_stream_ty demo_writer = ClientStream" "w2_request_salt demo_writer = None"
    "w2_cipher demo_writer = 0"
    by (simp_all add: writer2022_with_identity_def counter_cipher_def)
  have enc: "encrypt_packet counter_cipher c m = (m @ [of_nat c, 7], Suc c)" for c m
    by (simp add: counter_cipher_def)
  have "assemble_header counter_cipher 1000 [1, 2, 3] demo_writer = ?w"
    using demo_header by (simp add: assemble_header_def w demo_buffer enc eval_nat_numeral)
  moreover have "write_loop demo_bytes 0 \<lparr>sink_events = [Accept 100], sunk = []\<rparr>
      = (Ready (Ok ()), 36, \<lparr>sink_events = [], sunk = demo_bytes\<rparr>)"
    by (simp add: write_loop.simps poll_write_def)
  ultimately show ?thesis by (simp add: poll_write_encrypted_2022_def w)
qed

theorem aead2022_request_roundtrip_witness:
  "\<exists>s. read_polls_2022 counter_cipher demo_hash (check_nonce_replay exact_bloom (exact_lru 60000) 0 demo_kind) 1010
     (replicate 5 2)
     (reader2022_with_user_manager counter_cipher ServerStream demo_kind [1, 2] (Some demo_users),
      demo_net, context_new exact_bloom exact_lru ServerType) = (Ok [1, 2, 3], s)"
proof -
  let ?ctx = "context_new exact_bloom exact_lru ServerType"
  from send_all_2022.more2 [OF send_one_2022.sent2 [OF demo_poll] send_all_2022.none2]
  have send: "send_all_2022 counter_cipher 1000 [[1, 2, 3]] (demo_writer, \<lparr>sink_events = [Accept 100], sunk = []\<rparr>) [3]
      (demo_end, \<lparr>sink_events = [], sunk = demo_bytes\<rparr>)" .
  have "header_len (reader2022_with_user_manager counter_cipher ServerStream demo_kind [1, 2] (Some demo_users)) = 31"
    by (simp add: header_len_def reader2022_with_user_manager_def require_eih_def header_request_salt_len_def demo_kind_def)
  then have one: "one_read (header_len (reader2022_with_user_manager counter_cipher ServerStream demo_kind [1, 2]
      (Some demo_users))) demo_net" by simp
  have keys: "keys_match demo_hash demo_kind [[1, 2]] [5, 6] [1, 2] (Some demo_users)"
    by (simp add: keys_match_def demo_kind_def demo_users_def user_new_def demo_hash_def)
  have ts: "timestamp_ok 1010 1000" by (simp add: timestamp_ok_def abs_diff_def)
  have chk: "fst (check_nonce_replay exact_bloom (exact_lru 60000) 0 demo_kind [8, 9] ?ctx) = Ok ()"
    by (simp add: check_nonce_replay_def protector_check_and_set_def context_new_def protector_new_def
          exact_lru_def demo_kind_def is_aead_2022_def)
  from aead2022_request_roundtrip [OF demo_cipher_laws demo_hash_laws _ _ _ keys send _ _ one ts chk, of "replicate 5 2"]
  show ?thesis by (auto simp: demo_kind_def)
qed



end
