(* ===== verification/Async_Task.thy ===== *)
theory Async_Task
  imports Socks5 Async_Io
begin

text \<open>
  Tasks over polled streams. An \<open>async\<close> function is a task: it polls, is woken and polls again, and
  ends with a result. The number of polls an \<open>await\<close> may take is bounded by a parameter, and \<open>None\<close>
  is a task that is still waiting after that many polls; the lemmas show which bound is enough.

  The contract of a readable stream is the locale \<open>byte_reader\<close>: the state has a plaintext ahead of
  it, and every poll either consumes an event of the network or delivers a part of that plaintext.
  What \<open>tokio\<close>'s \<open>read_exact\<close> and the readers of the protocol do on such a stream is proved once.
\<close>

section \<open>Tasks\<close>

type_synonym ('s, 'a, 'e) task = "'s \<Rightarrow> (('a, 'e) res \<times> 's) option"

fun await :: "('s \<Rightarrow> ('a, 'e) poll \<times> 's) \<Rightarrow> nat \<Rightarrow> ('s, 'a, 'e) task" where
  "await f 0 s = None"
| "await f (Suc k) s = (case f s of (Pending, s) \<Rightarrow> await f k s | (Ready r, s) \<Rightarrow> Some (r, s))"

definition task_ok :: "'a \<Rightarrow> ('s, 'a, 'e) task" where
  "task_ok a s = Some (Ok a, s)"

definition task_err :: "'e \<Rightarrow> ('s, 'a, 'e) task" where
  "task_err e s = Some (Err e, s)"

definition bind_task :: "('s, 'a, 'e) task \<Rightarrow> ('a \<Rightarrow> ('s, 'b, 'e) task) \<Rightarrow> ('s, 'b, 'e) task" where
  "bind_task m f s =
     (case m s of
        None \<Rightarrow> None
      | Some (Ok a, s) \<Rightarrow> f a s
      | Some (Err e, s) \<Rightarrow> Some (Err e, s)
      | Some (Panic, s) \<Rightarrow> Some (Panic, s))"

text \<open>\<open>Poll::map_err\<close>, as the \<open>AsyncRead\<close> and \<open>AsyncWrite\<close> implementations use it.\<close>

fun poll_map_err :: "('e \<Rightarrow> 'f) \<Rightarrow> ('a, 'e) poll \<Rightarrow> ('a, 'f) poll" where
  "poll_map_err g Pending = Pending"
| "poll_map_err g (Ready r) = Ready (map_err g r)"

lemma poll_map_err_iff [simp]:
  "poll_map_err g p = Pending \<longleftrightarrow> p = Pending"
  "poll_map_err g p = Ready (Ok a) \<longleftrightarrow> p = Ready (Ok a)"
  by (cases p; simp)+

text \<open>\<open>AsyncReadExt::read_exact\<close>: poll for what is missing; no progress is an unexpected end.\<close>

function read_exact_task ::
  "(nat \<Rightarrow> 's \<Rightarrow> (byte list, io_error) poll \<times> 's) \<Rightarrow> nat \<Rightarrow> nat \<Rightarrow> ('s, byte list, io_error) task" where
  "read_exact_task pollr k n s =
     (if n = 0 then Some (Ok [], s)
      else (case await (pollr n) k s of
              None \<Rightarrow> None
            | Some (Err e, s) \<Rightarrow> Some (Err e, s)
            | Some (Panic, s) \<Rightarrow> Some (Panic, s)
            | Some (Ok bs, s) \<Rightarrow>
                if bs = [] then Some (Err io_eof, s)
                else bind_task (read_exact_task pollr k (n - length bs)) (\<lambda>cs. task_ok (bs @ cs)) s))"
  by pat_completeness auto
termination
  by (relation "measure (\<lambda>(pollr, k, n, s). n)") auto

declare read_exact_task.simps [simp del]

text \<open>Reading and dropping \<open>n\<close> bytes through \<open>AsyncReadExt::take\<close> in pieces of at most 64: the end of the
  limit and the end of the stream both stop the loop.\<close>

function skip_task ::
  "(nat \<Rightarrow> 's \<Rightarrow> (byte list, io_error) poll \<times> 's) \<Rightarrow> nat \<Rightarrow> nat \<Rightarrow> ('s, unit, io_error) task" where
  "skip_task pollr k n s =
     (if n = 0 then Some (Ok (), s)
      else (case await (pollr (min 64 n)) k s of
              None \<Rightarrow> None
            | Some (Err e, s) \<Rightarrow> Some (Err e, s)
            | Some (Panic, s) \<Rightarrow> Some (Panic, s)
            | Some (Ok bs, s) \<Rightarrow>
                if bs = [] then Some (Ok (), s) else skip_task pollr k (n - length bs) s))"
  by pat_completeness auto
termination
  by (relation "measure (\<lambda>(pollr, k, n, s). n)") auto

declare skip_task.simps [simp del]

text \<open>\<open>Address::read_from\<close> on a polled stream, with the conversion of its error to \<open>io::Error\<close> that
  the callers apply.\<close>

definition address_read_task :: "(nat \<Rightarrow> ('s, byte list, io_error) task) \<Rightarrow> ('s, address, io_error) task" where
  "address_read_task rx =
     bind_task (rx 1) (\<lambda>addr_type_buf.
       let addr_type = addr_type_buf ! 0 in
       if addr_type = SOCKS5_ADDR_TYPE_IPV4 then
         bind_task (rx 6) (\<lambda>buf.
           task_ok (SocketAddress (V4 (of_be (slice 0 4 buf)) (of_be (slice 4 6 buf)))))
       else if addr_type = SOCKS5_ADDR_TYPE_IPV6 then
         bind_task (rx 18) (\<lambda>bytes_buf.
           let buf = be_units 9 bytes_buf in
           task_ok (SocketAddress (V6 (ipv6_new (take 8 buf)) (buf ! 8) 0 0)))
       else if addr_type = SOCKS5_ADDR_TYPE_DOMAIN_NAME then
         bind_task (rx 1) (\<lambda>length_buf.
           let len = unat (length_buf ! 0) in
           bind_task (rx (len + 2)) (\<lambda>raw_addr.
             let port = of_be (drop len raw_addr); raw_addr = take len raw_addr in
             if valid_utf8 raw_addr then task_ok (DomainNameAddress raw_addr port)
             else task_err (io_error_from_socks5 AddressDomainInvalidEncoding)))
       else task_err (io_error_from_socks5 (AddressTypeNotSupported addr_type)))"

text \<open>Everything a task writes: \<open>sends\<close> drives a polled writer through a list of messages, polling
  with the same message again whenever it was told to wait.\<close>

inductive sends ::
  "(byte list \<Rightarrow> 's \<Rightarrow> (nat, 'e) poll \<times> 's) \<Rightarrow> byte list list \<Rightarrow> 's \<Rightarrow> nat list \<Rightarrow> 's \<Rightarrow> bool"
  for pollw :: "byte list \<Rightarrow> 's \<Rightarrow> (nat, 'e) poll \<times> 's" where
  sends_none: "sends pollw [] s [] s"
| sends_wait: "pollw m s = (Pending, s1) \<Longrightarrow> sends pollw (m # ms) s1 ns s' \<Longrightarrow> sends pollw (m # ms) s ns s'"
| sends_more: "pollw m s = (Ready (Ok n), s1) \<Longrightarrow> sends pollw ms s1 ns s' \<Longrightarrow> sends pollw (m # ms) s (n # ns) s'"

inductive_cases sends_NilE [elim!]: "sends pollw [] s ns s'"

section \<open>The contract of a readable stream\<close>

text \<open>A stream that is known to deliver a text: as long as some of it is ahead, a poll uses up an event of
  the network or delivers a part of it.\<close>

locale byte_source =
  fixes pollr :: "nat \<Rightarrow> 's \<Rightarrow> (byte list, io_error) poll \<times> 's"
    and ahead :: "'s \<Rightarrow> byte list \<Rightarrow> bool"
    and events :: "'s \<Rightarrow> nat"
  assumes poll_source: "ahead s plain \<Longrightarrow> plain \<noteq> [] \<Longrightarrow> 0 < room \<Longrightarrow>
       (\<exists>s'. pollr room s = (Pending, s') \<and> ahead s' plain \<and> events s' < events s)
     \<or> (\<exists>bs rest s'. pollr room s = (Ready (Ok bs), s') \<and> plain = bs @ rest \<and> length bs \<le> room
          \<and> bs \<noteq> [] \<and> ahead s' rest \<and> events s' \<le> events s)"
begin

lemma await_source:
  assumes "ahead s plain" "plain \<noteq> []" "0 < room" "events s < k"
  shows "\<exists>bs rest s'. await (pollr room) k s = Some (Ok bs, s') \<and> plain = bs @ rest \<and> length bs \<le> room
     \<and> bs \<noteq> [] \<and> ahead s' rest \<and> events s' \<le> events s"
  using assms(1,4)
proof (induction k arbitrary: s)
  case (Suc k)
  from poll_source [OF Suc.prems(1) assms(2,3)] show ?case
  proof (elim disjE exE conjE)
    fix s' assume "pollr room s = (Pending, s')" "ahead s' plain" "events s' < events s"
    then show ?thesis using Suc.IH [of s'] Suc.prems(2) by fastforce
  next
    fix bs rest s' assume "pollr room s = (Ready (Ok bs), s')" "plain = bs @ rest" "length bs \<le> room"
      "bs \<noteq> []" "ahead s' rest" "events s' \<le> events s"
    then show ?thesis by auto
  qed
qed simp

lemma exact_source:
  assumes "ahead s plain" "events s < k" "n \<le> length plain"
  shows "\<exists>s'. read_exact_task pollr k n s = Some (Ok (take n plain), s') \<and> ahead s' (drop n plain) \<and> events s' \<le> events s"
  using assms
proof (induction n arbitrary: s plain rule: less_induct)
  case (less n)
  show ?case
  proof (cases "n = 0")
    case True
    then show ?thesis using less.prems by (simp add: read_exact_task.simps)
  next
    case False
    then have "0 < n" "plain \<noteq> []" using less.prems(3) by auto
    from await_source [OF less.prems(1) this(2,1) less.prems(2)] obtain bs rest s1 where
      a: "await (pollr n) k s = Some (Ok bs, s1)" and p: "plain = bs @ rest" "length bs \<le> n"
        "bs \<noteq> []" "ahead s1 rest" "events s1 \<le> events s" by blast
    have "n - length bs < n" using False p(3) by (cases bs) simp_all
    moreover have "events s1 < k" "n - length bs \<le> length rest" using p less.prems(2,3) by simp_all
    ultimately obtain s2 where "read_exact_task pollr k (n - length bs) s1 = Some (Ok (take (n - length bs) rest), s2)"
      "ahead s2 (drop (n - length bs) rest)" "events s2 \<le> events s1" using less.IH p(4) by blast
    then show ?thesis using False a p
      by (subst read_exact_task.simps) (auto simp: bind_task_def task_ok_def)
  qed
qed

lemma exact_ok:
  assumes "ahead s plain" "events s < k" "n \<le> length plain"
  obtains s' where "read_exact_task pollr k n s = Some (Ok (take n plain), s')"
    "ahead s' (drop n plain)" "events s' \<le> events s"
  using exact_source [OF assms] that by blast

lemma skip_ok:
  assumes "ahead s plain" "events s < k" "n \<le> length plain"
  shows "\<exists>s'. skip_task pollr k n s = Some (Ok (), s') \<and> ahead s' (drop n plain) \<and> events s' \<le> events s"
  using assms
proof (induction n arbitrary: s plain rule: less_induct)
  case (less n)
  show ?case
  proof (cases "n = 0")
    case True
    then show ?thesis using less.prems by (simp add: skip_task.simps)
  next
    case False
    then have "0 < min 64 n" "plain \<noteq> []" using less.prems(3) by auto
    from await_source [OF less.prems(1) this(2,1) less.prems(2)] obtain bs rest s1 where
      a: "await (pollr (min 64 n)) k s = Some (Ok bs, s1)" and p: "plain = bs @ rest" "length bs \<le> n"
        "bs \<noteq> []" "ahead s1 rest" "events s1 \<le> events s" by auto
    have "n - length bs < n" using False p(3) by (cases bs) simp_all
    moreover have "events s1 < k" "n - length bs \<le> length rest" using p less.prems(2,3) by simp_all
    ultimately obtain s2 where "skip_task pollr k (n - length bs) s1 = Some (Ok (), s2)"
      "ahead s2 (drop (n - length bs) rest)" "events s2 \<le> events s1" using less.IH p(4) by blast
    then show ?thesis using False a p by (subst skip_task.simps) auto
  qed
qed

text \<open>The address reader on such a stream does what it does on the bytes themselves.\<close>

lemma address_ok:
  assumes "ahead s plain" "events s < k" "read_from (plain, At_Eof) = Ok (a, (rest, At_Eof))"
  obtains s' where "address_read_task (read_exact_task pollr k) s = Some (Ok a, s')"
    "ahead s' rest" "events s' \<le> events s"
proof -
  let ?T = "read_exact_task pollr k"
  have one: "1 \<le> length plain" using assms(3)
    by (auto simp: read_from_def rd_def bind_res_Ok_iff read_exact_Ok_iff)
  let ?p = "drop 1 plain"
  obtain s1 where s1: "?T 1 s = Some (Ok (take 1 plain), s1)" "ahead s1 ?p" "events s1 \<le> events s"
    by (rule exact_ok [OF assms(1,2) one])
  have k1: "events s1 < k" using s1(3) assms(2) by simp
  have step: "\<exists>s'. ?T n s1 = Some (Ok (take n ?p), s') \<and> ahead s' (drop n ?p) \<and> events s' \<le> events s"
    if "n \<le> length ?p" for n
    by (rule exact_ok [OF s1(2) k1 that]) (use s1(3) in auto)
  consider (v4) "take 1 plain ! 0 = SOCKS5_ADDR_TYPE_IPV4" | (v6) "take 1 plain ! 0 = SOCKS5_ADDR_TYPE_IPV6"
    | (dom) "take 1 plain ! 0 = SOCKS5_ADDR_TYPE_DOMAIN_NAME"
    using assms(3) by (auto simp: read_from_def rd_def bind_res_Ok_iff read_exact_Ok_iff Let_def split: if_splits)
  then show thesis
  proof cases
    case v4
    then have "6 \<le> length ?p" "a = SocketAddress (V4 (of_be (slice 0 4 (take 6 ?p))) (of_be (slice 4 6 (take 6 ?p))))"
      "rest = drop 6 ?p"
      using assms(3) by (auto simp: read_from_def rd_def bind_res_Ok_iff read_exact_Ok_iff Let_def)
    then show thesis using step [of 6] s1 v4 that
      by (auto simp: address_read_task_def bind_task_def task_ok_def)
  next
    case v6
    then have "18 \<le> length ?p" "rest = drop 18 ?p"
      "a = SocketAddress (V6 (ipv6_new (take 8 (be_units 9 (take 18 ?p)))) (be_units 9 (take 18 ?p) ! 8) 0 0)"
      using assms(3) by (auto simp: read_from_def rd_def bind_res_Ok_iff read_exact_Ok_iff Let_def)
    then show thesis using step [of 18] s1 v6 that
      by (auto simp: address_read_task_def bind_task_def task_ok_def Let_def)
  next
    case dom
    define len where "len = unat (take 1 ?p ! 0)"
    have d: "1 \<le> length ?p" "len + 2 \<le> length (drop 1 ?p)" "rest = drop (len + 2) (drop 1 ?p)"
      "a = DomainNameAddress (take len (take (len + 2) (drop 1 ?p))) (of_be (drop len (take (len + 2) (drop 1 ?p))))"
      "valid_utf8 (take len (take (len + 2) (drop 1 ?p)))"
      using assms(3) dom
      by (auto simp: read_from_def rd_def bind_res_Ok_iff read_exact_Ok_iff Let_def len_def split: if_splits)
    obtain s2 where s2: "?T 1 s1 = Some (Ok (take 1 ?p), s2)" "ahead s2 (drop 1 ?p)" "events s2 \<le> events s1"
      by (rule exact_ok [OF s1(2) k1 d(1)])
    have "events s2 < k" using s2(3) k1 by simp
    from s2(2) this d(2) obtain s3 where s3: "?T (len + 2) s2 = Some (Ok (take (len + 2) (drop 1 ?p)), s3)"
      "ahead s3 (drop (len + 2) (drop 1 ?p))" "events s3 \<le> events s2" by (rule exact_ok)
    have "address_read_task ?T s = Some (Ok a, s3)"
      using s1(1) s2(1) s3(1) dom d(4,5)
      by (auto simp: address_read_task_def bind_task_def task_ok_def Let_def len_def simp del: take_take drop_drop)
    moreover have "events s3 \<le> events s" using s3(3) s2(3) s1(3) by simp
    ultimately show thesis using that s3(2) d(3) by simp
  qed
qed

end

text \<open>A stream that delivers a text and then ends.\<close>

locale byte_reader =
  fixes pollr :: "nat \<Rightarrow> 's \<Rightarrow> (byte list, io_error) poll \<times> 's"
    and ahead :: "'s \<Rightarrow> byte list \<Rightarrow> bool"
    and events :: "'s \<Rightarrow> nat"
  assumes poll_cases: "ahead s plain \<Longrightarrow> 0 < room \<Longrightarrow>
       (\<exists>s'. pollr room s = (Pending, s') \<and> ahead s' plain \<and> events s' < events s)
     \<or> (\<exists>bs rest s'. pollr room s = (Ready (Ok bs), s') \<and> plain = bs @ rest \<and> length bs \<le> room
          \<and> (bs = [] \<longrightarrow> plain = []) \<and> ahead s' rest \<and> events s' \<le> events s)"

sublocale byte_reader \<subseteq> byte_source
proof unfold_locales
  fix s plain room assume "ahead s plain" "plain \<noteq> []" "(0 :: nat) < room"
  then show "(\<exists>s'. pollr room s = (Pending, s') \<and> ahead s' plain \<and> events s' < events s)
     \<or> (\<exists>bs rest s'. pollr room s = (Ready (Ok bs), s') \<and> plain = bs @ rest \<and> length bs \<le> room
          \<and> bs \<noteq> [] \<and> ahead s' rest \<and> events s' \<le> events s)"
    using poll_cases [of s plain room] by blast
qed

context byte_reader
begin

text \<open>At the end of the text a read returns nothing, and a read that needs more than there is fails.\<close>

lemma await_end:
  assumes "ahead s []" "0 < room" "events s < k"
  shows "\<exists>s'. await (pollr room) k s = Some (Ok [], s') \<and> ahead s' [] \<and> events s' \<le> events s"
  using assms(1,3)
proof (induction k arbitrary: s)
  case (Suc k)
  from poll_cases [OF Suc.prems(1) assms(2)] show ?case
    using Suc.IH Suc.prems(2) by fastforce
qed simp

lemma exact_short:
  assumes "ahead s plain" "events s < k" "length plain < n"
  shows "\<exists>s'. read_exact_task pollr k n s = Some (Err io_eof, s')"
  using assms
proof (induction n arbitrary: s plain rule: less_induct)
  case (less n)
  have n: "0 < n" using less.prems(3) by simp
  show ?case
  proof (cases "plain = []")
    case True
    from await_end [OF less.prems(1) [unfolded True] n less.prems(2)] n show ?thesis
      by (auto simp: read_exact_task.simps)
  next
    case False
    from await_source [OF less.prems(1) False n less.prems(2)] obtain bs rest s1 where
      a: "await (pollr n) k s = Some (Ok bs, s1)" and p: "plain = bs @ rest" "length bs \<le> n"
        "bs \<noteq> []" "ahead s1 rest" "events s1 \<le> events s" by blast
    have "n - length bs < n" using n p(3) by (cases bs) simp_all
    moreover have "events s1 < k" "length rest < n - length bs" using p less.prems(2,3) by simp_all
    ultimately obtain s2 where "read_exact_task pollr k (n - length bs) s1 = Some (Err io_eof, s2)"
      using less.IH p(4) by blast
    then show ?thesis using n a p(3)
      by (subst read_exact_task.simps) (auto simp: bind_task_def)
  qed
qed

end

text \<open>A reading task that polls once for each given buffer size collects the plaintext in order, and
  all of it once it has polled often enough.\<close>

fun collect ::
  "(nat \<Rightarrow> 's \<Rightarrow> (byte list, io_error) poll \<times> 's) \<Rightarrow> nat list \<Rightarrow> 's \<Rightarrow> (byte list, io_error) res \<times> 's" where
  "collect pollr [] s = (Ok [], s)"
| "collect pollr (room # rooms) s =
     (case pollr room s of
        (Pending, s) \<Rightarrow> collect pollr rooms s
      | (Ready (Err e), s) \<Rightarrow> (Err e, s)
      | (Ready Panic, s) \<Rightarrow> (Panic, s)
      | (Ready (Ok bs), s) \<Rightarrow>
          (case collect pollr rooms s of (Ok cs, s) \<Rightarrow> (Ok (bs @ cs), s) | out \<Rightarrow> out))"

context byte_reader
begin

lemma collect_sound:
  assumes "ahead s plain" "\<forall>room \<in> set rooms. 0 < room"
  shows "\<exists>got rest s'. collect pollr rooms s = (Ok got, s') \<and> got @ rest = plain \<and> ahead s' rest
           \<and> (events s + length plain \<le> length rooms \<longrightarrow> rest = [])"
  using assms
proof (induction rooms arbitrary: s plain)
  case (Cons room rooms)
  have "0 < room" using Cons.prems by simp
  from poll_cases [OF Cons.prems(1) this] show ?case
  proof (elim disjE exE conjE)
    fix s1 assume p: "pollr room s = (Pending, s1)" "ahead s1 plain" "events s1 < events s"
    from Cons.IH [OF p(2)] Cons.prems(2) obtain got rest s' where
      "collect pollr rooms s1 = (Ok got, s')" "got @ rest = plain" "ahead s' rest"
      "events s1 + length plain \<le> length rooms \<longrightarrow> rest = []" by auto
    then show ?thesis using p by auto
  next
    fix bs rest s1 assume p: "pollr room s = (Ready (Ok bs), s1)" "plain = bs @ rest" "bs = [] \<longrightarrow> plain = []"
      "ahead s1 rest" "events s1 \<le> events s"
    from Cons.IH [OF p(4)] Cons.prems(2) obtain cs rest' s' where c:
      "collect pollr rooms s1 = (Ok cs, s')" "cs @ rest' = rest" "ahead s' rest'"
      "events s1 + length rest \<le> length rooms \<longrightarrow> rest' = []" by auto
    moreover have "rest' = []" if "events s + length plain \<le> Suc (length rooms)"
      using that c p(2,3,5) by (cases bs) auto
    ultimately show ?thesis using p by auto
  qed
qed (metis append_Nil add_is_0 collect.simps(1) le_zero_eq length_0_conv list.size(3))

end

section \<open>The contract of a writer that sends whole messages\<close>

text \<open>
  A writer that, once it took a message, reports it as written only when all of it is on the wire. The
  state has taken a list of messages (\<open>wrote\<close>); an idle writer takes the next one, cut to its maximal
  size, and a busy one goes on with the message it has. \<open>wire\<close> is what the messages look like on the
  wire, and \<open>sent\<close> what the transport has accepted.
\<close>

locale message_writer =
  fixes pollw :: "byte list \<Rightarrow> 's \<Rightarrow> (nat, 'e) poll \<times> 's"
    and wrote :: "'s \<Rightarrow> byte list list \<Rightarrow> bool"
    and idle :: "'s \<Rightarrow> bool"
    and cut :: "byte list \<Rightarrow> byte list"
    and wire :: "byte list list \<Rightarrow> byte list"
    and sent :: "'s \<Rightarrow> byte list"
  assumes step_wrote: "pollw m s = (out, s') \<Longrightarrow> wrote s ps \<Longrightarrow> wrote s' (if idle s then ps @ [cut m] else ps)"
    and step_pending: "pollw m s = (Pending, s') \<Longrightarrow> wrote s ps \<Longrightarrow> \<not> idle s'"
    and step_done: "pollw m s = (Ready (Ok n), s') \<Longrightarrow> wrote s ps \<Longrightarrow> n = length (cut m) \<and> idle s'"
    and step_sent: "pollw m s = (Ready (Ok n), s') \<Longrightarrow> wrote s' ps \<Longrightarrow> sent s' = wire ps"
begin

lemma sends_wrote:
  assumes "sends pollw ms s ns s'" "wrote s ps"
  shows "wrote s' (ps @ map cut (if idle s then ms else tl ms)) \<and> ns = map (length \<circ> cut) ms
    \<and> (ms \<noteq> [] \<longrightarrow> idle s' \<and> sent s' = wire (ps @ map cut (if idle s then ms else tl ms)))"
  using assms
proof (induction arbitrary: ps rule: sends.induct)
  case (sends_wait m s s1 ms ns s')
  from sends_wait.IH [OF step_wrote [OF sends_wait.hyps(1) sends_wait.prems]]
    step_pending [OF sends_wait.hyps(1) sends_wait.prems]
  show ?case by (auto split: if_splits)
next
  case (sends_more m s n s1 ms ns s')
  let ?qs = "if idle s then ps @ [cut m] else ps"
  note wrote1 = step_wrote [OF sends_more.hyps(1) sends_more.prems]
  note done1 = step_done [OF sends_more.hyps(1) sends_more.prems]
  have "sent s' = wire ?qs \<and> idle s'" if "ms = []"
    using that sends_more.hyps(2) step_sent [OF sends_more.hyps(1) wrote1] done1 by auto
  then show ?case using sends_more.IH [OF wrote1] done1 by (cases "ms = []") auto
qed simp

lemma sends_wire:
  assumes "sends pollw ms s ns s'" "wrote s []" "idle s" "ms \<noteq> []"
  shows "sent s' = wire (map cut ms)" "ns = map (length \<circ> cut) ms"
  using sends_wrote [OF assms(1,2)] assms(3,4) by simp_all

end

end
