(* ===== verification/Tcp_Stream.thy ===== *)
theory Tcp_Stream
  imports Async_Task Tcp_Aead
begin

text \<open>
  The stream-cipher tunnel of \<open>shadowsocks/src/relay/tcprelay/stream.rs\<close>: an initialisation vector,
  then the payload under a key stream with no framing, so what a read delivers depends on how the
  network cuts the bytes.
\<close>

section \<open>Reader\<close>

datatype stream_error = StreamIo io_error | StreamDecryptError

fun io_error_from_stream :: "stream_error \<Rightarrow> io_error" where
  "io_error_from_stream (StreamIo e) = e"
| "io_error_from_stream StreamDecryptError = io_other ''decrypt failed''"

datatype stream_read_state = WaitIv "byte list" | StreamRead

record 'c stream_reader =
  sr_state :: stream_read_state
  sr_cipher :: "'c option"
  sr_buffer :: "byte list"
  sr_method :: cipher_kind
  sr_iv :: "byte list option"
  sr_handshaked :: bool

definition stream_reader_new :: "'c cipher_ops \<Rightarrow> cipher_kind \<Rightarrow> byte list \<Rightarrow> 'c stream_reader" where
  "stream_reader_new C kind key =
     (if 0 < iv_len kind then
        \<lparr>sr_state = WaitIv key, sr_cipher = None, sr_buffer = [], sr_method = kind, sr_iv = None,
         sr_handshaked = False\<rparr>
      else
        \<lparr>sr_state = StreamRead, sr_cipher = Some (cipher_new C kind key []), sr_buffer = [],
         sr_method = kind, sr_iv = Some [], sr_handshaked = False\<rparr>)"

text \<open>The vector is checked against the replay filter before the cipher is made.\<close>

definition poll_read_iv ::
  "'c cipher_ops \<Rightarrow> (byte list \<Rightarrow> 'x \<Rightarrow> (unit, io_error) res \<times> 'x) \<Rightarrow> byte list \<Rightarrow> 'c stream_reader \<Rightarrow> net \<Rightarrow> 'x
     \<Rightarrow> (unit, stream_error) poll \<times> 'c stream_reader \<times> net \<times> 'x" where
  "poll_read_iv C chk key r net x =
     (let n = iv_len (sr_method r) in
      case poll_read_exact n (sr_buffer r) net of
        (Pending, buffer, net) \<Rightarrow> (Pending, r\<lparr>sr_buffer := buffer\<rparr>, net, x)
      | (Ready (Err e), buffer, net) \<Rightarrow> (Ready (Err (StreamIo e)), r\<lparr>sr_buffer := buffer\<rparr>, net, x)
      | (Ready Panic, buffer, net) \<Rightarrow> (Ready Panic, r\<lparr>sr_buffer := buffer\<rparr>, net, x)
      | (Ready (Ok k), buffer, net) \<Rightarrow>
          if k < n then (Ready (Err (StreamIo io_eof)), r\<lparr>sr_buffer := buffer\<rparr>, net, x)
          else
            let iv = take n buffer; r = r\<lparr>sr_buffer := buffer\<rparr> in
            (case chk iv x of
               (Err e, x) \<Rightarrow> (Ready (Err (StreamIo e)), r, net, x)
             | (Panic, x) \<Rightarrow> (Ready Panic, r, net, x)
             | (Ok u, x) \<Rightarrow>
                 (Ready (Ok ()), r\<lparr>sr_iv := Some iv, sr_cipher := Some (cipher_new C (sr_method r) key iv)\<rparr>, net, x)))"

text \<open>The \<open>Read\<close> state: one read of the transport straight into the caller's buffer.\<close>

definition stream_read_plain ::
  "'c cipher_ops \<Rightarrow> nat \<Rightarrow> 'c stream_reader \<times> net \<times> 'x
     \<Rightarrow> (byte list, stream_error) poll \<times> 'c stream_reader \<times> net \<times> 'x" where
  "stream_read_plain C room s =
     (case s of (r, net, x) \<Rightarrow>
      case poll_read room net of
        (Pending, net) \<Rightarrow> (Pending, r, net, x)
      | (Ready (Err e), net) \<Rightarrow> (Ready (Err (StreamIo e)), r, net, x)
      | (Ready Panic, net) \<Rightarrow> (Ready Panic, r, net, x)
      | (Ready (Ok m), net) \<Rightarrow>
          if m = [] then (Ready (Ok []), r, net, x)
          else (case sr_cipher r of
                  None \<Rightarrow> (Ready Panic, r, net, x)
                | Some c \<Rightarrow>
                    (case decrypt_packet C c m of
                       (None, c) \<Rightarrow> (Ready (Err StreamDecryptError), r\<lparr>sr_cipher := Some c\<rparr>, net, x)
                     | (Some p, c) \<Rightarrow> (Ready (Ok p), r\<lparr>sr_cipher := Some c\<rparr>, net, x))))"

text \<open>The loop of \<open>poll_read_decrypted\<close> goes round at most once, from \<open>WaitIv\<close> to \<open>Read\<close>.\<close>

definition poll_read_stream ::
  "'c cipher_ops \<Rightarrow> (byte list \<Rightarrow> 'x \<Rightarrow> (unit, io_error) res \<times> 'x) \<Rightarrow> nat \<Rightarrow> 'c stream_reader \<times> net \<times> 'x
     \<Rightarrow> (byte list, stream_error) poll \<times> 'c stream_reader \<times> net \<times> 'x" where
  "poll_read_stream C chk room s =
     (case s of (r, net, x) \<Rightarrow>
      case sr_state r of
        WaitIv key \<Rightarrow>
          (case poll_read_iv C chk key r net x of
             (Pending, r, net, x) \<Rightarrow> (Pending, r, net, x)
           | (Ready (Err e), r, net, x) \<Rightarrow> (Ready (Err e), r, net, x)
           | (Ready Panic, r, net, x) \<Rightarrow> (Ready Panic, r, net, x)
           | (Ready (Ok u), r, net, x) \<Rightarrow>
               stream_read_plain C room
                 (r\<lparr>sr_buffer := [], sr_state := StreamRead, sr_handshaked := True\<rparr>, net, x))
      | StreamRead \<Rightarrow> stream_read_plain C room s)"

section \<open>Writer\<close>

record 'c stream_writer =
  sw_cipher :: 'c
  sw_buffer :: "byte list"
  sw_state :: encrypt_write_state
  sw_iv :: "byte list"

definition stream_writer_new :: "'c cipher_ops \<Rightarrow> cipher_kind \<Rightarrow> byte list \<Rightarrow> byte list \<Rightarrow> 'c stream_writer" where
  "stream_writer_new C kind key nonce =
     \<lparr>sw_cipher = cipher_new C kind key nonce, sw_buffer = nonce, sw_state = AssemblePacket, sw_iv = nonce\<rparr>"

definition assemble_stream :: "'c cipher_ops \<Rightarrow> byte list \<Rightarrow> 'c stream_writer \<Rightarrow> 'c stream_writer" where
  "assemble_stream C buf w =
     (let (ct, c) = encrypt_packet C (sw_cipher w) buf
      in w\<lparr>sw_cipher := c, sw_buffer := sw_buffer w @ ct, sw_state := Writing 0\<rparr>)"

definition poll_write_stream ::
  "'c cipher_ops \<Rightarrow> byte list \<Rightarrow> 'c stream_writer \<times> sink \<Rightarrow> (nat, stream_error) poll \<times> 'c stream_writer \<times> sink" where
  "poll_write_stream C buf s =
     (case s of (w, snk) \<Rightarrow>
      let w = (case sw_state w of AssemblePacket \<Rightarrow> assemble_stream C buf w | Writing pos \<Rightarrow> w);
          pos = (case sw_state w of AssemblePacket \<Rightarrow> 0 | Writing pos \<Rightarrow> pos)
      in (case write_loop (sw_buffer w) pos snk of
            (Pending, pos, snk) \<Rightarrow> (Pending, w\<lparr>sw_state := Writing pos\<rparr>, snk)
          | (Ready (Err e), pos, snk) \<Rightarrow> (Ready (Err (StreamIo e)), w\<lparr>sw_state := Writing pos\<rparr>, snk)
          | (Ready Panic, pos, snk) \<Rightarrow> (Ready Panic, w\<lparr>sw_state := Writing pos\<rparr>, snk)
          | (Ready (Ok u), pos, snk) \<Rightarrow>
              (Ready (Ok (length buf)), w\<lparr>sw_state := AssemblePacket, sw_buffer := []\<rparr>, snk)))"

section \<open>The key stream\<close>

text \<open>What the tunnel relies on: the ciphertext has the length of the plaintext, encrypting a text in
  two parts is encrypting it at once, and decryption in the same state undoes encryption.\<close>

definition key_stream_laws :: "'c cipher_ops \<Rightarrow> bool" where
  "key_stream_laws C \<longleftrightarrow>
     (\<forall>c m. decrypt_packet C c (fst (encrypt_packet C c m)) = (Some m, snd (encrypt_packet C c m))
        \<and> length (fst (encrypt_packet C c m)) = length m)
     \<and> (\<forall>c m n. encrypt_packet C c (m @ n) =
          (fst (encrypt_packet C c m) @ fst (encrypt_packet C (snd (encrypt_packet C c m)) n),
           snd (encrypt_packet C (snd (encrypt_packet C c m)) n)))"

lemma key_stream_cut:
  assumes "key_stream_laws C" "fst (encrypt_packet C c plain) = bs @ cs"
  shows "decrypt_packet C c bs = (Some (take (length bs) plain), snd (encrypt_packet C c (take (length bs) plain)))
    \<and> fst (encrypt_packet C (snd (encrypt_packet C c (take (length bs) plain))) (drop (length bs) plain)) = cs"
proof -
  let ?a = "take (length bs) plain" and ?b = "drop (length bs) plain"
  have split: "fst (encrypt_packet C c plain)
      = fst (encrypt_packet C c ?a) @ fst (encrypt_packet C (snd (encrypt_packet C c ?a)) ?b)"
    using assms(1) unfolding key_stream_laws_def by (metis append_take_drop_id fst_conv)
  have "length (fst (encrypt_packet C c plain)) = length plain" and la: "length (fst (encrypt_packet C c ?a)) = length ?a"
    using assms(1) by (simp_all add: key_stream_laws_def)
  then have "length bs \<le> length plain" using assms(2) by simp
  then have "fst (encrypt_packet C c ?a) = bs" "fst (encrypt_packet C (snd (encrypt_packet C c ?a)) ?b) = cs"
    using split assms(2) la by (simp_all add: append_eq_append_conv)
  moreover have "decrypt_packet C c (fst (encrypt_packet C c ?a)) = (Some ?a, snd (encrypt_packet C c ?a))"
    using assms(1) by (simp add: key_stream_laws_def)
  ultimately show ?thesis by simp
qed

section \<open>The writer sends whole messages\<close>

definition stream_wrote ::
  "'c cipher_ops \<Rightarrow> 'c \<Rightarrow> byte list \<Rightarrow> 'c stream_writer \<times> sink \<Rightarrow> byte list list \<Rightarrow> bool" where
  "stream_wrote C c0 iv s ps \<longleftrightarrow>
     (case s of (w, snk) \<Rightarrow>
      key_stream_laws C
      \<and> (\<exists>ct. sunk snk @ (case sw_state w of AssemblePacket \<Rightarrow> sw_buffer w | Writing pos \<Rightarrow> drop pos (sw_buffer w)) = iv @ ct
           \<and> (\<forall>m. encrypt_packet C c0 (concat ps @ m)
                 = (ct @ fst (encrypt_packet C (sw_cipher w) m), snd (encrypt_packet C (sw_cipher w) m))))
      \<and> (\<forall>pos. sw_state w = Writing pos \<longrightarrow> pos \<le> length (sw_buffer w)))"

definition stream_wire :: "'c cipher_ops \<Rightarrow> 'c \<Rightarrow> byte list \<Rightarrow> byte list list \<Rightarrow> byte list" where
  "stream_wire C c0 iv ps = iv @ fst (encrypt_packet C c0 (concat ps))"

lemma stream_wrote_assemble:
  assumes "stream_wrote C c0 iv (w, snk) ps" "sw_state w = AssemblePacket"
  shows "stream_wrote C c0 iv (assemble_stream C m w, snk) (ps @ [m])"
proof -
  obtain ct where laws: "key_stream_laws C" and t: "sunk snk @ sw_buffer w = iv @ ct"
    and e: "\<forall>m. encrypt_packet C c0 (concat ps @ m)
       = (ct @ fst (encrypt_packet C (sw_cipher w) m), snd (encrypt_packet C (sw_cipher w) m))"
    using assms by (auto simp: stream_wrote_def)
  obtain x c where x: "encrypt_packet C (sw_cipher w) m = (x, c)" by fastforce
  have "encrypt_packet C c0 (concat (ps @ [m]) @ n) = ((ct @ x) @ fst (encrypt_packet C c n), snd (encrypt_packet C c n))" for n
    using e [rule_format, of "m @ n"] laws x unfolding key_stream_laws_def by simp
  then show ?thesis using laws t x
    by (auto simp: stream_wrote_def assemble_stream_def intro!: exI [of _ "ct @ x"])
qed

lemma stream_wrote_loop:
  assumes "stream_wrote C c0 iv (w, snk) ps" "sw_state w = Writing pos"
    and "write_loop (sw_buffer w) pos snk = (out, pos', snk')"
  shows "stream_wrote C c0 iv (w\<lparr>sw_state := Writing pos'\<rparr>, snk') ps"
    and "out = Ready (Ok ()) \<Longrightarrow> stream_wrote C c0 iv (w\<lparr>sw_state := AssemblePacket, sw_buffer := []\<rparr>, snk') ps"
proof -
  have "pos \<le> length (sw_buffer w)" using assms(1,2) by (simp add: stream_wrote_def)
  note l = write_loop_sunk [OF assms(3) this]
  then have "slice pos pos' (sw_buffer w) @ drop pos' (sw_buffer w) = drop pos (sw_buffer w)"
    unfolding slice_def by (metis append_take_drop_id drop_drop le_add_diff_inverse2)
  moreover have "slice pos pos' (sw_buffer w) = drop pos (sw_buffer w)" if "out = Ready (Ok ())"
    using l that by (simp add: slice_def)
  ultimately show "stream_wrote C c0 iv (w\<lparr>sw_state := Writing pos'\<rparr>, snk') ps"
    and "out = Ready (Ok ()) \<Longrightarrow> stream_wrote C c0 iv (w\<lparr>sw_state := AssemblePacket, sw_buffer := []\<rparr>, snk') ps"
    using assms(1,2) l by (auto simp: stream_wrote_def)
qed

lemma poll_write_stream_step:
  assumes "poll_write_stream C m (w, snk) = (out, s')" "stream_wrote C c0 iv (w, snk) ps"
  shows "stream_wrote C c0 iv s' (if sw_state w = AssemblePacket then ps @ [m] else ps)
    \<and> (out = Pending \<longrightarrow> sw_state (fst s') \<noteq> AssemblePacket)
    \<and> (\<forall>n. out = Ready (Ok n) \<longrightarrow> n = length m \<and> sw_state (fst s') = AssemblePacket \<and> sw_buffer (fst s') = [])"
proof -
  define w1 where "w1 = (case sw_state w of AssemblePacket \<Rightarrow> assemble_stream C m w | Writing pos \<Rightarrow> w)"
  define qs where "qs = (if sw_state w = AssemblePacket then ps @ [m] else ps)"
  obtain pos where pos: "sw_state w1 = Writing pos"
    by (cases "sw_state w") (auto simp: w1_def assemble_stream_def case_prod_beta)
  have wrote: "stream_wrote C c0 iv (w1, snk) qs"
    using assms(2) stream_wrote_assemble [OF assms(2)] by (cases "sw_state w") (auto simp: w1_def qs_def)
  obtain o1 pos' snk' where l: "write_loop (sw_buffer w1) pos snk = (o1, pos', snk')" by (metis prod_cases3)
  have "(out, s') = (case o1 of
       Pending \<Rightarrow> (Pending, w1\<lparr>sw_state := Writing pos'\<rparr>, snk')
     | Ready (Err e) \<Rightarrow> (Ready (Err (StreamIo e)), w1\<lparr>sw_state := Writing pos'\<rparr>, snk')
     | Ready Panic \<Rightarrow> (Ready Panic, w1\<lparr>sw_state := Writing pos'\<rparr>, snk')
     | Ready (Ok u) \<Rightarrow> (Ready (Ok (length m)), w1\<lparr>sw_state := AssemblePacket, sw_buffer := []\<rparr>, snk'))"
    using assms(1) l pos by (simp add: poll_write_stream_def w1_def [symmetric] Let_def split: poll.splits res.splits)
  then show ?thesis using stream_wrote_loop [OF wrote pos l]
    unfolding qs_def [symmetric] by (auto split: poll.splits res.splits)
qed

interpretation stream_writer: message_writer "poll_write_stream C" "stream_wrote C c0 iv"
    "\<lambda>s. sw_state (fst s) = AssemblePacket" "\<lambda>m. m" "stream_wire C c0 iv" "\<lambda>s. sunk (snd s)"
  for C :: "'c cipher_ops" and c0 iv
proof unfold_locales
  fix m s s' ps and out :: "(nat, stream_error) poll"
  assume a: "poll_write_stream C m s = (out, s')" "stream_wrote C c0 iv s ps"
  show "stream_wrote C c0 iv s' (if sw_state (fst s) = AssemblePacket then ps @ [m] else ps)"
    using poll_write_stream_step [of C m "fst s" "snd s"] a by simp
next
  fix m s s' ps assume "poll_write_stream C m s = (Pending, s')" "stream_wrote C c0 iv s ps"
  then show "sw_state (fst s') \<noteq> AssemblePacket"
    using poll_write_stream_step [of C m "fst s" "snd s"] by simp
next
  fix m s n s' ps assume "poll_write_stream C m s = (Ready (Ok n), s')" "stream_wrote C c0 iv s ps"
  then show "n = length m \<and> sw_state (fst s') = AssemblePacket"
    using poll_write_stream_step [of C m "fst s" "snd s"] by simp
next
  fix m s n s' ps assume a: "poll_write_stream C m s = (Ready (Ok n), s')" "stream_wrote C c0 iv s' ps"
  then have idle: "sw_state (fst s') = AssemblePacket" "sw_buffer (fst s') = []"
    by (auto simp: poll_write_stream_def Let_def split: prod.splits poll.splits res.splits)
  from a(2) obtain ct where ct: "key_stream_laws C" "sunk (snd s') = iv @ ct"
    "\<forall>m. encrypt_packet C c0 (concat ps @ m)
       = (ct @ fst (encrypt_packet C (sw_cipher (fst s')) m), snd (encrypt_packet C (sw_cipher (fst s')) m))"
    using idle by (auto simp: stream_wrote_def case_prod_beta)
  have "length (fst (encrypt_packet C (sw_cipher (fst s')) [])) = 0"
    using ct(1) unfolding key_stream_laws_def by simp
  then show "sunk (snd s') = stream_wire C c0 iv ps"
    using ct(2) ct(3) [rule_format, of "[]"] by (simp add: stream_wire_def)
qed

section \<open>The reader recovers the plaintext\<close>

definition stream_ahead ::
  "'c cipher_ops \<Rightarrow> (byte list \<Rightarrow> 'x \<Rightarrow> (unit, io_error) res \<times> 'x) \<Rightarrow> 'c stream_reader \<times> net \<times> 'x \<Rightarrow> byte list \<Rightarrow> bool" where
  "stream_ahead C chk s plain \<longleftrightarrow>
     (case s of (r, net, x) \<Rightarrow>
      key_stream_laws C \<and> net_ok net \<and>
      (case sr_state r of
         WaitIv key \<Rightarrow>
           (\<exists>iv. length iv = iv_len (sr_method r) \<and> iv \<noteq> [] \<and> fst (chk iv x) = Ok ()
              \<and> length (sr_buffer r) \<le> length iv
              \<and> sr_buffer r @ net_bytes net = iv @ fst (encrypt_packet C (cipher_new C (sr_method r) key iv) plain))
       | StreamRead \<Rightarrow> (\<exists>c. sr_cipher r = Some c \<and> net_bytes net = fst (encrypt_packet C c plain))))"

definition stream_pollr ::
  "'c cipher_ops \<Rightarrow> (byte list \<Rightarrow> 'x \<Rightarrow> (unit, io_error) res \<times> 'x) \<Rightarrow> nat \<Rightarrow> 'c stream_reader \<times> net \<times> 'x
     \<Rightarrow> (byte list, io_error) poll \<times> 'c stream_reader \<times> net \<times> 'x" where
  "stream_pollr C chk room s =
     (case poll_read_stream C chk room s of (out, s) \<Rightarrow> (poll_map_err io_error_from_stream out, s))"

lemma stream_read_plain_ahead:
  assumes "key_stream_laws C" "net_ok net" "sr_state r = StreamRead" "sr_cipher r = Some c"
    and "net_bytes net = fst (encrypt_packet C c plain)" "0 < room"
  shows "(\<exists>s'. stream_read_plain C room (r, net, x) = (Pending, s') \<and> stream_ahead C chk s' plain
            \<and> length (fst (snd s')) < length net)
       \<or> (\<exists>bs rest s'. stream_read_plain C room (r, net, x) = (Ready (Ok bs), s') \<and> plain = bs @ rest
            \<and> length bs \<le> room \<and> (bs = [] \<longrightarrow> plain = []) \<and> stream_ahead C chk s' rest
            \<and> length (fst (snd s')) \<le> length net)"
  using assms(2,6)
proof (cases rule: poll_read_ok_cases)
  case (1 net')
  then show ?thesis using assms by (auto simp: stream_read_plain_def stream_ahead_def)
next
  case 2
  then have "fst (encrypt_packet C c plain) = []" using assms(5) by simp
  then have "plain = []" using assms(1) unfolding key_stream_laws_def by (metis length_0_conv)
  then show ?thesis using 2 assms by (auto simp: stream_read_plain_def stream_ahead_def)
next
  case (3 bs net')
  have cut: "fst (encrypt_packet C c plain) = bs @ net_bytes net'" using 3(5) assms(5) by simp
  note k = key_stream_cut [OF assms(1) cut]
  have "length (fst (encrypt_packet C c plain)) = length plain" using assms(1) by (simp add: key_stream_laws_def)
  then have "length bs \<le> length plain" using cut by simp
  then have "take (length bs) plain \<noteq> []" using 3(2) by auto
  then show ?thesis using 3 k assms
    by (auto simp: stream_read_plain_def stream_ahead_def intro!: exI [of _ "drop (length bs) plain"])
qed

lemma poll_read_stream_ahead:
  assumes "stream_ahead C chk (r, net, x) plain" "0 < room"
  shows "(\<exists>s'. poll_read_stream C chk room (r, net, x) = (Pending, s') \<and> stream_ahead C chk s' plain
            \<and> length (fst (snd s')) < length net)
       \<or> (\<exists>bs rest s'. poll_read_stream C chk room (r, net, x) = (Ready (Ok bs), s') \<and> plain = bs @ rest
            \<and> length bs \<le> room \<and> (bs = [] \<longrightarrow> plain = []) \<and> stream_ahead C chk s' rest
            \<and> length (fst (snd s')) \<le> length net)"
proof (cases "sr_state r")
  case StreamRead
  then obtain c where "key_stream_laws C" "net_ok net" "sr_cipher r = Some c"
    "net_bytes net = fst (encrypt_packet C c plain)" using assms(1) by (auto simp: stream_ahead_def)
  from stream_read_plain_ahead [OF this(1,2) StreamRead this(3,4) assms(2)] StreamRead
  show ?thesis by (simp add: poll_read_stream_def)
next
  case (WaitIv key)
  let ?n = "iv_len (sr_method r)"
  obtain iv where laws: "key_stream_laws C" and ok: "net_ok net" and iv: "length iv = ?n" "iv \<noteq> []" "fst (chk iv x) = Ok ()"
      "length (sr_buffer r) \<le> ?n"
    and bytes: "sr_buffer r @ net_bytes net = iv @ fst (encrypt_packet C (cipher_new C (sr_method r) key iv) plain)"
    using assms(1) WaitIv by (auto simp: stream_ahead_def)
  have pos: "0 < ?n" using iv(1,2) by (cases iv) auto
  obtain x1 where chk: "chk iv x = (Ok (), x1)" using iv(3) by (cases "chk iv x") simp
  from poll_read_exact_sim [OF ok bytes iv(1) pos iv(4)] show ?thesis
  proof (elim disjE exE conjE)
    fix b net' assume "poll_read_exact ?n (sr_buffer r) net = (Pending, b, net')" "net_ok net'"
      "b @ net_bytes net' = iv @ fst (encrypt_packet C (cipher_new C (sr_method r) key iv) plain)"
      "length b \<le> ?n" "length net' < length net"
    then show ?thesis using WaitIv iv laws
      by (auto simp: poll_read_stream_def poll_read_iv_def stream_ahead_def)
  next
    fix net' assume p: "poll_read_exact ?n (sr_buffer r) net = (Ready (Ok ?n), iv, net')" "net_ok net'"
      "net_bytes net' = fst (encrypt_packet C (cipher_new C (sr_method r) key iv) plain)" "length net' \<le> length net"
    let ?r = "r\<lparr>sr_iv := Some iv, sr_cipher := Some (cipher_new C (sr_method r) key iv), sr_buffer := [],
       sr_state := StreamRead, sr_handshaked := True\<rparr>"
    have step: "poll_read_stream C chk room (r, net, x) = stream_read_plain C room (?r, net', x1)"
      using WaitIv iv(1) p chk by (simp add: poll_read_stream_def poll_read_iv_def)
    have "sr_state ?r = StreamRead" "sr_cipher ?r = Some (cipher_new C (sr_method r) key iv)" by simp_all
    from stream_read_plain_ahead [where chk = chk and x = x1, OF laws p(2) this p(3) assms(2)] p(4)
    show ?thesis unfolding step by fastforce
  qed
qed

interpretation stream_reader: byte_reader "stream_pollr C chk" "stream_ahead C chk" "\<lambda>s. length (fst (snd s))"
  for C :: "'c cipher_ops" and chk :: "byte list \<Rightarrow> 'x \<Rightarrow> (unit, io_error) res \<times> 'x"
proof unfold_locales
  fix s :: "'c stream_reader \<times> net \<times> 'x" and plain room assume "stream_ahead C chk s plain" "(0 :: nat) < room"
  moreover obtain r net x where "s = (r, net, x)" by (cases s)
  ultimately show "(\<exists>s'. stream_pollr C chk room s = (Pending, s') \<and> stream_ahead C chk s' plain
            \<and> length (fst (snd s')) < length (fst (snd s)))
       \<or> (\<exists>bs rest s'. stream_pollr C chk room s = (Ready (Ok bs), s') \<and> plain = bs @ rest
            \<and> length bs \<le> room \<and> (bs = [] \<longrightarrow> plain = []) \<and> stream_ahead C chk s' rest
            \<and> length (fst (snd s')) \<le> length (fst (snd s)))"
    using poll_read_stream_ahead [of C chk r net x plain room] by (auto simp: stream_pollr_def split: prod.splits)
qed

lemma stream_reader_new_ahead:
  assumes "key_stream_laws C" "length iv = iv_len kind" "0 < iv_len kind" "fst (chk iv x) = Ok ()" "net_ok net"
    and "net_bytes net = stream_wire C (cipher_new C kind key iv) iv ms"
  shows "stream_ahead C chk (stream_reader_new C kind key, net, x) (concat ms)"
  using assms by (auto simp: stream_ahead_def stream_reader_new_def stream_wire_def)

lemma stream_writer_new_wrote:
  assumes "key_stream_laws C"
  shows "stream_wrote C (cipher_new C kind key iv) iv (stream_writer_new C kind key iv, \<lparr>sink_events = evs, sunk = []\<rparr>) []"
  using assms by (simp add: stream_wrote_def stream_writer_new_def)

text \<open>
  A stream-cipher tunnel delivers what was written. Whatever the messages, however the sink and
  the network cut and delay the bytes and whatever the buffer sizes of the reader, the reader returns
  the concatenation of the messages in order, all of it once it has polled often enough.
\<close>

theorem stream_tunnel_roundtrip:
  assumes "key_stream_laws C" "0 < iv_len kind" "length iv = iv_len kind"
    and "sends (poll_write_stream C) ms (stream_writer_new C kind key iv, \<lparr>sink_events = evs, sunk = []\<rparr>) ns (w, snk)"
    and "ms \<noteq> []" "net_ok net" "net_bytes net = sunk snk"
    and "fst (check_nonce_replay B L now kind iv ctx) = Ok ()" "\<forall>room \<in> set rooms. 0 < room"
  shows "ns = map length ms
    \<and> (\<exists>got rest s. collect (stream_pollr C (check_nonce_replay B L now kind)) rooms
           (stream_reader_new C kind key, net, ctx) = (Ok got, s)
         \<and> got @ rest = concat ms \<and> (length net + length (concat ms) \<le> length rooms \<longrightarrow> rest = []))"
proof -
  have idle: "sw_state (fst (stream_writer_new C kind key iv, \<lparr>sink_events = evs, sunk = []\<rparr>)) = AssemblePacket"
    by (simp add: stream_writer_new_def)
  note w = stream_writer.sends_wire [OF assms(4) stream_writer_new_wrote [OF assms(1)] idle assms(5)]
  have "stream_ahead C (check_nonce_replay B L now kind) (stream_reader_new C kind key, net, ctx) (concat ms)"
    using w(1) assms by (intro stream_reader_new_ahead) simp_all
  from stream_reader.collect_sound [OF this assms(9)] w(2) show ?thesis by (auto simp: comp_def)
qed

section \<open>Instance\<close>

text \<open>A key stream that satisfies the laws: byte \<open>i\<close> is masked with \<open>i\<close>.\<close>

fun mask_from :: "nat \<Rightarrow> byte list \<Rightarrow> byte list" where
  "mask_from i [] = []"
| "mask_from i (b # bs) = (b XOR word_of_nat i) # mask_from (Suc i) bs"

definition mask_cipher :: "nat cipher_ops" where
  "mask_cipher = \<lparr>cipher_new = (\<lambda>kind key salt. 1), encrypt_packet = (\<lambda>c m. (mask_from c m, c + length m)),
     decrypt_packet = (\<lambda>c m. (Some (mask_from c m), c + length m))\<rparr>"

definition stream_kind :: cipher_kind where
  "stream_kind = \<lparr>category = CatStream, key_len = 1, salt_len = 0, tag_len = 0, iv_len = 2, nonce_len = 0,
     support_eih = False\<rparr>"

lemma mask_from_lemmas:
  "length (mask_from i m) = length m"
  "mask_from i (mask_from i m) = m"
  "mask_from i (m @ n) = mask_from i m @ mask_from (i + length m) n"
  by (induction m arbitrary: i) (simp_all add: xor.assoc)

lemma mask_cipher_laws: "key_stream_laws mask_cipher"
  by (simp add: key_stream_laws_def mask_cipher_def mask_from_lemmas)

theorem stream_tunnel_roundtrip_witness:
  "\<exists>s. collect (stream_pollr mask_cipher (check_nonce_replay exact_bloom (exact_lru 60000) 0 stream_kind)) (replicate 7 2)
     (stream_reader_new mask_cipher stream_kind [5], [Data [8], WouldBlock, Data [9, 6], Data [4]],
      context_new exact_bloom exact_lru ServerType) = (Ok [7, 6], s)"
proof -
  let ?net = "[Data [8], WouldBlock, Data [9, 6], Data [4]]"
  have "poll_write_stream mask_cipher [7, 6] (stream_writer_new mask_cipher stream_kind [5] [8, 9],
       \<lparr>sink_events = [Accept 3, SinkBlock, Accept 100], sunk = []\<rparr>)
     = (Pending, \<lparr>sw_cipher = 3, sw_buffer = [8, 9, 6, 4], sw_state = Writing 3, sw_iv = [8, 9]\<rparr>,
        \<lparr>sink_events = [Accept 100], sunk = [8, 9, 6]\<rparr>)" by code_simp
  moreover have "poll_write_stream mask_cipher [7, 6]
       (\<lparr>sw_cipher = 3, sw_buffer = [8, 9, 6, 4], sw_state = Writing 3, sw_iv = [8, 9]\<rparr>,
        \<lparr>sink_events = [Accept 100], sunk = [8, 9, 6]\<rparr>)
     = (Ready (Ok 2), \<lparr>sw_cipher = 3, sw_buffer = [], sw_state = AssemblePacket, sw_iv = [8, 9]\<rparr>,
        \<lparr>sink_events = [], sunk = [8, 9, 6, 4]\<rparr>)" by code_simp
  ultimately have send: "sends (poll_write_stream mask_cipher) [[7, 6]] (stream_writer_new mask_cipher stream_kind [5] [8, 9],
       \<lparr>sink_events = [Accept 3, SinkBlock, Accept 100], sunk = []\<rparr>) [2]
     (\<lparr>sw_cipher = 3, sw_buffer = [], sw_state = AssemblePacket, sw_iv = [8, 9]\<rparr>,
        \<lparr>sink_events = [], sunk = [8, 9, 6, 4]\<rparr>)"
    by (intro sends_wait [OF _ sends_more [OF _ sends_none]])
  have chk: "fst (check_nonce_replay exact_bloom (exact_lru 60000) 0 stream_kind [8, 9]
      (context_new exact_bloom exact_lru ServerType)) = Ok ()"
    by (simp add: check_nonce_replay_def context_new_def stream_kind_def is_aead_2022_def)
  from stream_tunnel_roundtrip [OF mask_cipher_laws _ _ send _ _ _ chk, of ?net "replicate 7 2"]
  show ?thesis by (auto simp: stream_kind_def)
qed

end
