(* ===== verification/Crypto_Stream.thy ===== *)
theory Crypto_Stream
  imports Tcp_Stream Tcp_Aead2022 Rust_Text
begin

text \<open>
  The bidirectional tunnel of \<open>shadowsocks/src/relay/tcprelay/crypto_io.rs\<close>: a transport with a
  decrypting reader and an encrypting writer chosen by the category of the cipher. The three ciphers
  are shown to keep the contracts of \<open>Async_Task\<close>, and the tunnel inherits them.
\<close>

section \<open>Errors\<close>

text \<open>The conversions to \<open>io::Error\<close>. \<open>fmt\<close> is the debug form of a byte string, a library function.\<close>

fun io_error_from_aead :: "aead_error \<Rightarrow> io_error" where
  "io_error_from_aead (AeadIo e) = e"
| "io_error_from_aead (HeaderTooShort n k) = Io_Error OtherKind
     (str ''header too short, expecting '' @ show_nat n @ str '' bytes, but found '' @ show_nat k @ str '' bytes'')"
| "io_error_from_aead DecryptDataError = io_other ''decrypt data failed''"
| "io_error_from_aead DecryptLengthError = io_other ''decrypt length failed''"
| "io_error_from_aead (DataTooLong n) = Io_Error OtherKind
     (str ''buffer size too large (0x'' @ show_hex n
      @ str ''), AEAD encryption protocol requires buffer to be smaller than 0x3FFF, the higher two bits must be set to zero'')"

definition show_i64 :: "u64 \<Rightarrow> rstring" where
  "show_i64 w = (if sint w < 0 then str ''-'' @ show_nat (nat (- sint w)) else show_nat (nat (sint w)))"

fun io_error_from_aead2022 :: "(byte list \<Rightarrow> rstring) \<Rightarrow> aead2022_error \<Rightarrow> io_error" where
  "io_error_from_aead2022 fmt (Aead2022Io e) = e"
| "io_error_from_aead2022 fmt (Header2022TooShort n k) = Io_Error OtherKind
     (str ''header too short, expecting '' @ show_nat n @ str '' bytes, but found '' @ show_nat k @ str '' bytes'')"
| "io_error_from_aead2022 fmt MissingExtendedIdentityHeader = io_other ''missing extended identity header''"
| "io_error_from_aead2022 fmt (InvalidClientUser h) =
     Io_Error OtherKind (str ''invalid client user identity '' @ fmt h)"
| "io_error_from_aead2022 fmt DecryptHeaderChunkError = io_other ''decrypt header chunk failed''"
| "io_error_from_aead2022 fmt Decrypt2022DataError = io_other ''decrypt data failed''"
| "io_error_from_aead2022 fmt Decrypt2022LengthError = io_other ''decrypt length failed''"
| "io_error_from_aead2022 fmt (InvalidStreamType e f) = Io_Error OtherKind
     (str ''invalid stream type, expecting '' @ show_alt_hex e @ str '', but found '' @ show_alt_hex f)"
| "io_error_from_aead2022 fmt (InvalidTimestamp ts now) = Io_Error OtherKind
     (str ''invalid timestamp '' @ show_nat (unat ts) @ str '' - now '' @ show_nat (unat now) @ str '' = ''
      @ show_i64 (ts - now))"

datatype crypto_error = CryptoIo io_error | CryptoStream stream_error | CryptoAead aead_error
  | CryptoAead2022 aead2022_error

fun io_error_from_crypto :: "(byte list \<Rightarrow> rstring) \<Rightarrow> crypto_error \<Rightarrow> io_error" where
  "io_error_from_crypto fmt (CryptoIo e) = e"
| "io_error_from_crypto fmt (CryptoStream e) = io_error_from_stream e"
| "io_error_from_crypto fmt (CryptoAead e) = io_error_from_aead e"
| "io_error_from_crypto fmt (CryptoAead2022 e) = io_error_from_aead2022 fmt e"

section \<open>Reader and writer of any category\<close>

datatype 'c dec_reader = DecNone | DecAead "'c decrypted_reader" | DecStream "'c stream_reader"
  | DecAead2022 "'c decrypted_reader_2022"

definition dec_with_user_manager ::
  "'c cipher_ops \<Rightarrow> stream_type \<Rightarrow> cipher_kind \<Rightarrow> byte list \<Rightarrow> user_manager option \<Rightarrow> 'c dec_reader" where
  "dec_with_user_manager C ty kind key um =
     (case category kind of
        CatStream \<Rightarrow> DecStream (stream_reader_new C kind key)
      | CatAead \<Rightarrow> DecAead (reader_new C kind key)
      | CatNone \<Rightarrow> DecNone
      | CatAead2022 \<Rightarrow> DecAead2022 (reader2022_with_user_manager C ty kind key um))"

fun dec_poll_read ::
  "'c cipher_ops \<Rightarrow> hash_ops \<Rightarrow> (byte list \<Rightarrow> 'x \<Rightarrow> (unit, io_error) res \<times> 'x) \<Rightarrow> u64 \<Rightarrow> nat
     \<Rightarrow> 'c dec_reader \<Rightarrow> net \<Rightarrow> 'x \<Rightarrow> (byte list, crypto_error) poll \<times> 'c dec_reader \<times> net \<times> 'x" where
  "dec_poll_read C H chk now room (DecStream r) net x =
     (case poll_read_stream C chk room (r, net, x) of
        (out, r, net, x) \<Rightarrow> (poll_map_err CryptoStream out, DecStream r, net, x))"
| "dec_poll_read C H chk now room (DecAead r) net x =
     (case poll_read_decrypted C chk room (r, net, x) of
        (out, r, net, x) \<Rightarrow> (poll_map_err CryptoAead out, DecAead r, net, x))"
| "dec_poll_read C H chk now room DecNone net x =
     (case poll_read room net of (out, net) \<Rightarrow> (poll_map_err CryptoIo out, DecNone, net, x))"
| "dec_poll_read C H chk now room (DecAead2022 r) net x =
     (case poll_read_decrypted_2022 C H chk now room (r, net, x) of
        (out, r, net, x) \<Rightarrow> (poll_map_err CryptoAead2022 out, DecAead2022 r, net, x))"

fun dec_nonce :: "'c dec_reader \<Rightarrow> byte list option" where
  "dec_nonce (DecStream r) = sr_iv r"
| "dec_nonce (DecAead r) = rd_salt r"
| "dec_nonce DecNone = None"
| "dec_nonce (DecAead2022 r) = r2_salt r"

fun dec_request_nonce :: "'c dec_reader \<Rightarrow> byte list option" where
  "dec_request_nonce (DecStream r) = None"
| "dec_request_nonce (DecAead r) = None"
| "dec_request_nonce DecNone = None"
| "dec_request_nonce (DecAead2022 r) = request_salt r"

fun dec_user_key :: "'c dec_reader \<Rightarrow> byte list option" where
  "dec_user_key (DecStream r) = None"
| "dec_user_key (DecAead r) = None"
| "dec_user_key DecNone = None"
| "dec_user_key (DecAead2022 r) = r2_user_key r"

fun dec_handshaked :: "'c dec_reader \<Rightarrow> bool" where
  "dec_handshaked (DecStream r) = sr_handshaked r"
| "dec_handshaked (DecAead r) = has_handshaked r"
| "dec_handshaked DecNone = True"
| "dec_handshaked (DecAead2022 r) = r2_handshaked r"

datatype 'c enc_writer = EncNone | EncAead "'c encrypted_writer" | EncStream "'c stream_writer"
  | EncAead2022 "'c encrypted_writer_2022"

definition enc_with_identity ::
  "'c cipher_ops \<Rightarrow> hash_ops \<Rightarrow> stream_type \<Rightarrow> cipher_kind \<Rightarrow> byte list \<Rightarrow> byte list \<Rightarrow> byte list list \<Rightarrow> 'c enc_writer" where
  "enc_with_identity C H ty kind key nonce ids =
     (case category kind of
        CatStream \<Rightarrow> EncStream (stream_writer_new C kind key nonce)
      | CatAead \<Rightarrow> EncAead (writer_new C kind key nonce)
      | CatNone \<Rightarrow> EncNone
      | CatAead2022 \<Rightarrow> EncAead2022 (writer2022_with_identity C H ty kind key nonce ids))"

fun enc_poll_write ::
  "'c cipher_ops \<Rightarrow> u64 \<Rightarrow> byte list \<Rightarrow> 'c enc_writer \<Rightarrow> sink \<Rightarrow> (nat, crypto_error) poll \<times> 'c enc_writer \<times> sink" where
  "enc_poll_write C now buf (EncStream w) snk =
     (case poll_write_stream C buf (w, snk) of (out, w, snk) \<Rightarrow> (poll_map_err CryptoStream out, EncStream w, snk))"
| "enc_poll_write C now buf (EncAead w) snk =
     (case poll_write_encrypted C buf (w, snk) of (out, w, snk) \<Rightarrow> (poll_map_err CryptoIo out, EncAead w, snk))"
| "enc_poll_write C now buf EncNone snk =
     (case poll_write buf snk of (out, snk) \<Rightarrow> (poll_map_err CryptoIo out, EncNone, snk))"
| "enc_poll_write C now buf (EncAead2022 w) snk =
     (case poll_write_encrypted_2022 C now buf (w, snk) of
        (out, w, snk) \<Rightarrow> (poll_map_err CryptoIo out, EncAead2022 w, snk))"

fun enc_nonce :: "'c enc_writer \<Rightarrow> byte list" where
  "enc_nonce (EncStream w) = sw_iv w"
| "enc_nonce (EncAead w) = wr_salt w"
| "enc_nonce EncNone = []"
| "enc_nonce (EncAead2022 w) = w2_salt w"

text \<open>The two operations that only the AEAD-2022 writer has; on another writer they panic.\<close>

fun enc_set_request_nonce :: "byte list \<Rightarrow> 'c enc_writer \<Rightarrow> 'c enc_writer option" where
  "enc_set_request_nonce nonce (EncAead2022 w) = Some (EncAead2022 (set_request_salt nonce w))"
| "enc_set_request_nonce nonce w = None"

fun enc_reset_cipher :: "'c cipher_ops \<Rightarrow> byte list \<Rightarrow> 'c enc_writer \<Rightarrow> 'c enc_writer option" where
  "enc_reset_cipher C key (EncAead2022 w) = Some (EncAead2022 (reset_cipher_with_key C key w))"
| "enc_reset_cipher C key w = None"

section \<open>The tunnel\<close>

record 'c crypto_stream =
  cs_net :: net
  cs_sink :: sink
  cs_dec :: "'c dec_reader"
  cs_enc :: "'c enc_writer"
  cs_method :: cipher_kind
  cs_handshaked :: bool

definition crypto_new_none :: "net \<Rightarrow> sink \<Rightarrow> cipher_kind \<Rightarrow> 'c crypto_stream" where
  "crypto_new_none net snk kind =
     \<lparr>cs_net = net, cs_sink = snk, cs_dec = DecNone, cs_enc = EncNone, cs_method = kind, cs_handshaked = False\<rparr>"

text \<open>The nonce is drawn until it is fresh, except for AEAD-2022, where it is not remembered. \<open>draws\<close> are
  the outcomes of the random generator; \<open>None\<close> is a generator that has no further outcome.\<close>

definition crypto_from_stream ::
  "'c cipher_ops \<Rightarrow> hash_ops \<Rightarrow> 'b bloom_ops \<Rightarrow> 'l lru_ops \<Rightarrow> nat \<Rightarrow> byte list list \<Rightarrow> net \<Rightarrow> sink \<Rightarrow> stream_type
     \<Rightarrow> cipher_kind \<Rightarrow> byte list \<Rightarrow> byte list list \<Rightarrow> user_manager option \<Rightarrow> ('b, 'l) ss_context
     \<Rightarrow> ('c crypto_stream \<times> ('b, 'l) ss_context) option" where
  "crypto_from_stream C H B L t draws net snk ty kind key ids um ctx =
     (if category kind = CatNone then Some (crypto_new_none net snk kind, ctx)
      else
        let prev_len = (case category kind of CatStream \<Rightarrow> iv_len kind | CatNone \<Rightarrow> 0 | _ \<Rightarrow> salt_len kind);
            unique = (category kind \<noteq> CatAead2022)
        in (case generate_nonce B L t kind prev_len unique draws ctx of
              None \<Rightarrow> None
            | Some (iv, ctx) \<Rightarrow>
                Some (\<lparr>cs_net = net, cs_sink = snk, cs_dec = dec_with_user_manager C ty kind key um,
                       cs_enc = enc_with_identity C H ty kind key iv ids, cs_method = kind,
                       cs_handshaked = False\<rparr>, ctx)))"

definition crypto_poll_read ::
  "'c cipher_ops \<Rightarrow> hash_ops \<Rightarrow> (byte list \<Rightarrow> 'x \<Rightarrow> (unit, io_error) res \<times> 'x) \<Rightarrow> u64 \<Rightarrow> nat
     \<Rightarrow> 'c crypto_stream \<times> 'x \<Rightarrow> (byte list, crypto_error) poll \<times> 'c crypto_stream \<times> 'x" where
  "crypto_poll_read C H chk now room s =
     (case s of (cs, x) \<Rightarrow>
      case dec_poll_read C H chk now room (cs_dec cs) (cs_net cs) x of
        (out, dec, net, x) \<Rightarrow>
          let cs = cs\<lparr>cs_dec := dec, cs_net := net\<rparr> in
          (case out of
             Ready (Ok bs) \<Rightarrow>
               if \<not> cs_handshaked cs \<and> dec_handshaked dec then
                 let cs = cs\<lparr>cs_handshaked := True\<rparr> in
                 (case dec_user_key dec of
                    None \<Rightarrow> (Ready (Ok bs), cs, x)
                  | Some key \<Rightarrow>
                      (case enc_reset_cipher C key (cs_enc cs) of
                         None \<Rightarrow> (Ready Panic, cs, x)
                       | Some enc \<Rightarrow> (Ready (Ok bs), cs\<lparr>cs_enc := enc\<rparr>, x)))
               else (Ready (Ok bs), cs, x)
           | _ \<Rightarrow> (out, cs, x)))"

definition crypto_poll_write ::
  "'c cipher_ops \<Rightarrow> u64 \<Rightarrow> byte list \<Rightarrow> 'c crypto_stream \<Rightarrow> (nat, crypto_error) poll \<times> 'c crypto_stream" where
  "crypto_poll_write C now buf cs =
     (case enc_poll_write C now buf (cs_enc cs) (cs_sink cs) of
        (out, enc, snk) \<Rightarrow> (out, cs\<lparr>cs_enc := enc, cs_sink := snk\<rparr>))"

definition crypto_set_request_nonce_with_received :: "'c crypto_stream \<Rightarrow> (bool \<times> 'c crypto_stream) option" where
  "crypto_set_request_nonce_with_received cs =
     (case dec_nonce (cs_dec cs) of
        None \<Rightarrow> Some (False, cs)
      | Some nonce \<Rightarrow>
          map_option (\<lambda>enc. (True, cs\<lparr>cs_enc := enc\<rparr>)) (enc_set_request_nonce nonce (cs_enc cs)))"

definition crypto_data_chunk_remaining :: "'c crypto_stream \<Rightarrow> (u64 \<times> nat) option" where
  "crypto_data_chunk_remaining cs =
     (case cs_dec cs of DecAead2022 r \<Rightarrow> Some (current_data_chunk_remaining r) | _ \<Rightarrow> None)"

section \<open>The writers keep the message contract\<close>

definition aead_wrote :: "'c cipher_ops \<Rightarrow> 'c \<Rightarrow> byte list \<Rightarrow> 'c encrypted_writer \<times> sink \<Rightarrow> byte list list \<Rightarrow> bool" where
  "aead_wrote C c0 salt s ps \<longleftrightarrow> writer_wf (fst s) \<and> writer_total s = salt @ fst (seal_frames C c0 ps)
     \<and> wr_cipher (fst s) = snd (seal_frames C c0 ps)"

definition aead_wire :: "'c cipher_ops \<Rightarrow> 'c \<Rightarrow> byte list \<Rightarrow> byte list list \<Rightarrow> byte list" where
  "aead_wire C c0 salt ps = salt @ fst (seal_frames C c0 ps)"

lemma aead_write_step:
  assumes "poll_write_encrypted C m s = (out, s')" "aead_wrote C c0 salt s ps"
  shows "aead_wrote C c0 salt s' (if wr_state (fst s) = AssemblePacket then ps @ [take MAX_PACKET_SIZE m] else ps)"
    and "\<And>n. out = Ready (Ok n) \<Longrightarrow> n = length (take MAX_PACKET_SIZE m) \<and> wr_state (fst s') = AssemblePacket"
    and "out = Pending \<Longrightarrow> wr_state (fst s') \<noteq> AssemblePacket"
proof -
  obtain w snk w' snk' where s: "s = (w, snk)" "s' = (w', snk')" by (metis prod.exhaust)
  have "writer_wf w" using assms(2) by (simp add: aead_wrote_def s)
  note step = poll_write_encrypted_step [OF assms(1) [unfolded s] this]
  show "aead_wrote C c0 salt s' (if wr_state (fst s) = AssemblePacket then ps @ [take MAX_PACKET_SIZE m] else ps)"
    using assms(2) step(1-3) seal_frames_append [of C c0 ps "[take MAX_PACKET_SIZE m]"]
    by (auto simp: aead_wrote_def s simp del: seal_frames.simps(2))
  show "\<And>n. out = Ready (Ok n) \<Longrightarrow> n = length (take MAX_PACKET_SIZE m) \<and> wr_state (fst s') = AssemblePacket"
    using step(4) by (simp add: s)
  show "out = Pending \<Longrightarrow> wr_state (fst s') \<noteq> AssemblePacket" using step(5) by (simp add: s)
qed

lemma aead_write_done:
  assumes "poll_write_encrypted C m s = (Ready (Ok n), s')"
  shows "wr_state (fst s') = AssemblePacket" "wr_buffer (fst s') = []"
  using assms by (auto simp: poll_write_encrypted_def Let_def split: prod.splits poll.splits res.splits)

interpretation aead_writer: message_writer "poll_write_encrypted C" "aead_wrote C c0 salt"
    "\<lambda>s. wr_state (fst s) = AssemblePacket" "take MAX_PACKET_SIZE" "aead_wire C c0 salt" "\<lambda>s. sunk (snd s)"
  for C :: "'c cipher_ops" and c0 salt
proof unfold_locales
  fix m s n s' ps assume a: "poll_write_encrypted C m s = (Ready (Ok n), s')" "aead_wrote C c0 salt s' ps"
  obtain w snk where s': "s' = (w, snk)" by (cases s')
  have "writer_total s' = sunk (snd s')" using aead_write_done [OF a(1)] by (simp add: writer_total_def s')
  then show "sunk (snd s') = aead_wire C c0 salt ps" using a(2) unfolding aead_wrote_def aead_wire_def by simp
next
  fix m s s' ps and out :: "(nat, io_error) poll"
  assume "poll_write_encrypted C m s = (out, s')" "aead_wrote C c0 salt s ps"
  then show "aead_wrote C c0 salt s' (if (wr_state (fst s) = AssemblePacket) then ps @ [take MAX_PACKET_SIZE m] else ps)"
    by (rule aead_write_step(1))
next
  fix m s s' ps assume a: "poll_write_encrypted C m s = (Pending, s')" "aead_wrote C c0 salt s ps"
  show "\<not> (wr_state (fst s') = AssemblePacket)" by (rule aead_write_step(3) [OF a refl])
next
  fix m s n s' ps assume a: "poll_write_encrypted C m s = (Ready (Ok n), s')" "aead_wrote C c0 salt s ps"
  show "n = length (take MAX_PACKET_SIZE m) \<and> (wr_state (fst s') = AssemblePacket)" by (rule aead_write_step(2) [OF a refl])
qed

definition aead2022_wire ::
  "'c cipher_ops \<Rightarrow> u64 \<Rightarrow> 'c encrypted_writer_2022 \<Rightarrow> byte list list \<Rightarrow> byte list" where
  "aead2022_wire C now w0 ps =
     w2_buffer w0 @ (case ps of [] \<Rightarrow> []
       | m # ms \<Rightarrow> fst (seal_next C now w0 m) @ fst (seal_frames C (snd (seal_next C now w0 m)) ms))"

definition aead2022_wrote ::
  "'c cipher_ops \<Rightarrow> u64 \<Rightarrow> 'c encrypted_writer_2022 \<Rightarrow> 'c encrypted_writer_2022 \<times> sink \<Rightarrow> byte list list \<Rightarrow> bool" where
  "aead2022_wrote C now w0 s ps \<longleftrightarrow>
     w2_state w0 = AssembleHeader \<and> writer_wf_2022 (fst s) \<and> writer_total_2022 s = aead2022_wire C now w0 ps
     \<and> (case ps of
          [] \<Rightarrow> w2_state (fst s) = AssembleHeader \<and> w2_cipher (fst s) = w2_cipher w0
            \<and> w2_stream_ty (fst s) = w2_stream_ty w0 \<and> w2_request_salt (fst s) = w2_request_salt w0
        | m # ms \<Rightarrow> w2_state (fst s) \<noteq> AssembleHeader
            \<and> w2_cipher (fst s) = snd (seal_frames C (snd (seal_next C now w0 m)) ms))"

lemma aead2022_state_after:
  assumes "poll_write_encrypted_2022 C now m s = (out, s')"
  shows "w2_state (fst s') \<noteq> AssembleHeader"
  using assms by (auto simp: poll_write_encrypted_2022_def Let_def split: prod.splits poll.splits res.splits)

lemma aead2022_write_step:
  assumes "poll_write_encrypted_2022 C now m s = (out, s')" "aead2022_wrote C now w0 s ps"
  shows "aead2022_wrote C now w0 s' (if idle_2022 (fst s) then ps @ [take MAX_PACKET_SIZE_2022 m] else ps)"
    and "\<And>n. out = Ready (Ok n) \<Longrightarrow> n = length (take MAX_PACKET_SIZE_2022 m) \<and> idle_2022 (fst s')"
    and "out = Pending \<Longrightarrow> \<not> idle_2022 (fst s')"
proof -
  let ?m = "take MAX_PACKET_SIZE_2022 m"
  obtain w snk w' snk' where s: "s = (w, snk)" "s' = (w', snk')" by (metis prod.exhaust)
  have "writer_wf_2022 w" using assms(2) by (simp add: aead2022_wrote_def s)
  note step = poll_write_encrypted_2022_step [OF assms(1) [unfolded s] this]
  have after: "w2_state w' \<noteq> AssembleHeader" using aead2022_state_after [OF assms(1)] by (simp add: s)
  show "\<And>n. out = Ready (Ok n) \<Longrightarrow> n = length ?m \<and> idle_2022 (fst s')"
    using step(4) by (simp add: s idle_2022_def)
  show "out = Pending \<Longrightarrow> \<not> idle_2022 (fst s')" using step(5) by (simp add: s)
  show "aead2022_wrote C now w0 s' (if idle_2022 (fst s) then ps @ [?m] else ps)"
  proof (cases ps)
    case Nil
    then have w: "w2_state w = AssembleHeader" "w2_state w0 = AssembleHeader" "w2_cipher w = w2_cipher w0"
      "w2_stream_ty w = w2_stream_ty w0" "w2_request_salt w = w2_request_salt w0"
      using assms(2) by (simp_all add: aead2022_wrote_def s)
    then have "seal_next C now w ?m = seal_next C now w0 ?m" by (simp add: seal_next_def)
    then show ?thesis using assms(2) step(1-3) after w Nil
      by (simp add: aead2022_wrote_def aead2022_wire_def s idle_2022_def)
  next
    case (Cons p qs)
    then have w: "w2_state w \<noteq> AssembleHeader" "w2_cipher w = snd (seal_frames C (snd (seal_next C now w0 p)) qs)"
      using assms(2) by (simp_all add: aead2022_wrote_def s)
    have "idle_2022 w \<Longrightarrow> seal_next C now w ?m = seal_frames C (w2_cipher w) [?m]"
      using w(1) by (intro seal_next_packet) (simp add: idle_2022_def)
    then show ?thesis using assms(2) step(1-3) after w Cons
        seal_frames_append [of C "snd (seal_next C now w0 p)" qs "[?m]"]
      by (auto simp: aead2022_wrote_def aead2022_wire_def s simp del: seal_frames.simps(2))
  qed
qed

lemma aead2022_write_done:
  assumes "poll_write_encrypted_2022 C now m s = (Ready (Ok n), s')"
  shows "w2_state (fst s') = AssemblePacket2" "w2_buffer (fst s') = []"
  using assms by (auto simp: poll_write_encrypted_2022_def Let_def split: prod.splits poll.splits res.splits)

interpretation aead2022_writer: message_writer "poll_write_encrypted_2022 C now" "aead2022_wrote C now w0"
    "\<lambda>s. idle_2022 (fst s)" "take MAX_PACKET_SIZE_2022" "aead2022_wire C now w0" "\<lambda>s. sunk (snd s)"
  for C :: "'c cipher_ops" and now w0
proof unfold_locales
  fix m s n s' ps
  assume a: "poll_write_encrypted_2022 C now m s = (Ready (Ok n), s')" "aead2022_wrote C now w0 s' ps"
  obtain w snk where s': "s' = (w, snk)" by (cases s')
  have "writer_total_2022 s' = sunk (snd s')" using aead2022_write_done [OF a(1)] by (simp add: writer_total_2022_def s')
  then show "sunk (snd s') = aead2022_wire C now w0 ps" using a(2) unfolding aead2022_wrote_def by simp
next
  fix m s s' ps and out :: "(nat, io_error) poll"
  assume "poll_write_encrypted_2022 C now m s = (out, s')" "aead2022_wrote C now w0 s ps"
  then show "aead2022_wrote C now w0 s' (if idle_2022 (fst s) then ps @ [take MAX_PACKET_SIZE_2022 m] else ps)"
    by (rule aead2022_write_step(1))
next
  fix m s s' ps assume a: "poll_write_encrypted_2022 C now m s = (Pending, s')" "aead2022_wrote C now w0 s ps"
  show "\<not> idle_2022 (fst s')" by (rule aead2022_write_step(3) [OF a refl])
next
  fix m s n s' ps assume a: "poll_write_encrypted_2022 C now m s = (Ready (Ok n), s')" "aead2022_wrote C now w0 s ps"
  show "n = length (take MAX_PACKET_SIZE_2022 m) \<and> idle_2022 (fst s')" by (rule aead2022_write_step(2) [OF a refl])
qed

text \<open>The tunnel's writer, for every category but none.\<close>

definition crypto_wrote ::
  "'c cipher_ops \<Rightarrow> u64 \<Rightarrow> 'c enc_writer \<Rightarrow> 'c crypto_stream \<Rightarrow> byte list list \<Rightarrow> bool" where
  "crypto_wrote C now e0 cs ps \<longleftrightarrow>
     (case (e0, cs_enc cs) of
        (EncStream w0, EncStream w) \<Rightarrow> stream_wrote C (sw_cipher w0) (sw_buffer w0) (w, cs_sink cs) ps
      | (EncAead w0, EncAead w) \<Rightarrow> aead_wrote C (wr_cipher w0) (wr_buffer w0) (w, cs_sink cs) ps
      | (EncAead2022 w0, EncAead2022 w) \<Rightarrow> aead2022_wrote C now w0 (w, cs_sink cs) ps
      | _ \<Rightarrow> False)"

definition crypto_idle :: "'c crypto_stream \<Rightarrow> bool" where
  "crypto_idle cs \<longleftrightarrow>
     (case cs_enc cs of
        EncNone \<Rightarrow> True | EncStream w \<Rightarrow> sw_state w = AssemblePacket | EncAead w \<Rightarrow> wr_state w = AssemblePacket
      | EncAead2022 w \<Rightarrow> idle_2022 w)"

definition crypto_cut :: "'c enc_writer \<Rightarrow> byte list \<Rightarrow> byte list" where
  "crypto_cut e0 m =
     (case e0 of EncAead w \<Rightarrow> take MAX_PACKET_SIZE m | EncAead2022 w \<Rightarrow> take MAX_PACKET_SIZE_2022 m | _ \<Rightarrow> m)"

definition crypto_wire :: "'c cipher_ops \<Rightarrow> u64 \<Rightarrow> 'c enc_writer \<Rightarrow> byte list list \<Rightarrow> byte list" where
  "crypto_wire C now e0 ps =
     (case e0 of
        EncNone \<Rightarrow> concat ps
      | EncStream w \<Rightarrow> stream_wire C (sw_cipher w) (sw_buffer w) ps
      | EncAead w \<Rightarrow> aead_wire C (wr_cipher w) (wr_buffer w) ps
      | EncAead2022 w \<Rightarrow> aead2022_wire C now w ps)"

lemmas crypto_writer_defs = crypto_wrote_def crypto_idle_def crypto_cut_def crypto_wire_def crypto_poll_write_def

interpretation crypto_writer: message_writer "crypto_poll_write C now" "crypto_wrote C now e0" crypto_idle
    "crypto_cut e0" "crypto_wire C now e0" "\<lambda>cs. sunk (cs_sink cs)"
  for C :: "'c cipher_ops" and now and e0 :: "'c enc_writer"
proof unfold_locales
  fix m s s' ps and out :: "(nat, crypto_error) poll"
  assume "crypto_poll_write C now m s = (out, s')" "crypto_wrote C now e0 s ps"
  then show "crypto_wrote C now e0 s' (if crypto_idle s then ps @ [crypto_cut e0 m] else ps)"
    by (cases e0; cases "cs_enc s")
       (auto simp: crypto_writer_defs split: prod.splits dest!: stream_writer.step_wrote aead_writer.step_wrote aead2022_writer.step_wrote)
next
  fix m s s' ps
  assume "crypto_poll_write C now m s = (Pending, s')" "crypto_wrote C now e0 s ps"
  then show "\<not> crypto_idle s'"
    by (cases e0; cases "cs_enc s")
       (auto simp: crypto_writer_defs split: prod.splits dest!: stream_writer.step_pending aead_writer.step_pending aead2022_writer.step_pending)
next
  fix m s n s' ps
  assume "crypto_poll_write C now m s = (Ready (Ok n), s')" "crypto_wrote C now e0 s ps"
  then show "n = length (crypto_cut e0 m) \<and> crypto_idle s'"
    by (cases e0; cases "cs_enc s")
       (auto simp: crypto_writer_defs split: prod.splits dest!: stream_writer.step_done aead_writer.step_done aead2022_writer.step_done)
next
  fix m s n s' ps
  assume "crypto_poll_write C now m s = (Ready (Ok n), s')" "crypto_wrote C now e0 s' ps"
  then show "sunk (cs_sink s') = crypto_wire C now e0 ps"
    by (cases e0; cases "cs_enc s")
       (auto simp: crypto_writer_defs split: prod.splits dest!: stream_writer.step_sent aead_writer.step_sent aead2022_writer.step_sent)
qed

section \<open>The readers keep the stream contract\<close>

definition dec_ahead ::
  "'c cipher_ops \<Rightarrow> hash_ops \<Rightarrow> (byte list \<Rightarrow> 'x \<Rightarrow> (unit, io_error) res \<times> 'x) \<Rightarrow> u64 \<Rightarrow> byte list option
     \<Rightarrow> 'c dec_reader \<times> net \<times> 'x \<Rightarrow> byte list \<Rightarrow> bool" where
  "dec_ahead C H chk now rs s plain \<longleftrightarrow>
     (case s of (dec, net, x) \<Rightarrow>
      case dec of
        DecNone \<Rightarrow> net_ok net \<and> net_bytes net = plain
      | DecStream r \<Rightarrow> stream_ahead C chk (r, net, x) plain
      | DecAead r \<Rightarrow> cipher_laws C (rd_method r) \<and> 0 < tag_len (rd_method r)
          \<and> reader_sync C (rd_method r) chk (r, net, x) plain
      | DecAead2022 r \<Rightarrow> cipher_laws C (r2_method r) \<and> 0 < tag_len (r2_method r)
          \<and> reader_sync_2022 C H chk now (r2_method r) rs (r, net, x) plain)"

definition same_category :: "'c dec_reader \<Rightarrow> 'c dec_reader \<Rightarrow> bool" where
  "same_category d e \<longleftrightarrow>
     (case (d, e) of (DecNone, DecNone) \<Rightarrow> True | (DecStream r, DecStream q) \<Rightarrow> True | (DecAead r, DecAead q) \<Rightarrow> True
      | (DecAead2022 r, DecAead2022 q) \<Rightarrow> True | _ \<Rightarrow> False)"

lemma dec_ahead_stream:
  assumes "stream_ahead C chk (r, net, x) plain" "0 < room"
  shows "(\<exists>r' net' x'. poll_read_stream C chk room (r, net, x) = (Pending, r', net', x')
            \<and> stream_ahead C chk (r', net', x') plain \<and> length net' < length net)
       \<or> (\<exists>bs rest r' net' x'. poll_read_stream C chk room (r, net, x) = (Ready (Ok bs), r', net', x')
            \<and> plain = bs @ rest \<and> length bs \<le> room \<and> (bs = [] \<longrightarrow> plain = [])
            \<and> stream_ahead C chk (r', net', x') rest \<and> length net' \<le> length net)"
  using poll_read_stream_ahead [OF assms] by fastforce

lemma dec_ahead_aead:
  assumes "cipher_laws C (rd_method r)" "0 < tag_len (rd_method r)" "0 < room"
    "reader_sync C (rd_method r) chk (r, net, x) plain"
  shows "(\<exists>r' net' x'. poll_read_decrypted C chk room (r, net, x) = (Pending, r', net', x') \<and> rd_method r' = rd_method r
            \<and> reader_sync C (rd_method r) chk (r', net', x') plain \<and> length net' < length net)
       \<or> (\<exists>bs rest r' net' x'. poll_read_decrypted C chk room (r, net, x) = (Ready (Ok bs), r', net', x')
            \<and> rd_method r' = rd_method r \<and> plain = bs @ rest \<and> length bs \<le> room \<and> (bs = [] \<longrightarrow> plain = [])
            \<and> reader_sync C (rd_method r) chk (r', net', x') rest \<and> length net' \<le> length net)"
proof -
  obtain out r' net' x' where p: "poll_read_decrypted C chk room (r, net, x) = (out, r', net', x')" by (metis prod_cases4)
  have m: "rd_method r' = rd_method r" if "reader_sync C (rd_method r) chk (r', net', x') q" for q
    using that by (simp add: reader_sync_def)
  from poll_read_decrypted_sound [OF assms] p m show ?thesis by (fastforce simp: delivers_def)
qed

lemma dec_ahead_aead2022:
  assumes "cipher_laws C (r2_method r)" "0 < tag_len (r2_method r)" "0 < room"
    "reader_sync_2022 C H chk now (r2_method r) rs (r, net, x) plain"
  shows "(\<exists>r' net' x'. poll_read_decrypted_2022 C H chk now room (r, net, x) = (Pending, r', net', x') \<and> r2_method r' = r2_method r
            \<and> reader_sync_2022 C H chk now (r2_method r) rs (r', net', x') plain \<and> length net' < length net)
       \<or> (\<exists>bs rest r' net' x'. poll_read_decrypted_2022 C H chk now room (r, net, x) = (Ready (Ok bs), r', net', x')
            \<and> r2_method r' = r2_method r \<and> plain = bs @ rest \<and> length bs \<le> room \<and> (bs = [] \<longrightarrow> plain = [])
            \<and> reader_sync_2022 C H chk now (r2_method r) rs (r', net', x') rest \<and> length net' \<le> length net)"
proof -
  obtain out r' net' x' where p: "poll_read_decrypted_2022 C H chk now room (r, net, x) = (out, r', net', x')"
    by (metis prod_cases4)
  have m: "r2_method r' = r2_method r" if "reader_sync_2022 C H chk now (r2_method r) rs (r', net', x') q" for q
    using that by (simp add: reader_sync_2022_def)
  from poll_read_decrypted_2022_sound [OF assms] p m show ?thesis by (fastforce simp: round_sound_2022_def)
qed

lemma dec_ahead_none:
  assumes "net_ok net" "0 < room"
  shows "(\<exists>net'. poll_read room net = (Pending, net') \<and> net_ok net' \<and> net_bytes net' = net_bytes net \<and> length net' < length net)
       \<or> (\<exists>bs net'. poll_read room net = (Ready (Ok bs), net') \<and> net_bytes net = bs @ net_bytes net' \<and> length bs \<le> room
            \<and> (bs = [] \<longrightarrow> net_bytes net = []) \<and> net_ok net' \<and> length net' \<le> length net)"
  using assms by (cases rule: poll_read_ok_cases) auto

lemma dec_poll_sound:
  assumes "dec_ahead C H chk now rs (dec, net, x) plain" "0 < room"
  shows "(\<exists>dec' net' x'. dec_poll_read C H chk now room dec net x = (Pending, dec', net', x') \<and> same_category dec dec'
            \<and> dec_ahead C H chk now rs (dec', net', x') plain \<and> length net' < length net)
       \<or> (\<exists>bs rest dec' net' x'. dec_poll_read C H chk now room dec net x = (Ready (Ok bs), dec', net', x')
            \<and> same_category dec dec' \<and> plain = bs @ rest \<and> length bs \<le> room \<and> (bs = [] \<longrightarrow> plain = [])
            \<and> dec_ahead C H chk now rs (dec', net', x') rest \<and> length net' \<le> length net)"
proof (cases dec)
  case DecNone
  then show ?thesis using dec_ahead_none [of net room] assms by (auto simp: dec_ahead_def same_category_def)
next
  case (DecStream r)
  then show ?thesis using dec_ahead_stream [of C chk r net x plain room] assms
    by (auto simp: dec_ahead_def same_category_def)
next
  case (DecAead r)
  then have r: "cipher_laws C (rd_method r)" "0 < tag_len (rd_method r)" "reader_sync C (rd_method r) chk (r, net, x) plain"
    using assms(1) by (simp_all add: dec_ahead_def)
  from dec_ahead_aead [OF r(1,2) assms(2) r(3)] show ?thesis using DecAead r(1,2)
    by (elim disjE exE conjE) (simp_all add: dec_ahead_def same_category_def)
next
  case (DecAead2022 r)
  then have r: "cipher_laws C (r2_method r)" "0 < tag_len (r2_method r)"
    "reader_sync_2022 C H chk now (r2_method r) rs (r, net, x) plain"
    using assms(1) by (simp_all add: dec_ahead_def)
  from dec_ahead_aead2022 [OF r(1,2) assms(2) r(3)] show ?thesis using DecAead2022 r(1,2)
    by (elim disjE exE conjE) (simp_all add: dec_ahead_def same_category_def)
qed

definition crypto_ahead ::
  "'c cipher_ops \<Rightarrow> hash_ops \<Rightarrow> (byte list \<Rightarrow> 'x \<Rightarrow> (unit, io_error) res \<times> 'x) \<Rightarrow> u64 \<Rightarrow> byte list option
     \<Rightarrow> 'c crypto_stream \<times> 'x \<Rightarrow> byte list \<Rightarrow> bool" where
  "crypto_ahead C H chk now rs s plain \<longleftrightarrow>
     (case s of (cs, x) \<Rightarrow>
      dec_ahead C H chk now rs (cs_dec cs, cs_net cs, x) plain
      \<and> ((\<exists>r. cs_dec cs = DecAead2022 r) \<longrightarrow> (\<exists>w. cs_enc cs = EncAead2022 w)))"

text \<open>\<open>AsyncRead\<close> for the streams built on the tunnel converts the errors.\<close>

definition crypto_pollr ::
  "'c cipher_ops \<Rightarrow> hash_ops \<Rightarrow> (byte list \<Rightarrow> rstring) \<Rightarrow> (byte list \<Rightarrow> 'x \<Rightarrow> (unit, io_error) res \<times> 'x) \<Rightarrow> u64 \<Rightarrow> nat
     \<Rightarrow> 'c crypto_stream \<times> 'x \<Rightarrow> (byte list, io_error) poll \<times> 'c crypto_stream \<times> 'x" where
  "crypto_pollr C H fmt chk now room s =
     (case crypto_poll_read C H chk now room s of (out, s) \<Rightarrow> (poll_map_err (io_error_from_crypto fmt) out, s))"

lemma dec_user_key_2022: "dec_user_key d = Some key \<Longrightarrow> \<exists>r. d = DecAead2022 r"
  by (cases d) simp_all

lemma crypto_poll_sound:
  assumes "crypto_ahead C H chk now rs (cs, x) plain" "0 < room"
  shows "(\<exists>cs' x'. crypto_poll_read C H chk now room (cs, x) = (Pending, cs', x')
            \<and> crypto_ahead C H chk now rs (cs', x') plain \<and> length (cs_net cs') < length (cs_net cs))
       \<or> (\<exists>bs rest cs' x'. crypto_poll_read C H chk now room (cs, x) = (Ready (Ok bs), cs', x')
            \<and> plain = bs @ rest \<and> length bs \<le> room \<and> (bs = [] \<longrightarrow> plain = [])
            \<and> crypto_ahead C H chk now rs (cs', x') rest \<and> length (cs_net cs') \<le> length (cs_net cs))"
proof -
  let ?poll = "dec_poll_read C H chk now room (cs_dec cs) (cs_net cs) x"
  have a: "dec_ahead C H chk now rs (cs_dec cs, cs_net cs, x) plain"
    and enc: "\<And>d. same_category (cs_dec cs) d \<Longrightarrow> \<exists>r. d = DecAead2022 r \<Longrightarrow> \<exists>w. cs_enc cs = EncAead2022 w"
    using assms(1) by (auto simp: crypto_ahead_def same_category_def split: dec_reader.splits)
  from dec_poll_sound [OF a assms(2)] show ?thesis
  proof (elim disjE exE conjE)
    fix d net' x' assume "?poll = (Pending, d, net', x')" "same_category (cs_dec cs) d"
      "dec_ahead C H chk now rs (d, net', x') plain" "length net' < length (cs_net cs)"
    then show ?thesis using enc by (simp add: crypto_poll_read_def crypto_ahead_def)
  next
    fix bs rest d net' x' assume p: "?poll = (Ready (Ok bs), d, net', x')" "same_category (cs_dec cs) d"
      "plain = bs @ rest" "length bs \<le> room" "bs = [] \<longrightarrow> plain = []"
      "dec_ahead C H chk now rs (d, net', x') rest" "length net' \<le> length (cs_net cs)"
    have "\<exists>cs'. crypto_poll_read C H chk now room (cs, x) = (Ready (Ok bs), cs', x') \<and> cs_dec cs' = d \<and> cs_net cs' = net'
        \<and> ((\<exists>w. cs_enc cs = EncAead2022 w) \<longrightarrow> (\<exists>w. cs_enc cs' = EncAead2022 w))"
      using p(1) enc [OF p(2)]
      by (auto simp: crypto_poll_read_def Let_def split: option.splits dest!: dec_user_key_2022)
    then show ?thesis using p enc [OF p(2)] by (auto simp: crypto_ahead_def)
  qed
qed

interpretation crypto_reader: byte_reader "crypto_pollr C H fmt chk now" "crypto_ahead C H chk now rs"
    "\<lambda>s. length (cs_net (fst s))"
  for C :: "'c cipher_ops" and H fmt and chk :: "byte list \<Rightarrow> 'x \<Rightarrow> (unit, io_error) res \<times> 'x" and now rs
proof unfold_locales
  fix s :: "'c crypto_stream \<times> 'x" and plain room
  assume a: "crypto_ahead C H chk now rs s plain" "(0 :: nat) < room"
  obtain cs x where s: "s = (cs, x)" by (cases s)
  from crypto_poll_sound [OF a(1) [unfolded s] a(2)]
  show "(\<exists>s'. crypto_pollr C H fmt chk now room s = (Pending, s') \<and> crypto_ahead C H chk now rs s' plain
            \<and> length (cs_net (fst s')) < length (cs_net (fst s)))
       \<or> (\<exists>bs rest s'. crypto_pollr C H fmt chk now room s = (Ready (Ok bs), s') \<and> plain = bs @ rest
            \<and> length bs \<le> room \<and> (bs = [] \<longrightarrow> plain = []) \<and> crypto_ahead C H chk now rs s' rest
            \<and> length (cs_net (fst s')) \<le> length (cs_net (fst s)))"
    unfolding s crypto_pollr_def by (elim disjE exE conjE) fastforce+
qed

end
