(* ===== verification/Proxy_Stream.thy ===== *)
theory Proxy_Stream
  imports Crypto_Stream
begin

text \<open>
  The proxied connection of \<open>shadowsocks/src/relay/tcprelay/proxy_stream/\<close>: the client prefixes its
  first packet with the target address (and, for AEAD-2022, padding), the server reads them back in
  its handshake; with AEAD-2022 the response carries the salt of the request and the client checks it.
  The model is of a release build, where \<open>debug_assert!\<close> has no effect.
\<close>

section \<open>Request headers\<close>

abbreviation "MAX_PADDING_SIZE \<equiv> 900 :: nat"

text \<open>\<open>drawn\<close> is the outcome of the random generator in the range 0 to 900.\<close>

definition get_aead_2022_padding_size :: "nat \<Rightarrow> byte list \<Rightarrow> nat" where
  "get_aead_2022_padding_size drawn payload = (if payload = [] then drawn else 0)"

datatype proxy_header = StreamHeader address | Aead2022Header address u16

fun proxy_header_addr :: "proxy_header \<Rightarrow> address" where
  "proxy_header_addr (StreamHeader addr) = addr"
| "proxy_header_addr (Aead2022Header addr padding) = addr"

definition aead2022_header_read ::
  "(nat \<Rightarrow> 's \<Rightarrow> (byte list, io_error) poll \<times> 's) \<Rightarrow> nat \<Rightarrow> ('s, proxy_header, io_error) task" where
  "aead2022_header_read pollr k =
     bind_task (address_read_task (read_exact_task pollr k)) (\<lambda>addr.
     bind_task (read_exact_task pollr k 2) (\<lambda>buf.
       let padding = of_be buf :: u16 in
       if 0 < padding then bind_task (skip_task pollr k (unat padding)) (\<lambda>u. task_ok (Aead2022Header addr padding))
       else task_ok (Aead2022Header addr padding)))"

definition proxy_header_read ::
  "(nat \<Rightarrow> 's \<Rightarrow> (byte list, io_error) poll \<times> 's) \<Rightarrow> nat \<Rightarrow> cipher_kind \<Rightarrow> ('s, proxy_header, io_error) task" where
  "proxy_header_read pollr k kind =
     (case category kind of
        CatAead2022 \<Rightarrow> aead2022_header_read pollr k
      | _ \<Rightarrow> bind_task (address_read_task (read_exact_task pollr k)) (\<lambda>addr. task_ok (StreamHeader addr)))"

text \<open>The writers of the header types. The padding of the AEAD-2022 header is whatever is in the memory of
  the buffer (\<open>mem\<close>).\<close>

fun proxy_header_write :: "byte list \<Rightarrow> proxy_header \<Rightarrow> byte list option" where
  "proxy_header_write mem (StreamHeader addr) = write_address addr"
| "proxy_header_write mem (Aead2022Header addr padding) =
     (if unat padding \<le> MAX_PADDING_SIZE
      then Some (be_of 2 padding @ (if 0 < padding then take (unat padding) mem else []))
      else None)"

fun proxy_header_len :: "proxy_header \<Rightarrow> nat" where
  "proxy_header_len (StreamHeader addr) = get_addr_len addr"
| "proxy_header_len (Aead2022Header addr padding) = get_addr_len addr + 2 + unat padding"

section \<open>The client\<close>

datatype client_write_state = Connect address | Connecting "byte list" | Connected

datatype client_read_state = CheckRequestNonce | ClientEstablished

record 'c proxy_client =
  pc_stream :: "'c crypto_stream"
  pc_writer :: client_write_state
  pc_reader :: client_read_state

definition client_from_stream ::
  "'c cipher_ops \<Rightarrow> hash_ops \<Rightarrow> 'b bloom_ops \<Rightarrow> 'l lru_ops \<Rightarrow> nat \<Rightarrow> byte list list \<Rightarrow> net \<Rightarrow> sink
     \<Rightarrow> cipher_kind \<Rightarrow> byte list \<Rightarrow> byte list list \<Rightarrow> address \<Rightarrow> ('b, 'l) ss_context
     \<Rightarrow> ('c proxy_client \<times> ('b, 'l) ss_context) option" where
  "client_from_stream C H B L t draws net snk kind key ids addr ctx =
     map_option (\<lambda>(cs, ctx).
       (\<lparr>pc_stream = cs, pc_writer = Connect addr,
         pc_reader = (if is_aead_2022 kind then CheckRequestNonce else ClientEstablished)\<rparr>, ctx))
       (crypto_from_stream C H B L t draws net snk ClientStream kind key ids None ctx)"

text \<open>The address is written with \<open>None\<close> standing for the panic of the address writer. For AEAD-2022 the
  padding length follows, and as many bytes of memory.\<close>

definition make_first_packet_buffer ::
  "cipher_kind \<Rightarrow> address \<Rightarrow> nat \<Rightarrow> byte list \<Rightarrow> byte list \<Rightarrow> byte list option" where
  "make_first_packet_buffer kind addr drawn mem buf =
     map_option (\<lambda>a.
       let padding_size = get_aead_2022_padding_size drawn buf in
       a @ (if is_aead_2022 kind then be_of 2 (word_of_nat padding_size :: u16) @ take padding_size mem else []) @ buf)
       (write_address addr)"

text \<open>The \<open>Connecting\<close> state: the first packet is written, and then the length of the caller's buffer is
  reported, whatever the tunnel reported.\<close>

definition client_write_first ::
  "'c cipher_ops \<Rightarrow> (byte list \<Rightarrow> rstring) \<Rightarrow> u64 \<Rightarrow> byte list \<Rightarrow> byte list \<Rightarrow> 'c proxy_client
     \<Rightarrow> (nat, io_error) poll \<times> 'c proxy_client" where
  "client_write_first C fmt now buf buffer pc =
     (case crypto_poll_write C now buffer (pc_stream pc) of
        (Pending, cs) \<Rightarrow> (Pending, pc\<lparr>pc_stream := cs\<rparr>)
      | (Ready (Err e), cs) \<Rightarrow> (Ready (Err (io_error_from_crypto fmt e)), pc\<lparr>pc_stream := cs\<rparr>)
      | (Ready Panic, cs) \<Rightarrow> (Ready Panic, pc\<lparr>pc_stream := cs\<rparr>)
      | (Ready (Ok n), cs) \<Rightarrow> (Ready (Ok (length buf)), pc\<lparr>pc_stream := cs, pc_writer := Connected\<rparr>))"

definition client_poll_write ::
  "'c cipher_ops \<Rightarrow> (byte list \<Rightarrow> rstring) \<Rightarrow> u64 \<Rightarrow> nat \<Rightarrow> byte list \<Rightarrow> byte list \<Rightarrow> 'c proxy_client
     \<Rightarrow> (nat, io_error) poll \<times> 'c proxy_client" where
  "client_poll_write C fmt now drawn mem buf pc =
     (case pc_writer pc of
        Connect addr \<Rightarrow>
          (case make_first_packet_buffer (cs_method (pc_stream pc)) addr drawn mem buf of
             None \<Rightarrow> (Ready Panic, pc)
           | Some buffer \<Rightarrow> client_write_first C fmt now buf buffer (pc\<lparr>pc_writer := Connecting buffer\<rparr>))
      | Connecting buffer \<Rightarrow> client_write_first C fmt now buf buffer pc
      | Connected \<Rightarrow>
          (case crypto_poll_write C now buf (pc_stream pc) of
             (out, cs) \<Rightarrow> (poll_map_err (io_error_from_crypto fmt) out, pc\<lparr>pc_stream := cs\<rparr>)))"

definition client_poll_read ::
  "'c cipher_ops \<Rightarrow> hash_ops \<Rightarrow> (byte list \<Rightarrow> rstring) \<Rightarrow> (byte list \<Rightarrow> 'x \<Rightarrow> (unit, io_error) res \<times> 'x) \<Rightarrow> u64 \<Rightarrow> nat
     \<Rightarrow> 'c proxy_client \<times> 'x \<Rightarrow> (byte list, io_error) poll \<times> 'c proxy_client \<times> 'x" where
  "client_poll_read C H fmt chk now room s =
     (case s of (pc, x) \<Rightarrow>
      case crypto_pollr C H fmt chk now room (pc_stream pc, x) of
        (out, cs, x) \<Rightarrow>
          let pc = pc\<lparr>pc_stream := cs\<rparr> in
          (case pc_reader pc of
             ClientEstablished \<Rightarrow> (out, pc, x)
           | CheckRequestNonce \<Rightarrow>
               (case out of
                  Ready (Ok bs) \<Rightarrow>
                    (case crypto_data_chunk_remaining cs of
                       None \<Rightarrow> (Ready Panic, pc, x)
                     | Some (chunk_count, rem) \<Rightarrow>
                         if 0 < chunk_count then
                           let sent = enc_nonce (cs_enc cs);
                               sent_nonce = (if sent = [] then None else Some sent)
                           in if sent_nonce \<noteq> dec_request_nonce (cs_dec cs)
                              then (Ready (Err (io_other ''received TCP response header with unmatched salt'')), pc, x)
                              else (Ready (Ok bs), pc\<lparr>pc_reader := ClientEstablished\<rparr>, x)
                         else (Ready (Ok bs), pc, x))
                | _ \<Rightarrow> (out, pc, x))))"

section \<open>The server\<close>

text \<open>The wakers that a waiting writer leaves behind only schedule its next poll and are not part of the
  state.\<close>

datatype server_write_state = PrepareHeader | ServerEstablished

record 'c proxy_server =
  ps_stream :: "'c crypto_stream"
  ps_writer :: server_write_state
  ps_handshaked :: bool

definition server_from_stream ::
  "'c cipher_ops \<Rightarrow> hash_ops \<Rightarrow> 'b bloom_ops \<Rightarrow> 'l lru_ops \<Rightarrow> nat \<Rightarrow> byte list list \<Rightarrow> net \<Rightarrow> sink
     \<Rightarrow> cipher_kind \<Rightarrow> byte list \<Rightarrow> user_manager option \<Rightarrow> ('b, 'l) ss_context
     \<Rightarrow> ('c proxy_server \<times> ('b, 'l) ss_context) option" where
  "server_from_stream C H B L t draws net snk kind key um ctx =
     map_option (\<lambda>(cs, ctx).
       (\<lparr>ps_stream = cs, ps_writer = (if is_aead_2022 kind then PrepareHeader else ServerEstablished),
         ps_handshaked = False\<rparr>, ctx))
       (crypto_from_stream C H B L t draws net snk ServerStream kind key [] um ctx)"

definition server_poll_read ::
  "'c cipher_ops \<Rightarrow> hash_ops \<Rightarrow> (byte list \<Rightarrow> rstring) \<Rightarrow> (byte list \<Rightarrow> 'x \<Rightarrow> (unit, io_error) res \<times> 'x) \<Rightarrow> u64 \<Rightarrow> nat
     \<Rightarrow> 'c proxy_server \<times> 'x \<Rightarrow> (byte list, io_error) poll \<times> 'c proxy_server \<times> 'x" where
  "server_poll_read C H fmt chk now room s =
     (case s of (ps, x) \<Rightarrow>
      if \<not> ps_handshaked ps then (Ready (Err (io_other ''stream is not handshaked yet'')), ps, x)
      else (case crypto_pollr C H fmt chk now room (ps_stream ps, x) of (out, cs, x) \<Rightarrow> (out, ps\<lparr>ps_stream := cs\<rparr>, x)))"

definition server_poll_write ::
  "'c cipher_ops \<Rightarrow> (byte list \<Rightarrow> rstring) \<Rightarrow> u64 \<Rightarrow> byte list \<Rightarrow> 'c proxy_server
     \<Rightarrow> (nat, io_error) poll \<times> 'c proxy_server" where
  "server_poll_write C fmt now buf ps =
     (let go = (\<lambda>ps. case crypto_poll_write C now buf (ps_stream ps) of
                  (out, cs) \<Rightarrow> (poll_map_err (io_error_from_crypto fmt) out, ps\<lparr>ps_stream := cs\<rparr>))
      in case ps_writer ps of
           ServerEstablished \<Rightarrow> go ps
         | PrepareHeader \<Rightarrow>
             (case crypto_set_request_nonce_with_received (ps_stream ps) of
                None \<Rightarrow> (Ready Panic, ps)
              | Some (True, cs) \<Rightarrow> go (ps\<lparr>ps_stream := cs, ps_writer := ServerEstablished\<rparr>)
              | Some (False, cs) \<Rightarrow> (Pending, ps\<lparr>ps_stream := cs\<rparr>)))"

definition server_handshake ::
  "'c cipher_ops \<Rightarrow> hash_ops \<Rightarrow> (byte list \<Rightarrow> rstring) \<Rightarrow> (byte list \<Rightarrow> 'x \<Rightarrow> (unit, io_error) res \<times> 'x) \<Rightarrow> u64 \<Rightarrow> nat
     \<Rightarrow> ('c proxy_server \<times> 'x, address, io_error) task" where
  "server_handshake C H fmt chk now k s =
     (case s of (ps, x) \<Rightarrow>
      if ps_handshaked ps then Some (Err (io_other ''stream is already handshaked''), ps, x)
      else
        bind_task (proxy_header_read (server_poll_read C H fmt chk now) k (cs_method (ps_stream ps))) (\<lambda>header s.
          case header of
            StreamHeader addr \<Rightarrow> Some (Ok addr, s)
          | Aead2022Header addr padding \<Rightarrow>
              if padding = 0 then
                (case crypto_data_chunk_remaining (ps_stream (fst s)) of
                   None \<Rightarrow> Some (Panic, s)
                 | Some (chunk_count, chunk_remaining) \<Rightarrow>
                     if chunk_count = 1 \<and> chunk_remaining = 0
                     then Some (Err (io_other ''no payload in first data chunk, and padding is 0''), s)
                     else Some (Ok addr, s))
              else Some (Ok addr, s))
          (ps\<lparr>ps_handshaked := True\<rparr>, x))"

section \<open>The client's writes reach the tunnel\<close>

text \<open>What the client writes is what the tunnel is asked to send, with the address in front of the first
  message.\<close>

lemma client_sends_connected:
  assumes "sends (client_poll_write C fmt now drawn mem) ms pc ns pc'" "pc_writer pc = Connected"
  shows "sends (crypto_poll_write C now) ms (pc_stream pc) ns (pc_stream pc')"
  using assms
proof (induction rule: sends.induct)
  case (sends_wait m pc pc1 ms ns pc')
  then have "crypto_poll_write C now m (pc_stream pc) = (Pending, pc_stream pc1)" "pc_writer pc1 = Connected"
    by (auto simp: client_poll_write_def split: prod.splits)
  then show ?case using sends_wait.IH by (auto intro: sends.sends_wait)
next
  case (sends_more m pc n pc1 ms ns pc')
  then have "crypto_poll_write C now m (pc_stream pc) = (Ready (Ok n), pc_stream pc1)" "pc_writer pc1 = Connected"
    by (auto simp: client_poll_write_def split: prod.splits)
  then show ?case using sends_more.IH by (auto intro: sends.sends_more)
qed (rule sends.sends_none)

lemma client_first_cases:
  assumes "client_write_first C fmt now m buffer pc = (out, pc1)"
  shows "out = Pending \<Longrightarrow> crypto_poll_write C now buffer (pc_stream pc) = (Pending, pc_stream pc1) \<and> pc_writer pc1 = pc_writer pc"
    and "out = Ready (Ok n) \<Longrightarrow> n = length m \<and> pc_writer pc1 = Connected
           \<and> (\<exists>k. crypto_poll_write C now buffer (pc_stream pc) = (Ready (Ok k), pc_stream pc1))"
  using assms by (auto simp: client_write_first_def split: prod.splits poll.splits res.splits)

lemma client_sends_connecting:
  assumes "sends (client_poll_write C fmt now drawn mem) (m # ms) pc ns pc'" "pc_writer pc = Connecting buffer"
  shows "\<exists>k ks. ns = length m # ks \<and> sends (crypto_poll_write C now) (buffer # ms) (pc_stream pc) (k # ks) (pc_stream pc')"
  using assms
proof (induction "m # ms" pc ns pc' rule: sends.induct)
  case (sends_wait pc pc1 ns pc')
  then have "client_write_first C fmt now m buffer pc = (Pending, pc1)" by (simp add: client_poll_write_def)
  from client_first_cases(1) [OF this refl] sends_wait
  show ?case by (metis sends.sends_wait)
next
  case (sends_more pc n pc1 ns pc')
  then have "client_write_first C fmt now m buffer pc = (Ready (Ok n), pc1)" by (simp add: client_poll_write_def)
  from client_first_cases(2) [OF this refl] client_sends_connected [OF sends_more.hyps(2)]
  show ?case by (metis sends.sends_more)
qed

lemma client_sends_first:
  assumes "sends (client_poll_write C fmt now drawn mem) (m # ms) pc ns pc'" "pc_writer pc = Connect addr"
    and "make_first_packet_buffer (cs_method (pc_stream pc)) addr drawn mem m = Some buffer"
  shows "\<exists>k ks. ns = length m # ks \<and> sends (crypto_poll_write C now) (buffer # ms) (pc_stream pc) (k # ks) (pc_stream pc')"
proof -
  let ?pc = "pc\<lparr>pc_writer := Connecting buffer\<rparr>"
  have step: "client_poll_write C fmt now drawn mem m pc = client_poll_write C fmt now drawn mem m ?pc"
    using assms(2,3) by (simp add: client_poll_write_def)
  have "sends (client_poll_write C fmt now drawn mem) (m # ms) ?pc ns pc'"
    using assms(1) by cases (auto simp: step intro: sends.intros)
  from client_sends_connecting [OF this, of buffer] show ?thesis by simp
qed

section \<open>The first data chunk of an AEAD-2022 request\<close>

text \<open>
  Where an AEAD-2022 reader is within its first data chunk of \<open>F\<close> bytes, when \<open>T\<close> bytes follow that chunk:
  before it (the header announces its length), or inside it with the chunk counter at 1.
\<close>

definition in_first ::
  "'c cipher_ops \<Rightarrow> hash_ops \<Rightarrow> (byte list \<Rightarrow> 'x \<Rightarrow> (unit, io_error) res \<times> 'x) \<Rightarrow> u64 \<Rightarrow> nat \<Rightarrow> nat
     \<Rightarrow> 'c decrypted_reader_2022 \<times> net \<times> 'x \<Rightarrow> byte list \<Rightarrow> bool" where
  "in_first C H chk now F T s plain \<longleftrightarrow>
     (case s of (r, net, x) \<Rightarrow>
      case r2_state r of
        ReadHeader key \<Rightarrow> data_chunk_count r = 0 \<and> length plain = F + T
          \<and> fst (process_header C H chk now key (take (header_len r) (net_bytes net)) r x) = Ok F
      | ReadData2 len \<Rightarrow> data_chunk_count r = 0 \<and> len = F \<and> length plain = F + T
      | BufferedData2 pos \<Rightarrow> data_chunk_count r = 1 \<and> length (r2_buffer r) - pos + T = length plain
      | ReadLength2 \<Rightarrow> False)"

lemma process_header_count:
  assumes "process_header C H chk now key hb r x = (out, r1, x1)"
  shows "data_chunk_count r1 = data_chunk_count r"
  using assms
  by (auto simp: process_header_def header_cipher_def check_header_def Let_def
        split: prod.splits res.splits if_splits option.splits)

lemma in_first_header:
  assumes sync: "reader_sync_2022 C H chk now kind rs (r, net, x) plain"
    and inf: "in_first C H chk now F T (r, net, x) plain" and st: "r2_state r = ReadHeader key"
  shows "(\<exists>net'. reader_round_2022 C H chk now room (r, net, x) = Return (Pending, r, net', x)
            \<and> in_first C H chk now F T (r, net', x) plain)
       \<or> (\<exists>s'. reader_round_2022 C H chk now room (r, net, x) = Again s' \<and> in_first C H chk now F T s' plain)"
proof -
  obtain hb c m ms r1 x1 where ph: "process_header C H chk now key hb r x = (Ok (length m), r1, x1)"
    and net: "length hb = header_len r" "one_read (header_len r) net" "net_ok net"
    and bytes: "net_bytes net = hb @ fst (encrypt_packet C c m) @ fst (seal_frames C (snd (encrypt_packet C c m)) ms)"
    using sync st by (auto simp: reader_sync_2022_def)
  have pos: "0 < header_len r" by (simp add: header_len_def)
  have F: "data_chunk_count r = 0" "length plain = F + T" "length m = F"
    using inf st ph bytes net(1) by (simp_all add: in_first_def)
  from one_read_poll [OF net(2,3,1) bytes pos] show ?thesis
  proof (elim disjE exE conjE)
    fix net' assume "poll_read (header_len r) net = (Pending, net')" "net_bytes net' = net_bytes net"
    then show ?thesis using st inf by (simp add: reader_round_2022_def poll_read_header_def in_first_def)
  next
    fix net' assume p: "poll_read (header_len r) net = (Ready (Ok hb), net')"
    have "hb \<noteq> []" using net(1) pos by auto
    then show ?thesis using p st ph net(1) F process_header_count [OF ph]
      by (simp add: reader_round_2022_def poll_read_header_def in_first_def Let_def)
  qed
qed

lemma in_first_data:
  assumes laws: "cipher_laws C kind" "0 < tag_len kind" and sync: "reader_sync_2022 C H chk now kind rs (r, net, x) plain"
    and inf: "in_first C H chk now F T (r, net, x) plain" and st: "r2_state r = ReadData2 len"
  shows "(\<exists>r' net'. reader_round_2022 C H chk now room (r, net, x) = Return (Pending, r', net', x)
            \<and> in_first C H chk now F T (r', net', x) plain)
       \<or> (\<exists>s'. reader_round_2022 C H chk now room (r, net, x) = Again s' \<and> in_first C H chk now F T s' plain)"
proof -
  let ?n = "len + tag_len kind"
  obtain c m ms where c: "r2_cipher r = Some c" and m: "len = length m" "length (r2_buffer r) \<le> ?n"
    and bytes: "r2_buffer r @ net_bytes net = fst (encrypt_packet C c m) @ fst (seal_frames C (snd (encrypt_packet C c m)) ms)"
    and kind: "r2_method r = kind" and ok: "net_ok net"
    using sync st by (auto simp: reader_sync_2022_def)
  have F: "data_chunk_count r = 0" "len = F" "length plain = F + T" using inf st by (simp_all add: in_first_def)
  have ct: "length (fst (encrypt_packet C c m)) = ?n" using laws(1) m(1) by (simp add: cipher_laws_def)
  have dec: "decrypt_packet C c (fst (encrypt_packet C c m)) = (Some m, snd (encrypt_packet C c m))"
    using laws(1) by (simp add: cipher_laws_def)
  have "0 < ?n" using laws(2) by simp
  from poll_read_exact_sim [OF ok bytes ct this m(2)] show ?thesis
  proof (elim disjE exE conjE)
    fix b net' assume "poll_read_exact ?n (r2_buffer r) net = (Pending, b, net')"
    then show ?thesis using st kind F by (simp add: reader_round_2022_def poll_read_data_2022_def in_first_def)
  next
    fix net' assume "poll_read_exact ?n (r2_buffer r) net = (Ready (Ok ?n), fst (encrypt_packet C c m), net')"
    then show ?thesis using st kind F c m(1) ct dec laws(2)
      by (simp add: reader_round_2022_def poll_read_data_2022_def in_first_def Let_def)
  qed
qed

lemma in_first_poll:
  assumes laws: "cipher_laws C kind" "0 < tag_len kind" "0 < room"
    and sync: "reader_sync_2022 C H chk now kind rs s plain"
    and inf: "in_first C H chk now F T s plain" and T: "T < length plain"
    and poll: "poll_read_decrypted_2022 C H chk now room s = (out, s')"
  shows "(out = Pending \<longrightarrow> in_first C H chk now F T s' plain)
    \<and> (\<forall>bs rest. out = Ready (Ok bs) \<longrightarrow> plain = bs @ rest \<longrightarrow> T \<le> length rest \<and> in_first C H chk now F T s' rest)"
  using laws sync inf T poll
proof (induction C H chk now room s rule: poll_read_decrypted_2022.induct)
  case (1 C H chk now room s)
  obtain r net x where s: "s = (r, net, x)" by (cases s)
  note snd = reader_round_2022_sound [OF "1.prems"(1-4) [unfolded s]]
  have again: ?case if a: "reader_round_2022 C H chk now room s = Again s1" "in_first C H chk now F T s1 plain" for s1
  proof -
    have "reader_sync_2022 C H chk now kind rs s1 plain" using snd a(1) by (simp add: s round_sound_2022_def)
    moreover have "poll_read_decrypted_2022 C H chk now room s1 = (out, s')"
      using "1.prems"(7) a(1) by (simp add: poll_read_decrypted_2022.simps [of C H chk now room s])
    ultimately show ?thesis using "1.IH" [OF a(1) "1.prems"(1-3)] a(2) "1.prems"(6) by blast
  qed
  show ?case
  proof (cases "r2_state r")
    case (ReadHeader key)
    from in_first_header [OF "1.prems"(4,5) [unfolded s] ReadHeader, of room] again show ?thesis
      using "1.prems"(7) by (auto simp: s poll_read_decrypted_2022.simps [of C H chk now room "(r, net, x)"])
  next
    case (ReadData2 len)
    from in_first_data [OF "1.prems"(1,2) "1.prems"(4,5) [unfolded s] ReadData2, of room] again show ?thesis
      using "1.prems"(7) by (auto simp: s poll_read_decrypted_2022.simps [of C H chk now room "(r, net, x)"])
  next
    case ReadLength2
    then show ?thesis using "1.prems"(5) by (simp add: s in_first_def)
  next
    case (BufferedData2 pos)
    then have "length (r2_buffer r) - pos + T = length plain" using "1.prems"(5) by (simp add: s in_first_def)
    then have "pos < length (r2_buffer r)" using "1.prems"(6) by linarith
    then show ?thesis using BufferedData2 "1.prems"(5,7)
      by (auto simp: s poll_read_decrypted_2022.simps [of C H chk now room "(r, net, x)"] reader_round_2022_def
            in_first_def Let_def)
  qed
qed

section \<open>The server's stream\<close>

definition server_ahead ::
  "'c cipher_ops \<Rightarrow> hash_ops \<Rightarrow> (byte list \<Rightarrow> 'x \<Rightarrow> (unit, io_error) res \<times> 'x) \<Rightarrow> u64 \<Rightarrow> byte list option
     \<Rightarrow> 'c proxy_server \<times> 'x \<Rightarrow> byte list \<Rightarrow> bool" where
  "server_ahead C H chk now rs s plain \<longleftrightarrow>
     ps_handshaked (fst s) \<and> crypto_ahead C H chk now rs (ps_stream (fst s), snd s) plain"

lemma server_poll_read_step:
  assumes "ps_handshaked ps" "crypto_pollr C H fmt chk now room (ps_stream ps, x) = (out, cs, x')"
  shows "server_poll_read C H fmt chk now room (ps, x) = (out, ps\<lparr>ps_stream := cs\<rparr>, x')"
  using assms by (simp add: server_poll_read_def)

interpretation server_reader: byte_reader "server_poll_read C H fmt chk now" "server_ahead C H chk now rs"
    "\<lambda>s. length (cs_net (ps_stream (fst s)))"
  for C :: "'c cipher_ops" and H fmt and chk :: "byte list \<Rightarrow> 'x \<Rightarrow> (unit, io_error) res \<times> 'x" and now rs
proof unfold_locales
  fix s :: "'c proxy_server \<times> 'x" and plain room
  assume a: "server_ahead C H chk now rs s plain" "(0 :: nat) < room"
  obtain ps x where s: "s = (ps, x)" by (cases s)
  have h: "ps_handshaked ps" "crypto_ahead C H chk now rs (ps_stream ps, x) plain"
    using a(1) by (simp_all add: s server_ahead_def)
  note step = server_poll_read_step [OF h(1), of C H fmt chk now room x]
  from crypto_reader.poll_cases [where fmt = fmt, OF h(2) a(2)]
  show "(\<exists>s'. server_poll_read C H fmt chk now room s = (Pending, s') \<and> server_ahead C H chk now rs s' plain
            \<and> length (cs_net (ps_stream (fst s'))) < length (cs_net (ps_stream (fst s))))
       \<or> (\<exists>bs rest s'. server_poll_read C H fmt chk now room s = (Ready (Ok bs), s') \<and> plain = bs @ rest
            \<and> length bs \<le> room \<and> (bs = [] \<longrightarrow> plain = []) \<and> server_ahead C H chk now rs s' rest
            \<and> length (cs_net (ps_stream (fst s'))) \<le> length (cs_net (ps_stream (fst s))))"
    unfolding s using h(1) by (elim disjE exE conjE) (fastforce simp: server_ahead_def dest: step)+
qed

text \<open>The server within the first data chunk: \<open>p\<close> is what is left of that chunk and \<open>t\<close> what follows it.\<close>

definition first_ahead ::
  "'c cipher_ops \<Rightarrow> hash_ops \<Rightarrow> (byte list \<Rightarrow> 'x \<Rightarrow> (unit, io_error) res \<times> 'x) \<Rightarrow> u64 \<Rightarrow> byte list option \<Rightarrow> nat \<Rightarrow> byte list
     \<Rightarrow> 'c proxy_server \<times> 'x \<Rightarrow> byte list \<Rightarrow> bool" where
  "first_ahead C H chk now rs F t s p \<longleftrightarrow>
     server_ahead C H chk now rs s (p @ t)
     \<and> (case cs_dec (ps_stream (fst s)) of
          DecAead2022 r \<Rightarrow> in_first C H chk now F (length t) (r, cs_net (ps_stream (fst s)), snd s) (p @ t)
        | _ \<Rightarrow> False)"

lemma crypto_pollr_2022:
  assumes "crypto_pollr C H fmt chk now room (cs, x) = (out, cs', x')" "cs_dec cs = DecAead2022 r"
  obtains r' where "cs_dec cs' = DecAead2022 r'"
    "\<And>o'. out = Pending \<or> out = Ready (Ok o') \<Longrightarrow>
       \<exists>o2. poll_read_decrypted_2022 C H chk now room (r, cs_net cs, x) = (o2, r', cs_net cs', x')
          \<and> (out = Pending \<longrightarrow> o2 = Pending) \<and> (out = Ready (Ok o') \<longrightarrow> o2 = Ready (Ok o'))"
proof -
  obtain o2 r' net' x2 where p: "poll_read_decrypted_2022 C H chk now room (r, cs_net cs, x) = (o2, r', net', x2)"
    by (metis prod_cases4)
  have "cs_dec cs' = DecAead2022 r' \<and> cs_net cs' = net' \<and> x' = x2
      \<and> (out = Pending \<longrightarrow> o2 = Pending) \<and> (\<forall>o'. out = Ready (Ok o') \<longrightarrow> o2 = Ready (Ok o'))"
    using assms p
    by (auto simp: crypto_pollr_def crypto_poll_read_def Let_def split: poll.splits res.splits if_splits option.splits)
  then show thesis using p that by blast
qed

interpretation first_reader: byte_source "server_poll_read C H fmt chk now" "first_ahead C H chk now rs F t"
    "\<lambda>s. length (cs_net (ps_stream (fst s)))"
  for C :: "'c cipher_ops" and H fmt and chk :: "byte list \<Rightarrow> 'x \<Rightarrow> (unit, io_error) res \<times> 'x" and now rs F t
proof unfold_locales
  fix s :: "'c proxy_server \<times> 'x" and p room
  assume a: "first_ahead C H chk now rs F t s p" "p \<noteq> []" "(0 :: nat) < room"
  obtain ps x where s: "s = (ps, x)" by (cases s)
  obtain r where r: "cs_dec (ps_stream ps) = DecAead2022 r"
    and inf: "in_first C H chk now F (length t) (r, cs_net (ps_stream ps), x) (p @ t)"
    and sa: "server_ahead C H chk now rs (ps, x) (p @ t)"
    using a(1) by (auto simp: first_ahead_def s split: dec_reader.splits)
  have h: "ps_handshaked ps" "cipher_laws C (r2_method r)" "0 < tag_len (r2_method r)"
    "reader_sync_2022 C H chk now (r2_method r) rs (r, cs_net (ps_stream ps), x) (p @ t)"
    using sa r by (simp_all add: server_ahead_def crypto_ahead_def dec_ahead_def)
  obtain out cs' x' where q: "crypto_pollr C H fmt chk now room (ps_stream ps, x) = (out, cs', x')" by (metis prod_cases3)
  obtain r' where r': "cs_dec cs' = DecAead2022 r'"
    and poll: "\<And>o'. out = Pending \<or> out = Ready (Ok o') \<Longrightarrow>
       \<exists>o2. poll_read_decrypted_2022 C H chk now room (r, cs_net (ps_stream ps), x) = (o2, r', cs_net cs', x')
          \<and> (out = Pending \<longrightarrow> o2 = Pending) \<and> (out = Ready (Ok o') \<longrightarrow> o2 = Ready (Ok o'))"
    using crypto_pollr_2022 [OF q r] by metis
  note step = server_poll_read_step [OF h(1) q]
  have T: "length t < length (p @ t)" using a(2) by simp
  note first = in_first_poll [OF h(2,3) a(3) h(4) inf T]
  from server_reader.poll_cases [where fmt = fmt, OF sa a(3)]
  show "(\<exists>s'. server_poll_read C H fmt chk now room s = (Pending, s') \<and> first_ahead C H chk now rs F t s' p
            \<and> length (cs_net (ps_stream (fst s'))) < length (cs_net (ps_stream (fst s))))
       \<or> (\<exists>bs rest s'. server_poll_read C H fmt chk now room s = (Ready (Ok bs), s') \<and> p = bs @ rest
            \<and> length bs \<le> room \<and> bs \<noteq> [] \<and> first_ahead C H chk now rs F t s' rest
            \<and> length (cs_net (ps_stream (fst s'))) \<le> length (cs_net (ps_stream (fst s))))"
  proof (elim disjE exE conjE)
    fix s' assume b: "server_poll_read C H fmt chk now room (ps, x) = (Pending, s')" "server_ahead C H chk now rs s' (p @ t)"
      "length (cs_net (ps_stream (fst s'))) < length (cs_net (ps_stream (fst (ps, x))))"
    then have "out = Pending" "s' = (ps\<lparr>ps_stream := cs'\<rparr>, x')" using step by simp_all
    with poll [of "[]"] first b r' show ?thesis by (auto simp: s first_ahead_def)
  next
    fix bs rest s' assume b: "server_poll_read C H fmt chk now room (ps, x) = (Ready (Ok bs), s')" "p @ t = bs @ rest"
      "length bs \<le> room" "bs = [] \<longrightarrow> p @ t = []" "server_ahead C H chk now rs s' rest"
      "length (cs_net (ps_stream (fst s'))) \<le> length (cs_net (ps_stream (fst (ps, x))))"
    then have o: "out = Ready (Ok bs)" "s' = (ps\<lparr>ps_stream := cs'\<rparr>, x')" using step by simp_all
    with poll [of bs] first b(2) have f: "length t \<le> length rest"
      "in_first C H chk now F (length t) (r', cs_net cs', x') rest" by auto
    then obtain u where u: "rest = u @ t" "p = bs @ u"
      using b(2) by (auto simp: append_eq_append_conv2)
    then show ?thesis using b o f r' a(2) by (auto simp: s first_ahead_def intro!: exI [of _ u])
  qed
qed

section \<open>Requests\<close>

context byte_source
begin

lemma stream_header_ok:
  assumes "ahead s (a @ m)" "events s < k" "wf_address addr" "write_address addr = Some a" "category kind \<noteq> CatAead2022"
  shows "\<exists>s'. proxy_header_read pollr k kind s = Some (Ok (StreamHeader addr), s') \<and> ahead s' m \<and> events s' \<le> events s"
proof -
  have "read_from (a @ m, At_Eof) = Ok (addr, (m, At_Eof))" by (rule read_from_write_address [OF assms(3,4)])
  with assms(1,2) obtain s' where "address_read_task (read_exact_task pollr k) s = Some (Ok addr, s')"
    "ahead s' m" "events s' \<le> events s" by (rule address_ok)
  then show ?thesis using assms(5)
    by (simp add: proxy_header_read_def bind_task_def task_ok_def split: cipher_category.splits)
qed

lemma aead2022_header_ok:
  assumes "ahead s (a @ be_of 2 padding @ pad @ m)" "events s < k" "wf_address addr" "write_address addr = Some a"
    and "length pad = unat padding"
  shows "\<exists>s'. aead2022_header_read pollr k s = Some (Ok (Aead2022Header addr padding), s')
    \<and> ahead s' m \<and> events s' \<le> events s"
proof -
  let ?r = "be_of 2 padding @ pad @ m"
  have "read_from (a @ ?r, At_Eof) = Ok (addr, (?r, At_Eof))" by (rule read_from_write_address [OF assms(3,4)])
  with assms(1,2) obtain s1 where s1: "address_read_task (read_exact_task pollr k) s = Some (Ok addr, s1)"
    "ahead s1 ?r" "events s1 \<le> events s" by (rule address_ok)
  have "events s1 < k" "2 \<le> length ?r" using s1(3) assms(2) by simp_all
  with s1(2) obtain s2 where s2: "read_exact_task pollr k 2 s1 = Some (Ok (take 2 ?r), s2)"
    "ahead s2 (drop 2 ?r)" "events s2 \<le> events s1" by (rule exact_ok)
  have "events s2 < k" "unat padding \<le> length (pad @ m)" using s1(3) s2(3) assms(2,5) by simp_all
  from skip_ok [OF _ this] s2(2) obtain s3 where s3: "skip_task pollr k (unat padding) s2 = Some (Ok (), s3)"
    "ahead s3 m" "events s3 \<le> events s2" using assms(5) by auto
  have "padding = 0 \<Longrightarrow> ahead s2 m" using s2(2) assms(5) by simp
  then show ?thesis using s1 s2 s3
    by (auto simp: aead2022_header_read_def bind_task_def task_ok_def Let_def word_gt_0)
qed

end

text \<open>The nonce a client draws has the length of its draws.\<close>

lemma generate_nonce_loop_mem:
  "generate_nonce_loop B L t kind u draws ctx = Some (iv, ctx') \<Longrightarrow> iv \<in> set draws"
  by (induction draws arbitrary: ctx) (auto split: if_splits prod.splits)

lemma crypto_from_stream_enc:
  assumes "crypto_from_stream C H B L t draws net snk ty kind key ids um ctx = Some (cs, ctx')" "category kind \<noteq> CatNone"
  defines "n \<equiv> (if category kind = CatStream then iv_len kind else salt_len kind)"
  assumes "\<forall>d \<in> set draws. length d = n"
  obtains iv where "length iv = n" "cs_enc cs = enc_with_identity C H ty kind key iv ids"
    "cs_dec cs = dec_with_user_manager C ty kind key um" "cs_net cs = net" "cs_sink cs = snk" "cs_method cs = kind"
    "\<not> cs_handshaked cs"
proof -
  obtain iv where iv: "generate_nonce B L t kind n (category kind \<noteq> CatAead2022) draws ctx = Some (iv, ctx')"
    and cs: "cs = \<lparr>cs_net = net, cs_sink = snk, cs_dec = dec_with_user_manager C ty kind key um,
       cs_enc = enc_with_identity C H ty kind key iv ids, cs_method = kind, cs_handshaked = False\<rparr>"
    using assms(1,2) by (cases "category kind") (auto simp: crypto_from_stream_def n_def Let_def split: option.splits)
  have "length iv = n" using iv assms(4) generate_nonce_loop_mem by (fastforce simp: generate_nonce_def split: if_splits)
  then show thesis by (rule that) (simp_all add: cs)
qed

lemma server_from_stream_state:
  assumes "server_from_stream C H B L t draws net snk kind key um ctx = Some (ps, ctx')" "category kind \<noteq> CatNone"
  obtains iv where "ps_stream ps = \<lparr>cs_net = net, cs_sink = snk, cs_dec = dec_with_user_manager C ServerStream kind key um,
       cs_enc = enc_with_identity C H ServerStream kind key iv [], cs_method = kind, cs_handshaked = False\<rparr>"
    "\<not> ps_handshaked ps"
  using assms
  by (cases "category kind") (auto simp: server_from_stream_def crypto_from_stream_def Let_def split: option.splits)

text \<open>What a new client puts on the wire.\<close>

lemma client_wire:
  assumes "client_from_stream C H B L t draws cnet \<lparr>sink_events = evs, sunk = []\<rparr> kind key ids addr ctx = Some (pc, ctx')"
    and "category kind = CatStream \<Longrightarrow> key_stream_laws C" "category kind \<noteq> CatNone"
    and "\<forall>d \<in> set draws. length d = (if category kind = CatStream then iv_len kind else salt_len kind)"
    and "sends (client_poll_write C fmt ts drawn mem) (m # ms) pc ns pc'"
    and "make_first_packet_buffer kind addr drawn mem m = Some buffer"
  obtains iv where "length iv = (if category kind = CatStream then iv_len kind else salt_len kind)"
    "cs_enc (pc_stream pc) = enc_with_identity C H ClientStream kind key iv ids"
    "ns = length m # map (length \<circ> crypto_cut (enc_with_identity C H ClientStream kind key iv ids)) ms"
    "sunk (cs_sink (pc_stream pc')) = crypto_wire C ts (enc_with_identity C H ClientStream kind key iv ids)
       (map (crypto_cut (enc_with_identity C H ClientStream kind key iv ids)) (buffer # ms))"
proof -
  have "crypto_from_stream C H B L t draws cnet \<lparr>sink_events = evs, sunk = []\<rparr> ClientStream kind key ids None ctx
      = Some (pc_stream pc, ctx')" and w: "pc_writer pc = Connect addr"
    using assms(1) by (auto simp: client_from_stream_def)
  from crypto_from_stream_enc [OF this(1) assms(3,4)] obtain iv where
    iv: "length iv = (if category kind = CatStream then iv_len kind else salt_len kind)"
      "cs_enc (pc_stream pc) = enc_with_identity C H ClientStream kind key iv ids"
      "cs_sink (pc_stream pc) = \<lparr>sink_events = evs, sunk = []\<rparr>" "cs_method (pc_stream pc) = kind" by metis
  let ?e = "enc_with_identity C H ClientStream kind key iv ids"
  have wrote: "crypto_wrote C ts ?e (pc_stream pc) []" and idle: "crypto_idle (pc_stream pc)"
    using iv assms(2,3) stream_writer_new_wrote [of C kind key iv evs]
    by (auto simp: crypto_wrote_def crypto_idle_def enc_with_identity_def aead_wrote_def aead2022_wrote_def
          stream_writer_new_def writer_new_def writer2022_with_identity_def writer_total_def writer_total_2022_def
          writer_wf_def writer_wf_2022_def aead2022_wire_def idle_2022_def aead_wire_def split: cipher_category.splits)
  from client_sends_first [OF assms(5) w assms(6) [folded iv(4)]] obtain j js where
    "ns = length m # js" "sends (crypto_poll_write C ts) (buffer # ms) (pc_stream pc) (j # js) (pc_stream pc')" by blast
  with crypto_writer.sends_wire [OF this(2) wrote idle] show thesis by (intro that [OF iv(1,2)]) auto
qed

text \<open>The server's stream over what a client with a stream or AEAD cipher wrote.\<close>

lemma request_ahead:
  fixes C :: "'c cipher_ops" and H :: hash_ops and key :: "byte list" and ids :: "byte list list"
  assumes "category kind = CatStream \<and> key_stream_laws C \<and> 0 < iv_len kind
       \<or> category kind = CatAead \<and> cipher_laws C kind \<and> 0 < tag_len kind \<and> 0 < salt_len kind"
    and "length iv = (if category kind = CatStream then iv_len kind else salt_len kind)"
  defines "e \<equiv> enc_with_identity C H ClientStream kind key iv ids"
  assumes "net_ok net" "net_bytes net = crypto_wire C ts e (map (crypto_cut e) ms)" "fst (chk iv x) = Ok ()"
    and "cs_dec cs = dec_with_user_manager C ServerStream kind key um" "cs_net cs = net"
  shows "crypto_ahead C H chk now rs (cs, x) (concat (map (crypto_cut e) ms))"
  using assms(1)
proof (elim disjE conjE)
  assume c: "category kind = CatStream" "key_stream_laws C" "0 < iv_len kind"
  then have "stream_ahead C chk (stream_reader_new C kind key, net, x) (concat (map (crypto_cut e) ms))"
    using assms by (intro stream_reader_new_ahead) (simp_all add: crypto_wire_def enc_with_identity_def stream_writer_new_def)
  then show ?thesis using c assms(7,8) by (simp add: crypto_ahead_def dec_ahead_def dec_with_user_manager_def)
next
  assume c: "category kind = CatAead" "cipher_laws C kind" "0 < tag_len kind" "0 < salt_len kind"
  have bytes: "net_bytes net = iv @ fst (seal_frames C (cipher_new C kind key iv) (map (crypto_cut e) ms))"
    using c(1) assms(5) by (simp add: e_def crypto_wire_def enc_with_identity_def aead_wire_def writer_new_def)
  have "\<forall>m \<in> set (map (crypto_cut e) ms). length m \<le> MAX_PACKET_SIZE"
    using c(1) by (auto simp: e_def crypto_cut_def enc_with_identity_def)
  moreover have "length iv = salt_len kind" using assms(2) c(1) by simp
  ultimately have "reader_sync C kind chk (reader_new C kind key, net, x) (concat (map (crypto_cut e) ms))"
    using c(4) assms(4,6) bytes by (intro reader_new_sync [of iv])
  then show ?thesis using c assms(7,8) by (simp add: crypto_ahead_def dec_ahead_def dec_with_user_manager_def reader_new_def)
qed

text \<open>
  C3: A proxied request arrives, with stream and AEAD ciphers. A client is opened for a target address
  and writes any messages through an arbitrarily blocking transport; its bytes reach the server cut and
  delayed arbitrarily. If the nonce is new to the server, the server's handshake returns exactly the
  client's target address, within as many polls as there are network events, and what the server then
  reads is the client's messages in order, all of them once it has polled often enough. The first
  packet, with the address in front, has to fit into one packet of 0x3FFF bytes.
\<close>

theorem proxy_request_delivered:
  assumes "category kind = CatStream \<and> key_stream_laws C \<and> 0 < iv_len kind
       \<or> category kind = CatAead \<and> cipher_laws C kind \<and> 0 < tag_len kind \<and> 0 < salt_len kind"
    and "wf_address addr" "get_addr_len addr + length m \<le> MAX_PACKET_SIZE"
    and "client_from_stream C H B L t draws cnet \<lparr>sink_events = evs, sunk = []\<rparr> kind key ids addr ctx = Some (pc, ctx')"
    and "\<forall>d \<in> set draws. length d = (if category kind = CatStream then iv_len kind else salt_len kind)"
    and "sends (client_poll_write C fmt ts drawn mem) (m # ms) pc ns pc'"
    and "server_from_stream C H Bs Ls t' draws' net snk kind key um sctx = Some (ps, sctx')"
    and "net_ok net" "net_bytes net = sunk (cs_sink (pc_stream pc'))" "length net < k"
    and "fst (check_nonce_replay Bs Ls t' kind (enc_nonce (cs_enc (pc_stream pc))) sctx') = Ok ()"
    and "\<forall>room \<in> set rooms. 0 < room"
  defines "fit \<equiv> crypto_cut (cs_enc (pc_stream pc))"
  defines "sent \<equiv> m @ concat (map fit ms)"
  shows "ns = length m # map (length \<circ> fit) ms
    \<and> (\<exists>s s' got rest. server_handshake C H fmt (check_nonce_replay Bs Ls t' kind) now k (ps, sctx') = Some (Ok addr, s)
         \<and> collect (server_poll_read C H fmt (check_nonce_replay Bs Ls t' kind) now) rooms s = (Ok got, s')
         \<and> got @ rest = sent \<and> (length net + length sent \<le> length rooms \<longrightarrow> rest = []))"
proof -
  let ?chk = "check_nonce_replay Bs Ls t' kind"
  have cat: "category kind \<noteq> CatNone" "category kind \<noteq> CatAead2022" "category kind = CatStream \<Longrightarrow> key_stream_laws C"
    using assms(1) by auto
  obtain a where a: "write_address addr = Some a" using wf_write_address [OF assms(2)] by blast
  have first: "make_first_packet_buffer kind addr drawn mem m = Some (a @ m)"
    using a cat(2) by (simp add: make_first_packet_buffer_def is_aead_2022_def Let_def)
  obtain iv where iv: "length iv = (if category kind = CatStream then iv_len kind else salt_len kind)"
    and e: "cs_enc (pc_stream pc) = enc_with_identity C H ClientStream kind key iv ids"
    and ns: "ns = length m # map (length \<circ> fit) ms"
    and wire: "sunk (cs_sink (pc_stream pc')) = crypto_wire C ts (cs_enc (pc_stream pc)) (map fit ((a @ m) # ms))"
    using client_wire [OF assms(4) cat(3) cat(1) assms(5,6) first] unfolding fit_def by metis
  have nonce: "enc_nonce (cs_enc (pc_stream pc)) = iv"
    using cat by (simp add: e enc_with_identity_def stream_writer_new_def writer_new_def split: cipher_category.splits)
  have small: "fit (a @ m) = a @ m"
    using assms(3) write_address_Some_length [OF a] by (simp add: fit_def crypto_cut_def e enc_with_identity_def split: cipher_category.splits)
  have plain: "concat (map fit ((a @ m) # ms)) = a @ sent" by (simp only: list.map concat.simps small sent_def append_assoc)
  obtain iv' where ps: "ps_stream ps = \<lparr>cs_net = net, cs_sink = snk, cs_dec = dec_with_user_manager C ServerStream kind key um,
       cs_enc = enc_with_identity C H ServerStream kind key iv' [], cs_method = kind, cs_handshaked = False\<rparr>"
    and nh: "\<not> ps_handshaked ps" using server_from_stream_state [OF assms(7) cat(1)] by blast
  let ?s = "(ps\<lparr>ps_handshaked := True\<rparr>, sctx')"
  have "crypto_ahead C H ?chk now None (ps_stream ps, sctx') (a @ sent)"
    unfolding plain [symmetric] fit_def e
    by (rule request_ahead [where um = um, OF assms(1) iv assms(8)])
       (use assms(9,11) wire nonce in \<open>simp_all add: ps fit_def e\<close>)
  then have "server_ahead C H ?chk now None ?s (a @ sent)" by (simp add: server_ahead_def)
  from server_reader.stream_header_ok [where fmt = fmt, OF this _ assms(2) a cat(2), of k] assms(10) obtain s where
    s: "proxy_header_read (server_poll_read C H fmt ?chk now) k kind ?s = Some (Ok (StreamHeader addr), s)"
      "server_ahead C H ?chk now None s sent" "length (cs_net (ps_stream (fst s))) \<le> length net"
    by (auto simp: ps)
  from server_reader.collect_sound [where fmt = fmt, OF s(2) assms(12)] s(1,3) nh ns show ?thesis
    by (auto simp: server_handshake_def bind_task_def ps)
qed

text \<open>An instance: a request for hi:80 with the payload 7, 6.\<close>

definition demo_target :: address where
  "demo_target = DomainNameAddress [104, 105] 80"

definition demo_client :: "byte list \<Rightarrow> nat \<Rightarrow> encrypt_write_state \<Rightarrow> client_write_state \<Rightarrow> sink \<Rightarrow> nat proxy_client" where
  "demo_client buf c st cw snk =
     \<lparr>pc_stream = \<lparr>cs_net = [], cs_sink = snk, cs_dec = dec_with_user_manager mask_cipher ClientStream stream_kind [5] None,
        cs_enc = EncStream \<lparr>sw_cipher = c, sw_buffer = buf, sw_state = st, sw_iv = [8, 9]\<rparr>,
        cs_method = stream_kind, cs_handshaked = False\<rparr>,
      pc_writer = cw, pc_reader = ClientEstablished\<rparr>"

abbreviation "demo_first \<equiv> [3, 2, 104, 105, 0, 80, 7, 6] :: byte list"
abbreviation "demo_wire \<equiv> [8, 9, 2, 0, 107, 109, 5, 86, 0, 14] :: byte list"
abbreviation "demo_start \<equiv> demo_client [8, 9] 1 AssemblePacket (Connect demo_target)
  \<lparr>sink_events = [Accept 3, SinkBlock, Accept 100], sunk = []\<rparr>"
abbreviation "demo_stop \<equiv> demo_client [] 9 AssemblePacket Connected \<lparr>sink_events = [], sunk = demo_wire\<rparr>"

lemma demo_sends:
  "sends (client_poll_write mask_cipher (\<lambda>s. []) 0 0 []) [[7, 6]] demo_start [2] demo_stop"
proof (rule sends_wait [OF _ sends_more [OF _ sends_none]])
  show "client_poll_write mask_cipher (\<lambda>s. []) 0 0 [] [7, 6] demo_start
    = (Pending, demo_client demo_wire 9 (Writing 3) (Connecting demo_first) \<lparr>sink_events = [Accept 100], sunk = [8, 9, 2]\<rparr>)"
    by code_simp
  show "client_poll_write mask_cipher (\<lambda>s. []) 0 0 [] [7, 6]
      (demo_client demo_wire 9 (Writing 3) (Connecting demo_first) \<lparr>sink_events = [Accept 100], sunk = [8, 9, 2]\<rparr>)
    = (Ready (Ok 2), demo_stop)"
    by code_simp
qed

definition demo_ctx :: "(byte list list, (byte list \<times> nat) list) ss_context" where
  "demo_ctx = (context_new exact_bloom exact_lru ServerType)\<lparr>replay_policy := PolicyIgnore\<rparr>"

abbreviation "demo_server net \<equiv>
  (case server_from_stream mask_cipher demo_hash exact_bloom (exact_lru 60000) 0 [[4, 4]] net
     \<lparr>sink_events = [], sunk = []\<rparr> stream_kind [5] None demo_ctx of Some (ps, ctx) \<Rightarrow> ps)"

lemma demo_endpoints:
  "client_from_stream mask_cipher demo_hash exact_bloom (exact_lru 60000) 0 [[8, 9]] []
     \<lparr>sink_events = [Accept 3, SinkBlock, Accept 100], sunk = []\<rparr> stream_kind [5] [] demo_target demo_ctx
   = Some (demo_start, demo_ctx)"
  "server_from_stream mask_cipher demo_hash exact_bloom (exact_lru 60000) 0 [[4, 4]] net
     \<lparr>sink_events = [], sunk = []\<rparr> stream_kind [5] None demo_ctx = Some (demo_server net, demo_ctx)"
  "fst (check_nonce_replay exact_bloom (exact_lru 60000) 0 stream_kind [8, 9] demo_ctx) = Ok ()"
  by (simp_all add: client_from_stream_def server_from_stream_def crypto_from_stream_def stream_kind_def is_aead_2022_def
        demo_client_def enc_with_identity_def stream_writer_new_def mask_cipher_def dec_with_user_manager_def demo_ctx_def
        generate_nonce_def context_check_nonce_and_set_def check_nonce_replay_def)

theorem proxy_request_delivered_witness:
  "\<exists>s s'. server_handshake mask_cipher demo_hash (\<lambda>s. []) (check_nonce_replay exact_bloom (exact_lru 60000) 0 stream_kind) 0 4
       (demo_server [Data [8], WouldBlock, Data (drop 1 demo_wire)], demo_ctx) = Some (Ok demo_target, s)
     \<and> collect (server_poll_read mask_cipher demo_hash (\<lambda>s. []) (check_nonce_replay exact_bloom (exact_lru 60000) 0 stream_kind) 0)
          (replicate 5 1) s = (Ok [7, 6], s')"
proof -
  let ?net = "[Data [8], WouldBlock, Data (drop 1 demo_wire)]"
  have nonce: "enc_nonce (cs_enc (pc_stream demo_start)) = [8, 9]" by (simp add: demo_client_def)
  have "valid_utf8 [104, 105]" by code_simp
  then have "wf_address demo_target" "get_addr_len demo_target + length [7, 6 :: byte] \<le> MAX_PACKET_SIZE"
    by (simp_all add: demo_target_def)
  from proxy_request_delivered [OF _ this demo_endpoints(1) _ demo_sends demo_endpoints(2) _ _ _ _ _, of ?net 4 "replicate 5 1" 0]
  show ?thesis using mask_cipher_laws demo_endpoints(3)
    by (auto simp: nonce stream_kind_def demo_client_def)
qed

end
