(* ===== verification/Proxy_Session.thy ===== *)
theory Proxy_Session
  imports Proxy_Stream
begin

text \<open>
  A proxied connection with AEAD-2022: the request with its padding, the check that a request without
  payload is padded, and the response that carries the salt of the request.
\<close>

section \<open>The request\<close>

lemma crypto_cut_2022: "crypto_cut (EncAead2022 w) = take MAX_PACKET_SIZE_2022"
  by (rule ext) (simp add: crypto_cut_def)

lemma request_first:
  assumes "cipher_laws C kind" "hash_laws H" "0 < tag_len kind" "0 < salt_len kind" "length salt = salt_len kind"
    and "keys_match H kind ids key skey um" "timestamp_ok now ts" "fst (chk salt x) = Ok ()"
    and "category kind = CatAead2022"
  defines "e \<equiv> enc_with_identity C H ClientStream kind key salt ids"
    and "r \<equiv> reader2022_with_user_manager C ServerStream kind skey um"
  assumes "net_ok net" "one_read (header_len r) net"
    and "net_bytes net = crypto_wire C ts e (map (crypto_cut e) (p # ms))" "length p \<le> MAX_PACKET_SIZE_2022"
    and "cs_net (ps_stream ps) = net" "cs_dec (ps_stream ps) = DecAead2022 r" "\<exists>w. cs_enc (ps_stream ps) = EncAead2022 w"
    and "ps_handshaked ps"
  shows "\<exists>rs. first_ahead C H chk now rs (length p) (concat (map (crypto_cut e) ms)) (ps, x) p"
proof -
  let ?w = "writer2022_with_identity C H ClientStream kind key salt ids"
  define h where "h = encrypt_packet C (w2_cipher ?w) (header_plain ClientStream ts None (length p))"
  have e: "e = EncAead2022 ?w" using assms(9) by (simp add: e_def enc_with_identity_def)
  have w: "w2_state ?w = AssembleHeader" "w2_stream_ty ?w = ClientStream" "w2_request_salt ?w = None"
    by (simp_all add: writer2022_with_identity_def)
  have nb: "net_bytes net = w2_buffer ?w @ fst (seal_next C ts ?w p)
      @ fst (seal_frames C (snd (seal_next C ts ?w p)) (map (crypto_cut e) ms))"
    using assms(14,15) by (simp add: e crypto_wire_def aead2022_wire_def crypto_cut_def)
  have small: "\<forall>m \<in> set (map (crypto_cut e) ms). length m \<le> MAX_PACKET_SIZE_2022" by (auto simp: e crypto_cut_def)
  obtain rs where sync: "reader_sync_2022 C H chk now kind rs (r, net, x) (p @ concat (map (crypto_cut e) ms))"
    using request_sync [where chk = chk and x = x, OF assms(1,2,5,4,6,7,8,12) assms(13) [unfolded r_def] nb assms(15) small]
    unfolding r_def by blast
  have hd: "length (w2_buffer ?w @ fst h) = header_len r"
    "fst (process_header C H chk now skey (w2_buffer ?w @ fst h) r x) = Ok (length p)"
    using request_header_accepted [where chk = chk and x = x, OF assms(1,2,5,4,6,7,8,15)] unfolding r_def h_def by auto
  have "net_bytes net = (w2_buffer ?w @ fst h) @ fst (encrypt_packet C (snd h) p)
      @ fst (seal_frames C (snd (seal_next C ts ?w p)) (map (crypto_cut e) ms))"
    using nb seal_next_header(1) [OF w(1), of C ts p] by (simp add: w h_def)
  then have "take (header_len r) (net_bytes net) = w2_buffer ?w @ fst h" using hd(1) by (metis append_eq_conv_conj)
  then have inf: "in_first C H chk now (length p) (length (concat (map (crypto_cut e) ms))) (r, net, x)
      (p @ concat (map (crypto_cut e) ms))"
    using hd(2) assms(4) by (simp add: in_first_def r_def reader2022_with_user_manager_def)
  have "r2_method r = kind" by (simp add: r_def reader2022_with_user_manager_def)
  then have "server_ahead C H chk now rs (ps, x) (p @ concat (map (crypto_cut e) ms))"
    using assms(1,3,16-19) sync by (simp add: server_ahead_def crypto_ahead_def dec_ahead_def)
  then show ?thesis using inf assms(16,17) by (auto simp: first_ahead_def)
qed

text \<open>After at least one byte of the first chunk the server knows how much of the chunk is left.\<close>

lemma first_remaining:
  assumes "first_ahead C H chk now rs F t s p" "length p < F"
  shows "crypto_data_chunk_remaining (ps_stream (fst s)) = Some (1, length p)"
  using assms
  by (auto simp: first_ahead_def in_first_def crypto_data_chunk_remaining_def current_data_chunk_remaining_def
        split: dec_reader.splits decrypt_read_state_2022.splits)

lemma handshake_2022:
  fixes padding :: u16 and m :: "byte list"
  assumes "wf_address addr" "write_address addr = Some a" "length pad = unat padding" "category (cs_method (ps_stream ps)) = CatAead2022"
    and "\<not> ps_handshaked ps" "length (cs_net (ps_stream ps)) < k"
  defines "p \<equiv> a @ be_of 2 padding @ pad @ m"
  assumes "first_ahead C H chk now rs (length p) t (ps\<lparr>ps_handshaked := True\<rparr>, x) p"
  shows "\<exists>s. server_handshake C H fmt chk now k (ps, x)
       = Some (if m = [] \<and> padding = 0 then Err (io_other ''no payload in first data chunk, and padding is 0'') else Ok addr, s)
     \<and> server_ahead C H chk now rs s (m @ t) \<and> length (cs_net (ps_stream (fst s))) \<le> length (cs_net (ps_stream ps))"
proof -
  let ?s = "(ps\<lparr>ps_handshaked := True\<rparr>, x)"
  from first_reader.aead2022_header_ok [where fmt = fmt, OF assms(8) [unfolded p_def] _ assms(1,2,3), of k] assms(6)
  obtain s where s: "aead2022_header_read (server_poll_read C H fmt chk now) k ?s = Some (Ok (Aead2022Header addr padding), s)"
    and f: "first_ahead C H chk now rs (length p) t s m" and ev: "length (cs_net (ps_stream (fst s))) \<le> length (cs_net (ps_stream ps))"
    by (auto simp: p_def)
  have "length m < length p" by (simp add: p_def)
  note rem = first_remaining [OF f this]
  have "server_handshake C H fmt chk now k (ps, x)
       = Some (if m = [] \<and> padding = 0 then Err (io_other ''no payload in first data chunk, and padding is 0'') else Ok addr, s)"
    using s assms(4,5) rem by (simp add: server_handshake_def proxy_header_read_def bind_task_def)
  then show ?thesis using f ev by (auto simp: first_ahead_def)
qed


section \<open>The response\<close>

lemma server_sends_established:
  assumes "sends (server_poll_write C fmt now) ms ps ns ps'" "ps_writer ps = ServerEstablished"
  shows "sends (crypto_poll_write C now) ms (ps_stream ps) ns (ps_stream ps')"
  using assms
proof (induction rule: sends.induct)
  case (sends_wait m ps ps1 ms ns ps')
  then have "crypto_poll_write C now m (ps_stream ps) = (Pending, ps_stream ps1)" "ps_writer ps1 = ServerEstablished"
    by (auto simp: server_poll_write_def split: prod.splits)
  then show ?case using sends_wait.IH by (auto intro: sends.sends_wait)
next
  case (sends_more m ps n ps1 ms ns ps')
  then have "crypto_poll_write C now m (ps_stream ps) = (Ready (Ok n), ps_stream ps1)" "ps_writer ps1 = ServerEstablished"
    by (auto simp: server_poll_write_def split: prod.splits)
  then show ?case using sends_more.IH by (auto intro: sends.sends_more)
qed (rule sends.sends_none)

lemma server_sends_response:
  assumes "sends (server_poll_write C fmt now) (m # ms) ps ns ps'" "ps_writer ps = PrepareHeader"
    and "dec_nonce (cs_dec (ps_stream ps)) = Some rs" "cs_enc (ps_stream ps) = EncAead2022 w"
  shows "sends (crypto_poll_write C now) (m # ms) ((ps_stream ps)\<lparr>cs_enc := EncAead2022 (set_request_salt rs w)\<rparr>) ns (ps_stream ps')"
proof -
  let ?cs = "(ps_stream ps)\<lparr>cs_enc := EncAead2022 (set_request_salt rs w)\<rparr>"
  let ?ps = "ps\<lparr>ps_stream := ?cs, ps_writer := ServerEstablished\<rparr>"
  have step: "server_poll_write C fmt now m ps = server_poll_write C fmt now m ?ps"
    using assms(2-4) by (simp add: server_poll_write_def crypto_set_request_nonce_with_received_def Let_def)
  have "sends (server_poll_write C fmt now) (m # ms) ?ps ns ps'"
    using assms(1) by cases (auto simp: step intro: sends.intros)
  from server_sends_established [OF this] show ?thesis by simp
qed

text \<open>The response as it is on the wire.\<close>

lemma server_wire:
  fixes C :: "'c cipher_ops" and H :: hash_ops and key skey salt :: "byte list" and kind :: cipher_kind
  assumes "sends (server_poll_write C fmt ts) (m # ms) ps ns ps'" "ps_writer ps = PrepareHeader"
    and "dec_nonce (cs_dec (ps_stream ps)) = Some rs"
  defines "w0 \<equiv> reset_cipher_with_key C key (writer2022_with_identity C H ServerStream kind skey salt [])"
  assumes "cs_enc (ps_stream ps) = EncAead2022 w0" "sunk (cs_sink (ps_stream ps)) = []"
  defines "w \<equiv> set_request_salt rs w0"
  shows "sunk (cs_sink (ps_stream ps')) = crypto_wire C ts (EncAead2022 w) (map (take MAX_PACKET_SIZE_2022) (m # ms))"
    and "ns = map (\<lambda>m. min (length m) MAX_PACKET_SIZE_2022) (m # ms)"
proof -
  let ?cs = "(ps_stream ps)\<lparr>cs_enc := EncAead2022 w\<rparr>"
  have s: "sends (crypto_poll_write C ts) (m # ms) ?cs ns (ps_stream ps')"
    using server_sends_response [OF assms(1-3,5)] by (simp add: w_def)
  have "crypto_wrote C ts (EncAead2022 w) ?cs []" "crypto_idle ?cs"
    using assms(6) by (simp_all add: crypto_wrote_def crypto_idle_def aead2022_wrote_def w_def w0_def set_request_salt_def
        reset_cipher_with_key_def writer2022_with_identity_def writer_wf_2022_def writer_total_2022_def aead2022_wire_def idle_2022_def)
  from crypto_writer.sends_wire [OF s this]
  show "sunk (cs_sink (ps_stream ps')) = crypto_wire C ts (EncAead2022 w) (map (take MAX_PACKET_SIZE_2022) (m # ms))"
    "ns = map (\<lambda>m. min (length m) MAX_PACKET_SIZE_2022) (m # ms)"
    by (simp_all add: crypto_cut_2022 comp_def min.commute)
qed

text \<open>A client before and after the check of the salt.\<close>

definition client_ahead ::
  "'c cipher_ops \<Rightarrow> hash_ops \<Rightarrow> (byte list \<Rightarrow> 'x \<Rightarrow> (unit, io_error) res \<times> 'x) \<Rightarrow> u64 \<Rightarrow> byte list \<Rightarrow> nat \<Rightarrow> nat
     \<Rightarrow> 'c proxy_client \<times> 'x \<Rightarrow> byte list \<Rightarrow> bool" where
  "client_ahead C H chk now rs F T s plain \<longleftrightarrow>
     (case s of (pc, x) \<Rightarrow>
      crypto_ahead C H chk now (Some rs) (pc_stream pc, x) plain
      \<and> (case pc_reader pc of
           ClientEstablished \<Rightarrow> True
         | CheckRequestNonce \<Rightarrow>
             length plain = F + T \<and> 0 < F \<and> rs \<noteq> [] \<and> enc_nonce (cs_enc (pc_stream pc)) = rs
             \<and> (case cs_dec (pc_stream pc) of
                  DecAead2022 r \<Rightarrow> in_first C H chk now F T (r, cs_net (pc_stream pc), x) plain
                | _ \<Rightarrow> False)))"

lemma crypto_pollr_nonce:
  assumes "crypto_pollr C H fmt chk now room (cs, x) = (out, cs', x')"
  shows "enc_nonce (cs_enc cs') = enc_nonce (cs_enc cs)"
proof -
  have "enc_reset_cipher C key e = Some e' \<Longrightarrow> enc_nonce e' = enc_nonce e" for key and e e' :: "'a enc_writer"
    by (cases e) (auto simp: reset_cipher_with_key_def)
  then show ?thesis using assms
    by (auto simp: crypto_pollr_def crypto_poll_read_def Let_def split: prod.splits poll.splits res.splits if_splits option.splits)
qed

text \<open>The poll that delivers the first bytes of a response finds the salt that the response carries.\<close>

lemma response_first_poll:
  assumes "crypto_ahead C H chk now (Some rs) (cs, x) plain" "0 < room" "length plain = F + T" "0 < F"
    and "cs_dec cs = DecAead2022 r" "in_first C H chk now F T (r, cs_net cs, x) plain" "rs \<noteq> []"
  shows "(\<exists>cs' x' r'. crypto_pollr C H fmt chk now room (cs, x) = (Pending, cs', x')
            \<and> crypto_ahead C H chk now (Some rs) (cs', x') plain \<and> length (cs_net cs') < length (cs_net cs)
            \<and> cs_dec cs' = DecAead2022 r' \<and> in_first C H chk now F T (r', cs_net cs', x') plain)
       \<or> (\<exists>bs rest cs' x' c. crypto_pollr C H fmt chk now room (cs, x) = (Ready (Ok bs), cs', x')
            \<and> plain = bs @ rest \<and> length bs \<le> room \<and> bs \<noteq> []
            \<and> crypto_ahead C H chk now (Some rs) (cs', x') rest \<and> length (cs_net cs') \<le> length (cs_net cs)
            \<and> crypto_data_chunk_remaining cs' = Some (1, c) \<and> dec_request_nonce (cs_dec cs') = Some rs)"
proof -
  have h: "cipher_laws C (r2_method r)" "0 < tag_len (r2_method r)"
    "reader_sync_2022 C H chk now (r2_method r) (Some rs) (r, cs_net cs, x) plain"
    using assms(1,5) by (simp_all add: crypto_ahead_def dec_ahead_def)
  have T: "T < length plain" using assms(3,4) by simp
  note first = in_first_poll [OF h(1,2) assms(2) h(3) assms(6) T]
  from crypto_reader.poll_cases [where fmt = fmt, OF assms(1,2)] show ?thesis
  proof (elim disjE exE conjE)
    fix s' assume p: "crypto_pollr C H fmt chk now room (cs, x) = (Pending, s')"
      "crypto_ahead C H chk now (Some rs) s' plain" "length (cs_net (fst s')) < length (cs_net (fst (cs, x)))"
    obtain cs' x' where s': "s' = (cs', x')" by (cases s')
    obtain r' where "cs_dec cs' = DecAead2022 r'"
      "poll_read_decrypted_2022 C H chk now room (r, cs_net cs, x) = (Pending, r', cs_net cs', x')"
      using crypto_pollr_2022 [OF p(1) [unfolded s'] assms(5)] by metis
    then show ?thesis using p first by (auto simp: s')
  next
    fix bs rest s' assume p: "crypto_pollr C H fmt chk now room (cs, x) = (Ready (Ok bs), s')" "plain = bs @ rest"
      "length bs \<le> room" "bs = [] \<longrightarrow> plain = []" "crypto_ahead C H chk now (Some rs) s' rest"
      "length (cs_net (fst s')) \<le> length (cs_net (fst (cs, x)))"
    obtain cs' x' where s': "s' = (cs', x')" by (cases s')
    obtain r' where r': "cs_dec cs' = DecAead2022 r'"
      "poll_read_decrypted_2022 C H chk now room (r, cs_net cs, x) = (Ready (Ok bs), r', cs_net cs', x')"
      using crypto_pollr_2022 [OF p(1) [unfolded s'] assms(5)] by metis
    have ne: "bs \<noteq> []" using p(4) T by auto
    then have "length rest < F + T" using assms(3) p(2) by (cases bs) auto
    moreover have "in_first C H chk now F T (r', cs_net cs', x') rest" using first [OF r'(2)] p(2) by auto
    ultimately obtain pos where "r2_state r' = BufferedData2 pos" "data_chunk_count r' = 1"
      by (auto simp: in_first_def split: decrypt_read_state_2022.splits)
    moreover from this have "r2_request_salt r' = Some rs"
      using p(5) r'(1) by (auto simp: s' crypto_ahead_def dec_ahead_def reader_sync_2022_def)
    ultimately show ?thesis using p r'(1) ne assms(7)
      by (auto simp: s' crypto_data_chunk_remaining_def current_data_chunk_remaining_def request_salt_def)
  qed
qed

interpretation client_reader: byte_reader "client_poll_read C H fmt chk now" "client_ahead C H chk now rs F T"
    "\<lambda>s. length (cs_net (pc_stream (fst s)))"
  for C :: "'c cipher_ops" and H fmt and chk :: "byte list \<Rightarrow> 'x \<Rightarrow> (unit, io_error) res \<times> 'x" and now rs F T
proof unfold_locales
  fix s :: "'c proxy_client \<times> 'x" and plain room
  assume a: "client_ahead C H chk now rs F T s plain" "(0 :: nat) < room"
  obtain pc x where s: "s = (pc, x)" by (cases s)
  have ca: "crypto_ahead C H chk now (Some rs) (pc_stream pc, x) plain" using a(1) by (simp add: s client_ahead_def)
  show "(\<exists>s'. client_poll_read C H fmt chk now room s = (Pending, s') \<and> client_ahead C H chk now rs F T s' plain
            \<and> length (cs_net (pc_stream (fst s'))) < length (cs_net (pc_stream (fst s))))
       \<or> (\<exists>bs rest s'. client_poll_read C H fmt chk now room s = (Ready (Ok bs), s') \<and> plain = bs @ rest
            \<and> length bs \<le> room \<and> (bs = [] \<longrightarrow> plain = []) \<and> client_ahead C H chk now rs F T s' rest
            \<and> length (cs_net (pc_stream (fst s'))) \<le> length (cs_net (pc_stream (fst s))))"
  proof (cases "pc_reader pc")
    case ClientEstablished
    from crypto_reader.poll_cases [where fmt = fmt, OF ca a(2)] show ?thesis
    proof (elim disjE exE conjE)
      fix s' assume "crypto_pollr C H fmt chk now room (pc_stream pc, x) = (Pending, s')"
        "crypto_ahead C H chk now (Some rs) s' plain" "length (cs_net (fst s')) < length (cs_net (fst (pc_stream pc, x)))"
      then show ?thesis using ClientEstablished by (cases s') (simp add: s client_poll_read_def client_ahead_def)
    next
      fix bs rest s' assume "crypto_pollr C H fmt chk now room (pc_stream pc, x) = (Ready (Ok bs), s')" "plain = bs @ rest"
        "length bs \<le> room" "bs = [] \<longrightarrow> plain = []" "crypto_ahead C H chk now (Some rs) s' rest"
        "length (cs_net (fst s')) \<le> length (cs_net (fst (pc_stream pc, x)))"
      then show ?thesis using ClientEstablished by (cases s') (simp add: s client_poll_read_def client_ahead_def)
    qed
  next
    case CheckRequestNonce
    then obtain r where r: "cs_dec (pc_stream pc) = DecAead2022 r" "in_first C H chk now F T (r, cs_net (pc_stream pc), x) plain"
      and len: "length plain = F + T" "0 < F" and rs: "rs \<noteq> []" "enc_nonce (cs_enc (pc_stream pc)) = rs"
      using a(1) by (auto simp: s client_ahead_def split: dec_reader.splits)
    from response_first_poll [where fmt = fmt, OF ca a(2) len r rs(1)] show ?thesis
    proof (elim disjE exE conjE)
      fix cs' x' r' assume p: "crypto_pollr C H fmt chk now room (pc_stream pc, x) = (Pending, cs', x')"
        "crypto_ahead C H chk now (Some rs) (cs', x') plain" "length (cs_net cs') < length (cs_net (pc_stream pc))"
        "cs_dec cs' = DecAead2022 r'" "in_first C H chk now F T (r', cs_net cs', x') plain"
      then show ?thesis using CheckRequestNonce len rs crypto_pollr_nonce [OF p(1)]
        by (simp add: s client_poll_read_def client_ahead_def Let_def)
    next
      fix bs rest cs' x' c assume p: "crypto_pollr C H fmt chk now room (pc_stream pc, x) = (Ready (Ok bs), cs', x')"
        "plain = bs @ rest" "length bs \<le> room" "bs \<noteq> []" "crypto_ahead C H chk now (Some rs) (cs', x') rest"
        "length (cs_net cs') \<le> length (cs_net (pc_stream pc))" "crypto_data_chunk_remaining cs' = Some (1, c)"
        "dec_request_nonce (cs_dec cs') = Some rs"
      then show ?thesis using CheckRequestNonce rs crypto_pollr_nonce [OF p(1)]
        by (simp add: s client_poll_read_def client_ahead_def Let_def)
    qed
  qed
qed

text \<open>A response that carries another salt is refused when its first bytes would be delivered.\<close>

lemma response_refused:
  assumes "crypto_ahead C H chk now (Some rs) (pc_stream pc, x) plain" "0 < room" "length plain = F + T" "0 < F"
    and "cs_dec (pc_stream pc) = DecAead2022 r" "in_first C H chk now F T (r, cs_net (pc_stream pc), x) plain"
    and "pc_reader pc = CheckRequestNonce" "enc_nonce (cs_enc (pc_stream pc)) \<noteq> rs" "length (cs_net (pc_stream pc)) < k"
    and "rs \<noteq> []"
  shows "\<exists>s. await (client_poll_read C H fmt chk now room) k (pc, x)
     = Some (Err (io_other ''received TCP response header with unmatched salt''), s)"
  using assms(1,5-9)
proof (induction k arbitrary: pc x r)
  case (Suc k)
  from response_first_poll [where fmt = fmt, OF Suc.prems(1) assms(2-4) Suc.prems(2,3) assms(10)] show ?case
  proof (elim disjE exE conjE)
    fix cs' x' r' assume p: "crypto_pollr C H fmt chk now room (pc_stream pc, x) = (Pending, cs', x')"
      "crypto_ahead C H chk now (Some rs) (cs', x') plain" "length (cs_net cs') < length (cs_net (pc_stream pc))"
      "cs_dec cs' = DecAead2022 r'" "in_first C H chk now F T (r', cs_net cs', x') plain"
    let ?pc = "pc\<lparr>pc_stream := cs'\<rparr>"
    have "client_poll_read C H fmt chk now room (pc, x) = (Pending, ?pc, x')"
      using p(1) Suc.prems(4) by (simp add: client_poll_read_def Let_def)
    moreover have "\<exists>s. await (client_poll_read C H fmt chk now room) k (?pc, x')
       = Some (Err (io_other ''received TCP response header with unmatched salt''), s)"
      using p Suc.prems(4-6) crypto_pollr_nonce [OF p(1)] by (intro Suc.IH) simp_all
    ultimately show ?thesis by simp
  next
    fix bs rest cs' x' c assume p: "crypto_pollr C H fmt chk now room (pc_stream pc, x) = (Ready (Ok bs), cs', x')"
      "crypto_data_chunk_remaining cs' = Some (1, c)" "dec_request_nonce (cs_dec cs') = Some rs"
    then show ?thesis using Suc.prems(4,5) crypto_pollr_nonce [OF p(1)]
      by (simp add: client_poll_read_def Let_def)
  qed
qed simp

lemma response_ahead:
  fixes C :: "'c cipher_ops" and H :: hash_ops and key skey salt rs m :: "byte list" and ms :: "byte list list" and kind :: cipher_kind
  assumes "category kind = CatAead2022" "cipher_laws C kind" "0 < tag_len kind" "0 < salt_len kind"
    and "length salt = salt_len kind" "length rs = salt_len kind" "timestamp_ok now ts"
  defines "w \<equiv> set_request_salt rs (reset_cipher_with_key C key (writer2022_with_identity C H ServerStream kind skey salt []))"
    and "r \<equiv> reader2022_with_user_manager C ClientStream kind key None"
  defines "rest \<equiv> concat (map (take MAX_PACKET_SIZE_2022) ms)" and "fst_m \<equiv> take MAX_PACKET_SIZE_2022 m"
  assumes "net_ok net" "one_read (header_len r) net"
    and "net_bytes net = crypto_wire C ts (EncAead2022 w) (map (take MAX_PACKET_SIZE_2022) (m # ms))"
    and "cs_net cs = net" "cs_dec cs = DecAead2022 r" "\<exists>w. cs_enc cs = EncAead2022 w"
  shows "crypto_ahead C H chk now (Some rs) (cs, x) (fst_m @ rest)"
    and "in_first C H chk now (length fst_m) (length rest) (r, net, x) (fst_m @ rest)"
proof -
  define e where "e = encrypt_packet C (w2_cipher w) (header_plain ServerStream ts (Some rs) (length fst_m))"
  have w: "w2_state w = AssembleHeader" "w2_stream_ty w = ServerStream" "w2_request_salt w = Some rs"
    by (simp_all add: w_def writer2022_with_identity_def set_request_salt_def reset_cipher_with_key_def)
  have nb: "net_bytes net = w2_buffer w @ fst (seal_next C ts w fst_m)
      @ fst (seal_frames C (snd (seal_next C ts w fst_m)) (map (take MAX_PACKET_SIZE_2022) ms))"
    using assms(14) by (simp add: crypto_wire_def aead2022_wire_def fst_m_def)
  have small: "length fst_m \<le> MAX_PACKET_SIZE_2022"
    "\<forall>m \<in> set (map (take MAX_PACKET_SIZE_2022) ms). length m \<le> MAX_PACKET_SIZE_2022" by (auto simp: fst_m_def)
  have r: "r2_method r = kind" "r2_state r = ReadHeader key" "data_chunk_count r = 0"
    using assms(4) by (simp_all add: r_def reader2022_with_user_manager_def)
  have "reader_sync_2022 C H chk now kind (Some rs) (r, net, x) (fst_m @ rest)"
    using response_sync [where chk = chk and x = x and key = key and skey = skey and ids = "[]" and H = H,
        OF assms(2,5,6,4,7,12) assms(13) [unfolded r_def] nb [unfolded w_def] small] unfolding r_def rest_def .
  then show "crypto_ahead C H chk now (Some rs) (cs, x) (fst_m @ rest)"
    using assms(2,3,15-17) r(1) by (simp add: crypto_ahead_def dec_ahead_def)
  have hd: "length (w2_buffer w @ fst e) = header_len r"
    "fst (process_header C H chk now key (w2_buffer w @ fst e) r x) = Ok (length fst_m)"
    using response_header_accepted [where chk = chk and x = x and key = key and skey = skey and ids = "[]" and H = H,
        OF assms(2,5,6,4,7) small(1)] unfolding r_def w_def e_def by auto
  have "net_bytes net = (w2_buffer w @ fst e) @ fst (encrypt_packet C (snd e) fst_m)
      @ fst (seal_frames C (snd (seal_next C ts w fst_m)) (map (take MAX_PACKET_SIZE_2022) ms))"
    using nb seal_next_header(1) [OF w(1), of C ts fst_m] by (simp add: w e_def)
  then have "take (header_len r) (net_bytes net) = w2_buffer w @ fst e" using hd(1) by (metis append_eq_conv_conj)
  then show "in_first C H chk now (length fst_m) (length rest) (r, net, x) (fst_m @ rest)"
    using hd(2) r by (simp add: in_first_def)
qed

text \<open>
  C4: An AEAD-2022 response is accepted exactly by the client it answers. A server that has read a request
  with salt \<open>rs\<close> writes any messages, the first not empty; the bytes reach a client cut and delayed
  arbitrarily, except that the header comes in one read. A client whose own request had the salt \<open>rs\<close>
  reads exactly the server's messages. A client that sent another salt gets no byte of them: its first
  read ends with an error, after at most as many polls as there are network events.
\<close>

theorem proxy_response_checked:
  assumes "category kind = CatAead2022" "cipher_laws C kind" "0 < tag_len kind" "0 < salt_len kind"
    and "length salt = salt_len kind" "length rs = salt_len kind" "timestamp_ok now ts" "m \<noteq> []"
    and "sends (server_poll_write C fmt ts) (m # ms) ps ns ps'" "ps_writer ps = PrepareHeader"
    and "dec_nonce (cs_dec (ps_stream ps)) = Some rs" "sunk (cs_sink (ps_stream ps)) = []"
    and "cs_enc (ps_stream ps) = EncAead2022 (reset_cipher_with_key C key (writer2022_with_identity C H ServerStream kind skey salt []))"
    and "net_ok net" "net_bytes net = sunk (cs_sink (ps_stream ps'))" "cs_net (pc_stream pc) = net"
    and "one_read (header_len (reader2022_with_user_manager C ClientStream kind key None)) net"
    and "cs_dec (pc_stream pc) = dec_with_user_manager C ClientStream kind key None"
    and "cs_enc (pc_stream pc) = EncAead2022 w" "pc_reader pc = CheckRequestNonce"
    and "\<forall>room \<in> set rooms. 0 < room" "0 < first_room" "length net < k"
  defines "sent \<equiv> concat (map (take MAX_PACKET_SIZE_2022) (m # ms))"
  shows "if w2_salt w = rs
     then \<exists>got rest s. collect (client_poll_read C H fmt chk now) rooms (pc, x) = (Ok got, s) \<and> got @ rest = sent
            \<and> (length net + length sent \<le> length rooms \<longrightarrow> rest = [])
     else \<exists>s. await (client_poll_read C H fmt chk now first_room) k (pc, x)
            = Some (Err (io_other ''received TCP response header with unmatched salt''), s)"
proof -
  let ?r = "reader2022_with_user_manager C ClientStream kind key None"
  let ?rest = "concat (map (take MAX_PACKET_SIZE_2022) ms)" and ?m = "take MAX_PACKET_SIZE_2022 m"
  have dec: "cs_dec (pc_stream pc) = DecAead2022 ?r" using assms(1,18) by (simp add: dec_with_user_manager_def)
  have bytes: "net_bytes net = crypto_wire C ts (EncAead2022 (set_request_salt rs (reset_cipher_with_key C key
      (writer2022_with_identity C H ServerStream kind skey salt [])))) (map (take MAX_PACKET_SIZE_2022) (m # ms))"
    using server_wire(1) [OF assms(9-11,13,12)] assms(15) by simp
  have "\<exists>w. cs_enc (pc_stream pc) = EncAead2022 w" using assms(19) by blast
  note ahead = response_ahead [where chk = chk and x = x, OF assms(1-7,14,17) bytes assms(16) dec this]
  have sent: "sent = ?m @ ?rest" by (simp add: sent_def)
  have len: "length sent = length ?m + length ?rest" "0 < length ?m" "rs \<noteq> []" using assms(4,6,8) by (auto simp: sent)
  show ?thesis
  proof (cases "w2_salt w = rs")
    case True
    then have "client_ahead C H chk now rs (length ?m) (length ?rest) (pc, x) sent"
      using ahead len assms(16,19,20) dec by (simp add: client_ahead_def sent)
    from client_reader.collect_sound [where fmt = fmt, OF this assms(21)] True assms(16) show ?thesis by auto
  next
    case False
    then have "enc_nonce (cs_enc (pc_stream pc)) \<noteq> rs" "length (cs_net (pc_stream pc)) < k" using assms(16,19,23) by simp_all
    from response_refused [where fmt = fmt, OF ahead(1) [folded sent] assms(22) len(1,2) dec _ assms(20) this len(3)]
      ahead(2) [folded sent] assms(16) False show ?thesis by simp
  qed
qed

section \<open>Where the count a client reports is not what it sent\<close>

text \<open>
  C36: Without encryption a client loses data silently. When the transport takes only part of the first
  packet, the address and the message, the client reports the whole message as written and goes on as
  connected: the rest of the packet is never sent, and the next message follows the part that was.
\<close>

theorem none_first_packet_cut:
  assumes "cs_enc (pc_stream pc) = EncNone" "pc_writer pc = Connect addr"
    and "make_first_packet_buffer (cs_method (pc_stream pc)) addr drawn mem m = Some buffer"
    and "sink_events (cs_sink (pc_stream pc)) = Accept j # Accept i # evs" "0 < j" "j < length buffer"
    and "length m' \<le> i" "m' \<noteq> []"
  shows "\<exists>pc1 pc2. client_poll_write C fmt now drawn mem m pc = (Ready (Ok (length m)), pc1)
     \<and> client_poll_write C fmt now drawn mem m' pc1 = (Ready (Ok (length m')), pc2)
     \<and> sunk (cs_sink (pc_stream pc2)) = sunk (cs_sink (pc_stream pc)) @ take j buffer @ m'"
  using assms
  by (auto simp: client_poll_write_def client_write_first_def crypto_poll_write_def poll_write_def)

text \<open>The writer of the AEAD-2022 header leaves out the address that its length and its reader include.\<close>

lemma header_write_without_address:
  assumes "proxy_header_write mem (Aead2022Header addr padding) = Some bs" "unat padding \<le> length mem"
  shows "length bs + get_addr_len addr = proxy_header_len (Aead2022Header addr padding)"
  using assms by (auto simp: word_gt_0 split: if_splits)

section \<open>Instances\<close>

abbreviation "req_writer \<equiv> writer2022_with_identity counter_cipher demo_hash ClientStream demo_kind [5, 6] [8, 9] []"
abbreviation "req_bytes \<equiv> [8, 9, 0, 0, 0, 0, 0, 0, 0, 3, 0xE8, 0, 10, 0, 7, 3, 2, 104, 105, 0, 80, 0, 0, 7, 6, 1, 7] :: byte list"

definition req_client :: "nat encrypted_writer_2022 \<Rightarrow> client_write_state \<Rightarrow> sink \<Rightarrow> net \<Rightarrow> nat proxy_client" where
  "req_client w cw snk net =
     \<lparr>pc_stream = \<lparr>cs_net = net, cs_sink = snk, cs_dec = dec_with_user_manager counter_cipher ClientStream demo_kind [5, 6] None,
        cs_enc = EncAead2022 w, cs_method = demo_kind, cs_handshaked = False\<rparr>,
      pc_writer = cw, pc_reader = CheckRequestNonce\<rparr>"

abbreviation "req_start \<equiv> req_client req_writer (Connect demo_target) \<lparr>sink_events = [Accept 100], sunk = []\<rparr> []"
abbreviation "req_stop \<equiv> req_client (req_writer\<lparr>w2_cipher := 2, w2_buffer := [], w2_state := AssemblePacket2\<rparr>) Connected
  \<lparr>sink_events = [], sunk = req_bytes\<rparr> []"

lemma counter_encrypt: "encrypt_packet counter_cipher c m = (m @ [of_nat c, 7], Suc c)"
  by (simp add: counter_cipher_def)

lemma req_poll:
  "poll_write_encrypted_2022 counter_cipher 1000 [3, 2, 104, 105, 0, 80, 0, 0, 7, 6] (req_writer, \<lparr>sink_events = [Accept 100], sunk = []\<rparr>)
     = (Ready (Ok 10), req_writer\<lparr>w2_cipher := 2, w2_buffer := [], w2_state := AssemblePacket2\<rparr>, \<lparr>sink_events = [], sunk = req_bytes\<rparr>)"
proof -
  let ?w = "req_writer\<lparr>w2_cipher := 2, w2_buffer := req_bytes, w2_state := Writing2 0\<rparr>"
  have w: "w2_state req_writer = AssembleHeader" "w2_stream_ty req_writer = ClientStream" "w2_request_salt req_writer = None"
    "w2_cipher req_writer = 0" "w2_buffer req_writer = [8, 9]"
    by (simp_all add: writer2022_with_identity_def counter_cipher_def demo_kind_def)
  have h: "header_plain ClientStream 1000 None 10 = [0, 0, 0, 0, 0, 0, 0, 3, 0xE8, 0, 10]" by code_simp
  have "assemble_header counter_cipher 1000 [3, 2, 104, 105, 0, 80, 0, 0, 7, 6] req_writer = ?w"
    using h by (simp add: assemble_header_def w counter_encrypt eval_nat_numeral)
  moreover have "write_loop req_bytes 0 \<lparr>sink_events = [Accept 100], sunk = []\<rparr>
      = (Ready (Ok ()), 27, \<lparr>sink_events = [], sunk = req_bytes\<rparr>)"
    by (simp add: write_loop.simps poll_write_def)
  ultimately show ?thesis by (simp add: poll_write_encrypted_2022_def w)
qed

lemma req_sends: "sends (client_poll_write counter_cipher (\<lambda>s. []) 1000 0 []) [[7, 6]] req_start [2] req_stop"
proof (rule sends_more [OF _ sends_none])
  have "make_first_packet_buffer demo_kind demo_target 0 [] [7, 6] = Some [3, 2, 104, 105, 0, 80, 0, 0, 7, 6]"
    by code_simp
  then show "client_poll_write counter_cipher (\<lambda>s. []) 1000 0 [] [7, 6] req_start = (Ready (Ok 2), req_stop)"
    by (simp add: client_poll_write_def req_client_def client_write_first_def crypto_poll_write_def req_poll)
qed

abbreviation "req_server net \<equiv>
  (case server_from_stream counter_cipher demo_hash exact_bloom (exact_lru 60000) 0 [[4, 4]] net
     \<lparr>sink_events = [], sunk = []\<rparr> demo_kind [5, 6] None demo_ctx of Some (ps, ctx) \<Rightarrow> ps)"

lemma req_endpoints:
  "client_from_stream counter_cipher demo_hash exact_bloom (exact_lru 60000) 0 [[8, 9]] []
     \<lparr>sink_events = [Accept 100], sunk = []\<rparr> demo_kind [5, 6] [] demo_target demo_ctx = Some (req_start, demo_ctx)"
  "server_from_stream counter_cipher demo_hash exact_bloom (exact_lru 60000) 0 [[4, 4]] net
     \<lparr>sink_events = [], sunk = []\<rparr> demo_kind [5, 6] None demo_ctx = Some (req_server net, demo_ctx)"
  "fst (check_nonce_replay exact_bloom (exact_lru 60000) 0 demo_kind [8, 9] demo_ctx) = Ok ()"
  by (simp_all add: client_from_stream_def server_from_stream_def crypto_from_stream_def demo_kind_def is_aead_2022_def
        req_client_def enc_with_identity_def dec_with_user_manager_def demo_ctx_def
        generate_nonce_def context_check_nonce_and_set_def check_nonce_replay_def protector_check_and_set_def context_new_def
        protector_new_def exact_lru_def)


abbreviation "resp_writer \<equiv> reset_cipher_with_key counter_cipher [5, 6]
  (writer2022_with_identity counter_cipher demo_hash ServerStream demo_kind [5, 6] [4, 4] [])"
abbreviation "resp_bytes \<equiv> [4, 4, 1, 0, 0, 0, 0, 0, 0, 3, 0xE8, 8, 9, 0, 3, 0, 7, 1, 2, 3, 1, 7] :: byte list"
abbreviation "resp_sent \<equiv> (set_request_salt [8, 9] resp_writer)\<lparr>w2_cipher := 2, w2_buffer := [], w2_state := AssemblePacket2\<rparr>"

definition resp_server :: "nat encrypted_writer_2022 \<Rightarrow> server_write_state \<Rightarrow> sink \<Rightarrow> nat proxy_server" where
  "resp_server w sw snk =
     \<lparr>ps_stream = \<lparr>cs_net = [], cs_sink = snk,
        cs_dec = DecAead2022 ((reader2022_with_user_manager counter_cipher ServerStream demo_kind [5, 6] None)\<lparr>r2_salt := Some [8, 9]\<rparr>),
        cs_enc = EncAead2022 w, cs_method = demo_kind, cs_handshaked = True\<rparr>,
      ps_writer = sw, ps_handshaked = True\<rparr>"

lemma resp_poll:
  "poll_write_encrypted_2022 counter_cipher 1000 [1, 2, 3] (set_request_salt [8, 9] resp_writer, \<lparr>sink_events = [Accept 100], sunk = []\<rparr>)
     = (Ready (Ok 3), resp_sent, \<lparr>sink_events = [], sunk = resp_bytes\<rparr>)"
proof -
  let ?w = "set_request_salt [8, 9] resp_writer"
  have w: "w2_state ?w = AssembleHeader" "w2_stream_ty ?w = ServerStream" "w2_request_salt ?w = Some [8, 9]"
    "w2_cipher ?w = 0" "w2_buffer ?w = [4, 4]"
    by (simp_all add: writer2022_with_identity_def counter_cipher_def demo_kind_def set_request_salt_def reset_cipher_with_key_def)
  have h: "header_plain ServerStream 1000 (Some [8, 9]) 3 = [1, 0, 0, 0, 0, 0, 0, 3, 0xE8, 8, 9, 0, 3]" by code_simp
  have "assemble_header counter_cipher 1000 [1, 2, 3] ?w = ?w\<lparr>w2_cipher := 2, w2_buffer := resp_bytes, w2_state := Writing2 0\<rparr>"
    using h by (simp add: assemble_header_def w counter_encrypt eval_nat_numeral)
  moreover have "write_loop resp_bytes 0 \<lparr>sink_events = [Accept 100], sunk = []\<rparr>
      = (Ready (Ok ()), 22, \<lparr>sink_events = [], sunk = resp_bytes\<rparr>)"
    by (simp add: write_loop.simps poll_write_def)
  ultimately show ?thesis by (simp add: poll_write_encrypted_2022_def w)
qed

theorem proxy_response_checked_witness:
  "\<exists>s. collect (client_poll_read counter_cipher demo_hash (\<lambda>s. []) (\<lambda>salt x. (Ok (), x)) 1010) (replicate 5 2)
      (req_client req_writer Connected \<lparr>sink_events = [], sunk = []\<rparr> [WouldBlock, Data resp_bytes], ()) = (Ok [1, 2, 3], s)"
proof -
  let ?net = "[WouldBlock, Data resp_bytes]"
  let ?pc = "req_client req_writer Connected \<lparr>sink_events = [], sunk = []\<rparr> ?net"
  let ?ps = "resp_server resp_writer PrepareHeader \<lparr>sink_events = [Accept 100], sunk = []\<rparr>"
  let ?ps' = "resp_server resp_sent ServerEstablished \<lparr>sink_events = [], sunk = resp_bytes\<rparr>"
  have "server_poll_write counter_cipher (\<lambda>s. []) 1000 [1, 2, 3] ?ps = (Ready (Ok 3), ?ps')"
    by (simp add: server_poll_write_def resp_server_def crypto_set_request_nonce_with_received_def crypto_poll_write_def
          resp_poll)
  then have send: "sends (server_poll_write counter_cipher (\<lambda>s. []) 1000) [[1, 2, 3]] ?ps [3] ?ps'"
    by (rule sends_more [OF _ sends_none])
  have ps: "ps_writer ?ps = PrepareHeader" "dec_nonce (cs_dec (ps_stream ?ps)) = Some [8, 9]" "sunk (cs_sink (ps_stream ?ps)) = []"
    "cs_enc (ps_stream ?ps) = EncAead2022 resp_writer" "sunk (cs_sink (ps_stream ?ps')) = resp_bytes"
    by (simp_all add: resp_server_def)
  have pc: "cs_net (pc_stream ?pc) = ?net" "cs_enc (pc_stream ?pc) = EncAead2022 req_writer" "pc_reader ?pc = CheckRequestNonce"
    "cs_dec (pc_stream ?pc) = dec_with_user_manager counter_cipher ClientStream demo_kind [5, 6] None" "w2_salt req_writer = [8, 9]"
    by (simp_all add: req_client_def writer2022_with_identity_def)
  have one: "one_read (header_len (reader2022_with_user_manager counter_cipher ClientStream demo_kind [5, 6] None)) ?net"
    by (simp add: header_len_def reader2022_with_user_manager_def require_eih_def header_request_salt_len_def demo_kind_def)
  have ts: "timestamp_ok 1010 1000" by (simp add: timestamp_ok_def abs_diff_def)
  have k: "category demo_kind = CatAead2022" "0 < tag_len demo_kind" "0 < salt_len demo_kind"
    "length [4, 4 :: byte] = salt_len demo_kind" "length [8, 9 :: byte] = salt_len demo_kind" by (simp_all add: demo_kind_def)
  from proxy_response_checked [OF k(1) demo_cipher_laws k(2-5) ts _ send ps(1-4) _ _ pc(1) one pc(4,2,3),
      of "replicate 5 2" 1 3 "\<lambda>salt x. (Ok (), x)" "()"]
  show ?thesis by (simp add: pc(5) ps(5))
qed

theorem none_first_packet_cut_witness:
  "\<exists>pc1 pc2. client_poll_write mask_cipher (\<lambda>s. []) 0 0 [] [7, 6]
       \<lparr>pc_stream = crypto_new_none [] \<lparr>sink_events = [Accept 7, Accept 9], sunk = []\<rparr> (stream_kind\<lparr>category := CatNone\<rparr>),
        pc_writer = Connect demo_target, pc_reader = ClientEstablished\<rparr> = (Ready (Ok 2), pc1)
     \<and> client_poll_write mask_cipher (\<lambda>s. []) 0 0 [] [5] pc1 = (Ready (Ok 1), pc2)
     \<and> sunk (cs_sink (pc_stream pc2)) = [3, 2, 104, 105, 0, 80, 7, 5]"
proof -
  let ?pc = "\<lparr>pc_stream = crypto_new_none [] \<lparr>sink_events = [Accept 7, Accept 9], sunk = []\<rparr> (stream_kind\<lparr>category := CatNone\<rparr>),
        pc_writer = Connect demo_target, pc_reader = ClientEstablished\<rparr> :: nat proxy_client"
  have "make_first_packet_buffer (cs_method (pc_stream ?pc)) demo_target 0 [] [7, 6] = Some [3, 2, 104, 105, 0, 80, 7, 6]"
    by code_simp
  from none_first_packet_cut [OF _ _ this, where m' = "[5]" and j = 7 and i = 9 and evs = "[]" and C = mask_cipher
      and fmt = "\<lambda>s. []" and now = 0]
  show ?thesis by (simp add: crypto_new_none_def eval_nat_numeral)
qed

end
