(* ===== verification/Realm_Control.thy ===== *)
theory Realm_Control
  imports Rust_Text Net_Addr
begin

text \<open>
  The control protocol of a realm session, \<open>shadowsocks-realm/src/control.rs\<close>: messages on the QUIC
  control stream that offer a direct TCP endpoint, answer the offer, probe the link and take the TCP
  path down; and the path manager of \<open>path_manager.rs\<close> that the client drives with them.
\<close>

section \<open>Errors\<close>

datatype realm_error = RealmIo io_error | InvalidUrl rstring | Rendezvous rstring | Stun rstring
  | PunchError rstring | PunchTimeout | PortMap rstring

section \<open>Messages\<close>

abbreviation "TOKEN_LEN \<equiv> 32 :: nat"
abbreviation "MAX_BODY \<equiv> 64 * 1024 :: nat"

abbreviation "T_OFFER \<equiv> 0x01 :: byte"
abbreviation "T_ACK \<equiv> 0x02 :: byte"
abbreviation "T_PING \<equiv> 0x03 :: byte"
abbreviation "T_PONG \<equiv> 0x04 :: byte"
abbreviation "T_PATH_DOWN \<equiv> 0x05 :: byte"

datatype control_msg = TcpEndpointOffer "rstring list" "byte list" | TcpEndpointAck bool
  | Ping u64 | Pong u64 | TcpPathDown

fun type_tag :: "control_msg \<Rightarrow> byte" where
  "type_tag (TcpEndpointOffer addresses token) = T_OFFER"
| "type_tag (TcpEndpointAck accepted) = T_ACK"
| "type_tag (Ping ts) = T_PING"
| "type_tag (Pong ts) = T_PONG"
| "type_tag TcpPathDown = T_PATH_DOWN"

fun encode_body :: "control_msg \<Rightarrow> byte list" where
  "encode_body (TcpEndpointOffer addresses token) =
     [word_of_nat (min (length addresses) 255)]
     @ concat (map (\<lambda>a. be_of 2 (word_of_nat (length a) :: u16) @ a) (take 255 addresses)) @ token"
| "encode_body (TcpEndpointAck accepted) = [if accepted then 1 else 0]"
| "encode_body (Ping ts) = be_of 8 ts"
| "encode_body (Pong ts) = be_of 8 ts"
| "encode_body TcpPathDown = []"

definition bad_control :: "rstring \<Rightarrow> realm_error" where
  "bad_control m = Rendezvous (str ''control decode: '' @ m)"

text \<open>The loop over the addresses of an offer, from offset \<open>off\<close>: the addresses and the offset behind them.\<close>

fun decode_addrs :: "nat \<Rightarrow> nat \<Rightarrow> byte list \<Rightarrow> (rstring list \<times> nat, realm_error) res" where
  "decode_addrs 0 off body = Ok ([], off)"
| "decode_addrs (Suc n) off body =
     (if length body < off + 2 then Err (bad_control (str ''truncated addr len''))
      else
        let alen = unat (of_be (slice off (off + 2) body) :: u16); off = off + 2 in
        if length body < off + alen then Err (bad_control (str ''truncated addr''))
        else if \<not> valid_utf8 (slice off (off + alen) body) then Err (bad_control (str ''addr not utf8''))
        else bind_res (decode_addrs n (off + alen) body)
               (\<lambda>(as, end). Ok (slice off (off + alen) body # as, end)))"

definition decode_control :: "byte \<Rightarrow> byte list \<Rightarrow> (control_msg, realm_error) res" where
  "decode_control tag body =
     (if tag = T_OFFER then
        (if body = [] then Err (bad_control (str ''empty offer''))
         else
           bind_res (decode_addrs (unat (body ! 0)) 1 body) (\<lambda>(addresses, off).
             if length body < off + TOKEN_LEN then Err (bad_control (str ''missing token''))
             else Ok (TcpEndpointOffer addresses (slice off (off + TOKEN_LEN) body))))
      else if tag = T_ACK then
        (if length body \<noteq> 1 then Err (bad_control (str ''bad ack body'')) else Ok (TcpEndpointAck (body ! 0 \<noteq> 0)))
      else if tag = T_PING \<or> tag = T_PONG then
        (if length body \<noteq> 8 then Err (bad_control (str ''bad ping/pong body''))
         else Ok (if tag = T_PING then Ping (of_be body) else Pong (of_be body)))
      else if tag = T_PATH_DOWN then Ok TcpPathDown
      else Err (bad_control (str ''unknown type '' @ show_alt_hex04 tag)))"

text \<open>What \<open>write_msg\<close> writes in one \<open>write_all\<close>.\<close>

definition write_msg :: "control_msg \<Rightarrow> byte list" where
  "write_msg msg =
     (let body = encode_body msg in type_tag msg # be_of 4 (word_of_nat (length body) :: u32) @ body)"

definition read_msg :: "source \<Rightarrow> (control_msg \<times> source, realm_error) res" where
  "read_msg s =
     bind_res (map_err RealmIo (read_exact 5 s)) (\<lambda>(header, s).
       let len = unat (of_be (slice 1 5 header) :: u32) in
       if MAX_BODY < len then Err (Rendezvous (str ''control frame too large: '' @ show_nat len))
       else bind_res (map_err RealmIo (read_exact len s)) (\<lambda>(body, s).
         bind_res (decode_control (header ! 0) body) (\<lambda>msg. Ok (msg, s))))"

section \<open>The message codec\<close>

text \<open>A message that the sender may send: an offer has at most 255 addresses, each below 64 KiB, a token
  of 32 bytes, and its body fits a frame.\<close>

fun wf_control :: "control_msg \<Rightarrow> bool" where
  "wf_control (TcpEndpointOffer addresses token) =
     (length addresses \<le> 255 \<and> list_all (\<lambda>a. valid_utf8 a \<and> length a < 65536) addresses \<and> length token = TOKEN_LEN
      \<and> length (encode_body (TcpEndpointOffer addresses token)) \<le> MAX_BODY)"
| "wf_control msg = True"

lemma slice_mid [simp]: "length pre = i \<Longrightarrow> j = i + length xs \<Longrightarrow> slice i j (pre @ xs @ post) = xs"
  by (simp add: slice_def)

lemma decode_addrs_encoded:
  assumes "list_all (\<lambda>a. valid_utf8 a \<and> length a < 65536) as"
  shows "decode_addrs (length as) (length pre) (pre @ concat (map (\<lambda>a. be_of 2 (word_of_nat (length a) :: u16) @ a) as) @ post)
     = Ok (as, length pre + length (concat (map (\<lambda>a. be_of 2 (word_of_nat (length a) :: u16) @ a) as)))"
  using assms
proof (induction as arbitrary: pre)
  case (Cons a as)
  let ?l = "be_of 2 (word_of_nat (length a) :: u16)"
  let ?r = "concat (map (\<lambda>a. be_of 2 (word_of_nat (length a) :: u16) @ a) as)"
  have len: "unat (word_of_nat (length a) :: u16) = length a" using Cons.prems by (simp add: unat_of_nat)
  have s1: "slice (length pre) (length pre + 2) (pre @ ?l @ a @ ?r @ post) = ?l" by simp
  have s2: "slice (length pre + 2) (length pre + 2 + length a) ((pre @ ?l) @ a @ ?r @ post) = a"
    by (rule slice_mid) simp_all
  show ?case using Cons.IH [of "pre @ ?l @ a"] Cons.prems s1 s2 by (simp add: len Let_def add.assoc)
qed simp

lemma decode_control_encoded:
  assumes "wf_control msg"
  shows "decode_control (type_tag msg) (encode_body msg) = Ok msg"
proof (cases msg)
  case (TcpEndpointOffer as token)
  let ?c = "concat (map (\<lambda>a. be_of 2 (word_of_nat (length a) :: u16) @ a) as)"
  have wf: "length as \<le> 255" "list_all (\<lambda>a. valid_utf8 a \<and> length a < 65536) as" "length token = 32"
    using assms TcpEndpointOffer by simp_all
  have n: "unat (word_of_nat (length as) :: byte) = length as" using wf(1) by (simp add: unat_of_nat)
  have body: "encode_body msg = [word_of_nat (length as)] @ ?c @ token"
    using TcpEndpointOffer wf(1) by simp
  have "slice (1 + length ?c) (1 + length ?c + 32) (([word_of_nat (length as)] @ ?c) @ token @ []) = token"
    by (rule slice_mid) (simp_all add: wf(3))
  then show ?thesis
    using decode_addrs_encoded [OF wf(2), of "[word_of_nat (length as)]" token] wf(3) TcpEndpointOffer
    unfolding body by (simp add: decode_control_def n)
qed (simp_all add: decode_control_def)

lemma encode_body_bound: "wf_control msg \<Longrightarrow> length (encode_body msg) \<le> MAX_BODY"
  by (cases msg) (auto simp del: encode_body.simps(1))

lemma read_msg_frame:
  assumes "length body < 2 ^ 32"
  shows "read_msg (tag # be_of 4 (word_of_nat (length body) :: u32) @ body @ rest, e) =
     (if MAX_BODY < length body then Err (Rendezvous (str ''control frame too large: '' @ show_nat (length body)))
      else bind_res (decode_control tag body) (\<lambda>msg. Ok (msg, (rest, e))))"
proof -
  let ?l = "be_of 4 (word_of_nat (length body) :: u32)"
  have len: "unat (word_of_nat (length body) :: u32) = length body" using assms by (simp add: unat_of_nat)
  have h: "read_exact 5 ((tag # ?l) @ body @ rest, e) = Ok (tag # ?l, (body @ rest, e))"
    by (rule read_exact_append) simp
  have s: "slice (Suc 0) 5 (tag # ?l) = ?l" by (simp add: slice_def)
  show ?thesis using h by (simp add: read_msg_def s len Let_def io_simps)
qed

lemma read_msg_short:
  assumes "length bs < 5"
  shows "read_msg (bs, e) = Err (RealmIo (end_error e))"
  using assms by (simp add: read_msg_def io_simps)

lemma read_msg_trunc:
  assumes "wf_control msg" "k < length (write_msg msg)"
  shows "read_msg (take k (write_msg msg), e) = Err (RealmIo (end_error e))"
proof (cases "k < 5")
  case True
  then show ?thesis by (intro read_msg_short) simp
next
  case False
  let ?b = "encode_body msg"
  let ?h = "type_tag msg # be_of 4 (word_of_nat (length ?b) :: u32)"
  have b: "length ?b \<le> MAX_BODY" by (rule encode_body_bound [OF assms(1)])
  have len: "unat (word_of_nat (length ?b) :: u32) = length ?b" using b by (simp add: unat_of_nat)
  have w: "take k (write_msg msg) = ?h @ take (k - 5) ?b"
    using False by (simp add: write_msg_def Let_def take_Cons')
  have h: "read_exact 5 (?h @ take (k - 5) ?b, e) = Ok (?h, (take (k - 5) ?b, e))"
    by (rule read_exact_append) simp
  have s: "slice (Suc 0) 5 ?h = be_of 4 (word_of_nat (length ?b) :: u32)" by (simp add: slice_def)
  have "length (take (k - 5) ?b) < length ?b" using assms(2) False by (simp add: write_msg_def Let_def)
  then show ?thesis unfolding w using b h by (simp add: read_msg_def s len Let_def read_exact_short)
qed

interpretation control: framed_codec wf_control "\<lambda>msg. Some (write_msg msg)" read_msg
    "\<lambda>msg. 5 + length (encode_body msg)" RealmIo
proof unfold_locales
  fix x bs rest e assume a: "wf_control x" "Some (write_msg x) = Some bs"
  have b: "length (encode_body x) \<le> MAX_BODY" by (rule encode_body_bound [OF a(1)])
  then have "length (encode_body x) < 2 ^ 32" by simp
  from read_msg_frame [OF this] b decode_control_encoded [OF a(1)] a(2)
  show "read_msg (bs @ rest, e) = Ok (x, (rest, e))" by (auto simp: write_msg_def Let_def)
next
  fix x bs k e assume "wf_control x" "Some (write_msg x) = Some bs" "k < length bs"
  then show "read_msg (take k bs, e) = Err (RealmIo (end_error e))" using read_msg_trunc by auto
qed (auto simp: write_msg_def Let_def)

fun read_msgs :: "nat \<Rightarrow> source \<Rightarrow> (control_msg list \<times> source, realm_error) res" where
  "read_msgs 0 s = Ok ([], s)"
| "read_msgs (Suc n) s =
     bind_res (read_msg s) (\<lambda>(msg, s). bind_res (read_msgs n s) (\<lambda>(msgs, s). Ok (msg # msgs, s)))"

lemma read_msgs_dec_n: "read_msgs n s = control.dec_n n s"
  by (induction n arbitrary: s) simp_all

text \<open>
  C28: A control stream is read back as it was written. However many well-formed messages are written one
  after the other, reading as many messages returns them in order and leaves what followed them; and a
  stream that ends inside a message is reported as an end of file, never as a message.
\<close>

theorem control_stream_roundtrip:
  assumes "list_all wf_control msgs" "wf_control last_msg" "k < length (write_msg last_msg)"
  shows "read_msgs (length msgs) (concat (map write_msg msgs) @ take k (write_msg last_msg), e)
        = Ok (msgs, (take k (write_msg last_msg), e))
     \<and> read_msgs (Suc (length msgs)) (concat (map write_msg msgs) @ take k (write_msg last_msg), e)
        = Err (RealmIo (end_error e))"
proof -
  have enc: "control.enc_all msgs = Some (concat (map write_msg msgs))" for msgs by (induction msgs) simp_all
  have "read_msgs n s = Ok (ms, t) \<Longrightarrow> read_msg t = Err er \<Longrightarrow> read_msgs (Suc n) s = Err er" for n s ms t er
    by (induction n arbitrary: s ms) (fastforce simp: bind_res_Ok_iff)+
  from control.dec_n_enc_all [OF assms(1) enc] read_msg_trunc [OF assms(2,3)] this show ?thesis
    by (auto simp only: read_msgs_dec_n)
qed

lemma decode_control_tag: "decode_control tag body = Ok msg \<Longrightarrow> tag = type_tag msg"
  by (auto simp: decode_control_def bind_res_Ok_iff split: if_splits)

text \<open>
  C33: What a control reader takes is bounded. A message that was read took at least 5 and at most 5 + 64 KiB
  bytes off the stream, whatever the length field of its sender says, and its first byte is the tag of
  its type.
\<close>

theorem control_frame_bounds:
  assumes "read_msg (bs, e) = Ok (msg, (rest, e'))"
  shows "length rest + 5 \<le> length bs \<and> length bs \<le> length rest + 5 + MAX_BODY \<and> bs ! 0 = type_tag msg"
proof -
  define len where "len = unat (of_be (slice (Suc 0) 5 (take 5 bs)) :: u32)"
  have five: "5 \<le> length bs"
    and rest: "\<not> MAX_BODY < len \<and> len \<le> length (drop 5 bs) \<and> rest = drop len (drop 5 bs)
      \<and> decode_control (take 5 bs ! 0) (take len (drop 5 bs)) = Ok msg"
    using assms unfolding read_msg_def Let_def
    by (auto simp: bind_res_Ok_iff read_exact_Ok_iff len_def [symmetric] simp del: drop_drop take_take split: if_split_asm)
  have "bs ! 0 = type_tag msg" using rest five decode_control_tag [of "take 5 bs ! 0" "take len (drop 5 bs)" msg] by simp
  moreover have "length rest + len + 5 = length bs" using rest five by auto
  ultimately show ?thesis using rest by linarith
qed

text \<open>
  An offer that is too large is written all the same. The writer does not check the bound of the reader:
  a message whose body is over 64 KiB goes out, and its reader refuses the frame without reading the body.
\<close>

theorem control_oversized_offer_refused:
  assumes "MAX_BODY < length (encode_body msg)" "length (encode_body msg) < 2 ^ 32"
  shows "read_msg (write_msg msg @ rest, e)
    = Err (Rendezvous (str ''control frame too large: '' @ show_nat (length (encode_body msg))))"
proof -
  have w: "write_msg msg @ rest = type_tag msg # be_of 4 (word_of_nat (length (encode_body msg)) :: u32) @ encode_body msg @ rest"
    unfolding write_msg_def Let_def append_Cons append_assoc ..
  note f = read_msg_frame [OF assms(2), of "type_tag msg" rest e]
  show ?thesis unfolding w f if_P [OF assms(1)] ..
qed

section \<open>The path manager\<close>

text \<open>The path of the next connection: QUIC, or the TCP endpoint that was adopted last.\<close>

datatype path = QuicPath | TcpPath socket_addr

record path_manager =
  pm_tcp :: "(socket_addr \<times> byte list) option"
  pm_prefer_tcp :: bool

definition path_manager_new :: "bool \<Rightarrow> path_manager" where
  "path_manager_new prefer = \<lparr>pm_tcp = None, pm_prefer_tcp = prefer\<rparr>"

definition set_tcp :: "socket_addr \<Rightarrow> byte list \<Rightarrow> path_manager \<Rightarrow> path_manager" where
  "set_tcp addr token pm = pm\<lparr>pm_tcp := Some (addr, token)\<rparr>"

definition mark_tcp_down :: "path_manager \<Rightarrow> path_manager" where
  "mark_tcp_down pm = pm\<lparr>pm_tcp := None\<rparr>"

definition tcp_available :: "path_manager \<Rightarrow> bool" where
  "tcp_available pm \<longleftrightarrow> pm_tcp pm \<noteq> None"

definition tcp_token :: "path_manager \<Rightarrow> byte list option" where
  "tcp_token pm = map_option snd (pm_tcp pm)"

definition select_path :: "path_manager \<Rightarrow> path" where
  "select_path pm =
     (if pm_prefer_tcp pm then (case pm_tcp pm of Some (addr, token) \<Rightarrow> TcpPath addr | None \<Rightarrow> QuicPath) else QuicPath)"

text \<open>A history of the manager: what was called since it was made, in order.\<close>

datatype pm_event = Adopted socket_addr "byte list" | Demoted

fun pm_step :: "path_manager \<Rightarrow> pm_event \<Rightarrow> path_manager" where
  "pm_step pm (Adopted addr token) = set_tcp addr token pm"
| "pm_step pm Demoted = mark_tcp_down pm"

text \<open>
  A connection goes over TCP exactly when the client prefers TCP and the last event of the manager's
  history adopted that endpoint; then the token is the one of the same adoption. In every other case,
  after a demotion or before any adoption, it goes over QUIC.
\<close>

theorem path_follows_last_event:
  "select_path (foldl pm_step (path_manager_new prefer) h) =
     (case (prefer, rev h) of (True, Adopted addr token # _) \<Rightarrow> TcpPath addr | _ \<Rightarrow> QuicPath)
   \<and> tcp_token (foldl pm_step (path_manager_new prefer) h) =
     (case rev h of Adopted addr token # _ \<Rightarrow> Some token | _ \<Rightarrow> None)"
proof -
  have "pm_prefer_tcp (foldl pm_step (path_manager_new prefer) h) = prefer
      \<and> pm_tcp (foldl pm_step (path_manager_new prefer) h) = (case rev h of Adopted addr token # _ \<Rightarrow> Some (addr, token) | _ \<Rightarrow> None)"
  proof (induction h rule: rev_induct)
    case (snoc x h)
    then show ?case by (cases x) (simp_all add: set_tcp_def mark_tcp_down_def)
  qed (simp add: path_manager_new_def)
  then show ?thesis
    by (auto simp: select_path_def tcp_token_def split: list.splits pm_event.splits bool.splits)
qed

section \<open>Instances\<close>

definition demo_offer :: control_msg where
  "demo_offer = TcpEndpointOffer [str ''[::1]:90'', str ''a:1''] (replicate 32 7)"

lemma demo_offer_wf: "wf_control demo_offer"
  by (simp add: demo_offer_def str_def valid_utf8_ascii is_ascii_def)

theorem control_stream_roundtrip_witness:
  "read_msgs 3 (write_msg (Ping 5) @ write_msg demo_offer @ write_msg TcpPathDown @ take 3 (write_msg (Pong 5)), At_Eof)
     = Ok ([Ping 5, demo_offer, TcpPathDown], (take 3 (write_msg (Pong 5)), At_Eof))"
proof -
  have "3 < length (write_msg (Pong 5))" by (simp add: write_msg_def Let_def)
  with control_stream_roundtrip [of "[Ping 5, demo_offer, TcpPathDown]" "Pong 5" 3 At_Eof] demo_offer_wf show ?thesis
    by (simp add: eval_nat_numeral)
qed

theorem control_frame_bounds_witness:
  "read_msg (write_msg TcpPathDown @ [9], At_Eof) = Ok (TcpPathDown, ([9], At_Eof))
   \<and> (write_msg TcpPathDown @ [9]) ! 0 = type_tag TcpPathDown"
proof -
  have "read_msg (write_msg TcpPathDown @ [9], At_Eof) = Ok (TcpPathDown, ([9], At_Eof))"
    by (rule control.dec_enc) simp_all
  from this control_frame_bounds [OF this] show ?thesis by blast
qed

theorem control_oversized_offer_refused_witness:
  "read_msg (write_msg (TcpEndpointOffer [replicate 40000 97, replicate 40000 98] (replicate 32 7)) @ [], At_Eof)
    = Err (Rendezvous (str ''control frame too large: '' @ show_nat 80037))"
proof -
  let ?m = "TcpEndpointOffer [replicate 40000 97, replicate 40000 98] (replicate 32 7)"
  have "length (encode_body (TcpEndpointOffer [a, b] t)) = 5 + length a + length b + length t" for a b t :: "byte list"
    by simp
  then have l: "length (encode_body ?m) = 80037" by (simp only: length_replicate)
  have b: "MAX_BODY < length (encode_body ?m)" "length (encode_body ?m) < 2 ^ 32" unfolding l by simp_all
  show ?thesis using control_oversized_offer_refused [OF b, of "[]" At_Eof] unfolding l .
qed

end
