(* ===== verification/Realm_Punch.thy ===== *)
theory Realm_Punch
  imports Realm_Control
begin

text \<open>
  Hole punching, \<open>shadowsocks-realm/src/punch.rs\<close>: the obfuscated Hello and Ack packets and the loop
  that sends them until a peer has answered. SHA-256 is a parameter of which only the output length is
  used. The loop is driven by a list of ticks: what the clock shows and what the socket receives in
  each round; the model returns \<open>None\<close> while the ticks leave it running.
\<close>

section \<open>Packets\<close>

abbreviation "SALT_LEN \<equiv> 8 :: nat"
abbreviation "NONCE_LEN \<equiv> 16 :: nat"
abbreviation "OBFS_LEN \<equiv> 32 :: nat"
abbreviation "PUNCH_HEADER_LEN \<equiv> 25 :: nat"
abbreviation "MIN_WIRE_LEN \<equiv> SALT_LEN + PUNCH_HEADER_LEN"
abbreviation "MAX_PADDING \<equiv> 1024 :: nat"
abbreviation "MAX_WIRE_LEN \<equiv> MIN_WIRE_LEN + MAX_PADDING"

definition HYRLM_MAGIC :: "byte list" where
  "HYRLM_MAGIC = str ''HYRLMv1'' @ [0]"

datatype punch_type = Hello | Ack

fun punch_byte :: "punch_type \<Rightarrow> byte" where
  "punch_byte Hello = 0x01"
| "punch_byte Ack = 0x02"

definition punch_type_from_u8 :: "byte \<Rightarrow> punch_type option" where
  "punch_type_from_u8 b = (if b = 0x01 then Some Hello else if b = 0x02 then Some Ack else None)"

definition punch_mask :: "(byte list \<Rightarrow> byte list) \<Rightarrow> byte list \<Rightarrow> byte list \<Rightarrow> byte list" where
  "punch_mask sha obfs salt = sha (obfs @ salt)"

text \<open>\<open>for (i, b) in plain.iter_mut().enumerate() { *b ^= m[i % 32]; }\<close>\<close>

definition xor_mask :: "byte list \<Rightarrow> byte list \<Rightarrow> byte list" where
  "xor_mask m bs = map (\<lambda>(i, b). b XOR m ! (i mod 32)) (enumerate 0 bs)"

definition encode_with ::
  "(byte list \<Rightarrow> byte list) \<Rightarrow> punch_type \<Rightarrow> byte list \<Rightarrow> byte list \<Rightarrow> byte list \<Rightarrow> byte list \<Rightarrow> byte list" where
  "encode_with sha ptype nonce obfs salt padding =
     (let plain = HYRLM_MAGIC @ [punch_byte ptype] @ nonce @ padding in salt @ xor_mask (punch_mask sha obfs salt) plain)"

definition decode_punch ::
  "(byte list \<Rightarrow> byte list) \<Rightarrow> byte list \<Rightarrow> byte list \<Rightarrow> byte list \<Rightarrow> (punch_type \<times> nat, realm_error) res" where
  "decode_punch sha packet nonce obfs =
     (if \<not> (MIN_WIRE_LEN \<le> length packet \<and> length packet \<le> MAX_WIRE_LEN)
      then Err (PunchError (str ''bad length '' @ show_nat (length packet)))
      else
        let salt = take SALT_LEN packet; body = xor_mask (punch_mask sha obfs salt) (drop SALT_LEN packet) in
        if slice 0 8 body \<noteq> HYRLM_MAGIC then Err (PunchError (str ''bad magic''))
        else (case punch_type_from_u8 (body ! 8) of
                None \<Rightarrow> Err (PunchError (str ''bad type''))
              | Some ptype \<Rightarrow>
                  if slice 9 25 body \<noteq> nonce then Err (PunchError (str ''nonce mismatch''))
                  else Ok (ptype, length body - PUNCH_HEADER_LEN)))"

section \<open>The punch loop\<close>

text \<open>One round: the clock at the loop head, when the age of the last Hello is taken and when the new one
  is noted; the random salt and padding of the packets; and what \<open>recv_from\<close> gives within 200 ms.
  Times are in milliseconds.\<close>

datatype recv_event = Datagram "byte list" socket_addr | RecvFailed io_error | RecvTimedOut

record punch_tick =
  at_head :: nat
  at_due :: nat
  at_sent :: nat
  hello_rnd :: "byte list \<times> byte list"
  ack_rnd :: "byte list \<times> byte list"
  received :: recv_event

abbreviation "PUNCH_BUF \<equiv> 2048 :: nat"

definition punch_targets :: "socket_addr option \<Rightarrow> socket_addr list \<Rightarrow> socket_addr list" where
  "punch_targets local peers =
     (let local_is_v6 = (case local of Some a \<Rightarrow> is_ipv6 a | None \<Rightarrow> False)
      in map (map_to_socket_family local) (filter (\<lambda>p. local_is_v6 \<or> \<not> is_ipv6 p) peers))"

text \<open>The result of the loop with the datagrams sent so far, each with its destination.\<close>

fun punch_loop ::
  "(byte list \<Rightarrow> byte list) \<Rightarrow> socket_addr list \<Rightarrow> byte list \<Rightarrow> byte list \<Rightarrow> nat \<Rightarrow> nat option \<Rightarrow> (byte list \<times> socket_addr) list
     \<Rightarrow> punch_tick list \<Rightarrow> ((socket_addr, realm_error) res \<times> (byte list \<times> socket_addr) list) option" where
  "punch_loop sha targets nonce obfs deadline last_send sent [] = None"
| "punch_loop sha targets nonce obfs deadline last_send sent (k # ks) =
     (if \<not> at_head k < deadline then Some (Err PunchTimeout, sent)
      else
        let due = (case last_send of None \<Rightarrow> True | Some t \<Rightarrow> 250 < at_due k - t);
            hello = encode_with sha Hello nonce obfs (fst (hello_rnd k)) (snd (hello_rnd k));
            ack = encode_with sha Ack nonce obfs (fst (ack_rnd k)) (snd (ack_rnd k));
            sent = (if due then sent @ map (\<lambda>p. (hello, p)) targets else sent);
            last_send = (if due then Some (at_sent k) else last_send)
        in (case received k of
              RecvFailed e \<Rightarrow> Some (Err (RealmIo e), sent)
            | RecvTimedOut \<Rightarrow> punch_loop sha targets nonce obfs deadline last_send sent ks
            | Datagram bs src \<Rightarrow>
                (case decode_punch sha (take PUNCH_BUF bs) nonce obfs of
                   Ok (Hello, n) \<Rightarrow> punch_loop sha targets nonce obfs deadline last_send (sent @ [(ack, src)]) ks
                 | Ok (Ack, n) \<Rightarrow> Some (Ok src, sent @ replicate 5 (ack, src))
                 | _ \<Rightarrow> punch_loop sha targets nonce obfs deadline last_send sent ks)))"

definition punch ::
  "(byte list \<Rightarrow> byte list) \<Rightarrow> socket_addr option \<Rightarrow> socket_addr list \<Rightarrow> byte list \<Rightarrow> byte list \<Rightarrow> nat \<Rightarrow> punch_tick list
     \<Rightarrow> ((socket_addr, realm_error) res \<times> (byte list \<times> socket_addr) list) option" where
  "punch sha local peers nonce obfs deadline ticks =
     (let targets = punch_targets local peers
      in if targets = [] then Some (Err PunchTimeout, [])
         else punch_loop sha targets nonce obfs deadline None [] ticks)"

section \<open>The packets are decoded exactly\<close>

definition sha_laws :: "(byte list \<Rightarrow> byte list) \<Rightarrow> bool" where
  "sha_laws sha \<longleftrightarrow> (\<forall>bs. length (sha bs) = 32)"

lemma length_xor_mask [simp]: "length (xor_mask m bs) = length bs"
  by (simp add: xor_mask_def)

lemma nth_xor_mask: "i < length bs \<Longrightarrow> xor_mask m bs ! i = bs ! i XOR m ! (i mod 32)"
  by (simp add: xor_mask_def nth_enumerate_eq)

lemma xor_mask_xor_mask [simp]: "xor_mask m (xor_mask m bs) = bs"
  by (rule nth_equalityI) (simp_all add: nth_xor_mask xor.assoc)

lemma length_magic [simp]: "length HYRLM_MAGIC = 8"
  by (simp add: HYRLM_MAGIC_def)

lemma punch_type_from_byte [simp]: "punch_type_from_u8 (punch_byte t) = Some t"
  by (cases t) (simp_all add: punch_type_from_u8_def)

lemma punch_type_from_u8_Some: "punch_type_from_u8 b = Some t \<longleftrightarrow> b = punch_byte t"
  by (cases t) (auto simp: punch_type_from_u8_def)

lemma header_split:
  assumes "25 \<le> length body"
  shows "body = HYRLM_MAGIC @ [punch_byte t] @ nonce @ drop 25 body
     \<longleftrightarrow> slice 0 8 body = HYRLM_MAGIC \<and> body ! 8 = punch_byte t \<and> slice 9 25 body = nonce" (is "_ \<longleftrightarrow> ?parts")
proof
  assume eq: "body = HYRLM_MAGIC @ [punch_byte t] @ nonce @ drop 25 body"
  have "length body = 9 + length nonce + (length body - 25)" by (subst eq) (simp only: length_append length_magic, simp)
  then have n: "length nonce = 16" using assms by simp
  show ?parts by (subst (1 2 3) eq) (simp add: slice_def nth_append n)
next
  assume p: ?parts
  have "drop 8 body = body ! 8 # drop 9 body" using assms Cons_nth_drop_Suc [of 8 body] by simp
  moreover have "drop 9 body = slice 9 25 body @ drop 25 body"
    using append_take_drop_id [of 16 "drop 9 body"] by (simp add: slice_def)
  ultimately have "body = take 8 body @ [body ! 8] @ slice 9 25 body @ drop 25 body"
    using append_take_drop_id [of 8 body] by simp
  then show "body = HYRLM_MAGIC @ [punch_byte t] @ nonce @ drop 25 body" using p by (simp add: slice_def)
qed

lemma decode_punch_iff:
  assumes "sha_laws sha" "length nonce = NONCE_LEN" "length obfs = OBFS_LEN"
  shows "decode_punch sha packet nonce obfs = Ok (t, n) \<longleftrightarrow>
    (\<exists>salt padding. packet = encode_with sha t nonce obfs salt padding \<and> length salt = SALT_LEN
       \<and> length padding = n \<and> n \<le> MAX_PADDING)" (is "?dec \<longleftrightarrow> (\<exists>salt padding. ?enc salt padding)")
proof
  assume dec: ?dec
  let ?body = "xor_mask (punch_mask sha obfs (take 8 packet)) (drop 8 packet)"
  have len: "33 \<le> length packet" "length packet \<le> 1057"
    using dec by (auto simp: decode_punch_def split: if_splits)
  have p: "slice 0 8 ?body = HYRLM_MAGIC" "?body ! 8 = punch_byte t" "slice 9 25 ?body = nonce" "n = length packet - 33"
    using dec len by (auto simp: decode_punch_def Let_def punch_type_from_u8_Some split: if_splits option.splits)
  have "?body = HYRLM_MAGIC @ [punch_byte t] @ nonce @ drop 25 ?body"
    using header_split [of ?body t nonce] p len by simp
  then have "xor_mask (punch_mask sha obfs (take 8 packet)) (HYRLM_MAGIC @ [punch_byte t] @ nonce @ drop 25 ?body) = drop 8 packet"
    by (metis xor_mask_xor_mask)
  then have "?enc (take 8 packet) (drop 25 ?body)"
    using len p(4) by (simp add: encode_with_def)
  then show "\<exists>salt padding. ?enc salt padding" by blast
next
  assume "\<exists>salt padding. ?enc salt padding"
  then obtain salt padding where e: "?enc salt padding" by blast
  let ?plain = "HYRLM_MAGIC @ [punch_byte t] @ nonce @ padding"
  have l: "length packet = 33 + n" "take 8 packet = salt" "drop 8 packet = xor_mask (punch_mask sha obfs salt) ?plain"
    using e assms(2) by (simp_all add: encode_with_def)
  have "slice 0 8 ?plain = HYRLM_MAGIC" "?plain ! 8 = punch_byte t" "slice 9 25 ?plain = nonce" "length ?plain = 25 + n"
    using e assms(2) by (simp_all add: slice_def nth_append)
  then show ?dec using e l by (simp add: decode_punch_def Let_def)
qed

text \<open>
  A punch packet is accepted exactly when it is one. A datagram decodes to a type and a padding length
  if and only if it is the encoding of that type with the session's nonce and key, under some salt and
  some padding of that length, at most 1024; everything else, a foreign nonce, another magic, a packet
  that is too short or too long, is an error.
\<close>

theorem punch_decode_exact:
  assumes "sha_laws sha" "length nonce = NONCE_LEN" "length obfs = OBFS_LEN"
  shows "decode_punch sha packet nonce obfs = Ok (t, n) \<longleftrightarrow>
    (\<exists>salt padding. packet = encode_with sha t nonce obfs salt padding \<and> length salt = SALT_LEN
       \<and> length padding = n \<and> n \<le> MAX_PADDING)"
  by (rule decode_punch_iff [OF assms])

section \<open>The loop confirms only a peer that answered\<close>

lemma punch_loop_confirmed:
  assumes "punch_loop sha targets nonce obfs deadline last_send sent ticks = Some (Ok peer, out)"
  shows "\<exists>k \<in> set ticks. \<exists>bs n. at_head k < deadline \<and> received k = Datagram bs peer
     \<and> decode_punch sha (take PUNCH_BUF bs) nonce obfs = Ok (Ack, n)"
  using assms
proof (induction ticks arbitrary: last_send sent)
  case (Cons k ks)
  show ?case
  proof (cases "at_head k < deadline")
    case True
    then show ?thesis using Cons
      by (auto simp: Let_def split: recv_event.splits res.splits prod.splits punch_type.splits)
  qed (use Cons.prems in simp)
qed simp

lemma punch_loop_ends:
  assumes "\<exists>k \<in> set ticks. deadline \<le> at_head k"
  shows "punch_loop sha targets nonce obfs deadline last_send sent ticks \<noteq> None"
  using assms
proof (induction ticks arbitrary: last_send sent)
  case (Cons k ks)
  show ?case
  proof (cases "at_head k < deadline")
    case True
    then have "\<exists>k \<in> set ks. deadline \<le> at_head k" using Cons.prems by auto
    note ih = Cons.IH [OF this]
    show ?thesis using True ih
      by (simp add: Let_def split: recv_event.splits res.splits prod.splits punch_type.splits)
  qed simp
qed simp

text \<open>A round that leaves the loop running: before the deadline, without an error and without an Ack.\<close>

definition quiet_tick :: "(byte list \<Rightarrow> byte list) \<Rightarrow> byte list \<Rightarrow> byte list \<Rightarrow> nat \<Rightarrow> punch_tick \<Rightarrow> bool" where
  "quiet_tick sha nonce obfs deadline k \<longleftrightarrow>
     at_head k < deadline
     \<and> (case received k of
          RecvTimedOut \<Rightarrow> True
        | RecvFailed e \<Rightarrow> False
        | Datagram bs src \<Rightarrow> (\<forall>n. decode_punch sha (take PUNCH_BUF bs) nonce obfs \<noteq> Ok (Ack, n)))"

lemma decode_punch_not_Panic [simp]: "decode_punch sha packet nonce obfs \<noteq> Panic"
  by (simp add: decode_punch_def Let_def split: option.splits)

lemma punch_loop_quiet:
  assumes "quiet_tick sha nonce obfs deadline k"
  obtains ls more where "\<And>ks. punch_loop sha targets nonce obfs deadline last_send sent (k # ks)
      = punch_loop sha targets nonce obfs deadline ls (sent @ more) ks"
    and "\<And>bs src n. received k = Datagram bs src \<Longrightarrow> decode_punch sha (take PUNCH_BUF bs) nonce obfs = Ok (Hello, n) \<Longrightarrow>
      (encode_with sha Ack nonce obfs (fst (ack_rnd k)) (snd (ack_rnd k)), src) \<in> set more"
proof -
  define due where "due \<longleftrightarrow> (case last_send of None \<Rightarrow> True | Some t \<Rightarrow> 250 < at_due k - t)"
  define ls where "ls = (if due then Some (at_sent k) else last_send)"
  define hs where "hs = (if due then map (\<lambda>p. (encode_with sha Hello nonce obfs (fst (hello_rnd k)) (snd (hello_rnd k)), p)) targets else [])"
  define ack where "ack = encode_with sha Ack nonce obfs (fst (ack_rnd k)) (snd (ack_rnd k))"
  have head: "at_head k < deadline" using assms by (simp add: quiet_tick_def)
  show thesis
  proof (cases "\<exists>bs src n. received k = Datagram bs src \<and> decode_punch sha (take PUNCH_BUF bs) nonce obfs = Ok (Hello, n)")
    case True
    then obtain bs src n where r: "received k = Datagram bs src" "decode_punch sha (take PUNCH_BUF bs) nonce obfs = Ok (Hello, n)" by blast
    have "punch_loop sha targets nonce obfs deadline last_send sent (k # ks)
        = punch_loop sha targets nonce obfs deadline ls (sent @ hs @ [(ack, src)]) ks" for ks
      using head r by (simp add: Let_def due_def ls_def hs_def ack_def)
    then show ?thesis by (rule that) (use r in \<open>simp add: ack_def\<close>)
  next
    case False
    have "punch_loop sha targets nonce obfs deadline last_send sent (k # ks)
        = punch_loop sha targets nonce obfs deadline ls (sent @ hs) ks" for ks
      using head False assms
      by (auto simp: Let_def due_def ls_def hs_def quiet_tick_def split: recv_event.splits res.splits prod.splits punch_type.splits)
    then show ?thesis by (rule that) (use False in blast)
  qed
qed

lemma punch_loop_answers:
  assumes "list_all (quiet_tick sha nonce obfs deadline) ticks"
  shows "\<exists>ls more. (\<forall>ks. punch_loop sha targets nonce obfs deadline last_send sent (ticks @ ks)
        = punch_loop sha targets nonce obfs deadline ls (sent @ more) ks)
     \<and> (\<forall>k \<in> set ticks. \<forall>bs src n. received k = Datagram bs src \<longrightarrow> decode_punch sha (take PUNCH_BUF bs) nonce obfs = Ok (Hello, n) \<longrightarrow>
          (encode_with sha Ack nonce obfs (fst (ack_rnd k)) (snd (ack_rnd k)), src) \<in> set more)"
  using assms
proof (induction ticks arbitrary: last_send sent)
  case (Cons k ks)
  obtain ls more where step: "\<And>r. punch_loop sha targets nonce obfs deadline last_send sent (k # r)
      = punch_loop sha targets nonce obfs deadline ls (sent @ more) r"
    and ack: "\<And>bs src n. received k = Datagram bs src \<Longrightarrow> decode_punch sha (take PUNCH_BUF bs) nonce obfs = Ok (Hello, n) \<Longrightarrow>
      (encode_with sha Ack nonce obfs (fst (ack_rnd k)) (snd (ack_rnd k)), src) \<in> set more"
    by (rule punch_loop_quiet) (use Cons.prems in auto)
  from Cons.IH [of ls "sent @ more"] Cons.prems obtain ls' more' where
    "\<forall>r. punch_loop sha targets nonce obfs deadline ls (sent @ more) (ks @ r)
        = punch_loop sha targets nonce obfs deadline ls' ((sent @ more) @ more') r"
    "\<forall>k \<in> set ks. \<forall>bs src n. received k = Datagram bs src \<longrightarrow> decode_punch sha (take PUNCH_BUF bs) nonce obfs = Ok (Hello, n) \<longrightarrow>
          (encode_with sha Ack nonce obfs (fst (ack_rnd k)) (snd (ack_rnd k)), src) \<in> set more'" by auto
  then show ?case using step ack by (intro exI [of _ ls'] exI [of _ "more @ more'"]) auto
qed (auto intro!: exI [of _ "[]"])


text \<open>
  C30: Hole punching completes. Let the rounds before a certain one be quiet: nothing ends the loop in them.
  If that round is before the deadline and brings an Ack of the session, the loop returns its source and
  sends it five Acks, and it has answered every Hello received before with an Ack to where it came from.
  If that round is at or after the deadline, the loop returns a timeout.
\<close>

theorem punch_completes:
  assumes "sha_laws sha" "length nonce = NONCE_LEN" "length obfs = OBFS_LEN" "punch_targets local peers \<noteq> []"
    and "list_all (quiet_tick sha nonce obfs deadline) ticks"
    and "length salt = SALT_LEN" "length padding \<le> MAX_PADDING"
    and "at_head k < deadline \<longrightarrow> received k = Datagram (encode_with sha Ack nonce obfs salt padding) src"
  shows "\<exists>out. punch sha local peers nonce obfs deadline (ticks @ k # rest)
       = Some (if at_head k < deadline then (Ok src, out @ replicate 5 (encode_with sha Ack nonce obfs (fst (ack_rnd k)) (snd (ack_rnd k)), src))
               else (Err PunchTimeout, out))
     \<and> (\<forall>h \<in> set ticks. \<forall>s hsalt hpad. received h = Datagram (encode_with sha Hello nonce obfs hsalt hpad) s \<longrightarrow>
          length hsalt = SALT_LEN \<longrightarrow> length hpad \<le> MAX_PADDING \<longrightarrow>
          (encode_with sha Ack nonce obfs (fst (ack_rnd h)) (snd (ack_rnd h)), s) \<in> set out)"
proof -
  let ?targets = "punch_targets local peers"
  have len: "length (encode_with sha t nonce obfs a b) = 25 + length a + length b" for t a b
    using assms(2) by (simp add: encode_with_def)
  have dec: "decode_punch sha (take PUNCH_BUF (encode_with sha t nonce obfs a b)) nonce obfs = Ok (t, length b)"
    if "length a = SALT_LEN" "length b \<le> MAX_PADDING" for t a b
    using that len [of t a b] decode_punch_iff [OF assms(1-3), of "encode_with sha t nonce obfs a b" t "length b"] by auto
  from punch_loop_answers [OF assms(5), of ?targets None "[]"] obtain ls more where
    run: "punch_loop sha ?targets nonce obfs deadline None [] (ticks @ k # rest)
        = punch_loop sha ?targets nonce obfs deadline ls more (k # rest)"
    and acks: "\<forall>k \<in> set ticks. \<forall>bs src n. received k = Datagram bs src \<longrightarrow> decode_punch sha (take PUNCH_BUF bs) nonce obfs = Ok (Hello, n) \<longrightarrow>
          (encode_with sha Ack nonce obfs (fst (ack_rnd k)) (snd (ack_rnd k)), src) \<in> set more" by auto
  have p: "punch sha local peers nonce obfs deadline (ticks @ k # rest) = punch_loop sha ?targets nonce obfs deadline ls more (k # rest)"
    using assms(4) run by (simp add: punch_def Let_def del: punch_loop.simps)
  have ans: "\<forall>h \<in> set ticks. \<forall>s hsalt hpad. received h = Datagram (encode_with sha Hello nonce obfs hsalt hpad) s \<longrightarrow>
          length hsalt = SALT_LEN \<longrightarrow> length hpad \<le> MAX_PADDING \<longrightarrow>
          (encode_with sha Ack nonce obfs (fst (ack_rnd h)) (snd (ack_rnd h)), s) \<in> set more"
    using acks dec by blast
  show ?thesis
  proof (cases "at_head k < deadline")
    case True
    let ?due = "case ls of None \<Rightarrow> True | Some t \<Rightarrow> 250 < at_due k - t"
    have r: "received k = Datagram (encode_with sha Ack nonce obfs salt padding) src" using assms(8) True by blast
    let ?out = "if ?due then more @ map (\<lambda>p. (encode_with sha Hello nonce obfs (fst (hello_rnd k)) (snd (hello_rnd k)), p)) ?targets else more"
    have "punch_loop sha ?targets nonce obfs deadline ls more (k # rest)
        = Some (Ok src, ?out @ replicate 5 (encode_with sha Ack nonce obfs (fst (ack_rnd k)) (snd (ack_rnd k)), src))"
      using True r dec [OF assms(6,7)] by (simp add: Let_def)
    then show ?thesis using p True ans by (intro exI [of _ ?out]) auto
  next
    case False
    then show ?thesis using p ans by (intro exI [of _ more]) simp
  qed
qed

text \<open>
  Hole punching ends. Whatever arrives and whatever the packets hold, a loop that has seen the clock reach
  the deadline has returned, with an address or with an error.
\<close>

theorem punch_terminates:
  assumes "\<exists>k \<in> set ticks. deadline \<le> at_head k"
  shows "\<exists>r out. punch sha local peers nonce obfs deadline ticks = Some (r, out)"
  using punch_loop_ends [OF assms, of sha "punch_targets local peers" nonce obfs None "[]"]
  by (auto simp: punch_def Let_def)

section \<open>Instances\<close>

definition demo_sha :: "byte list \<Rightarrow> byte list" where
  "demo_sha bs = replicate 32 (foldr (XOR) bs 0)"

lemma demo_sha_laws: "sha_laws demo_sha"
  by (simp add: sha_laws_def demo_sha_def)

abbreviation "demo_nonce \<equiv> replicate 16 3 :: byte list"
abbreviation "demo_obfs \<equiv> replicate 32 4 :: byte list"
abbreviation "demo_peer \<equiv> V4 7 9000"
abbreviation "demo_salt \<equiv> [1, 2, 3, 4, 5, 6, 7, 8] :: byte list"

definition demo_tick :: "recv_event \<Rightarrow> punch_tick" where
  "demo_tick r = \<lparr>at_head = 10, at_due = 10, at_sent = 10, hello_rnd = (demo_salt, []), ack_rnd = (demo_salt, [9]), received = r\<rparr>"

theorem punch_decode_exact_witness:
  "decode_punch demo_sha (encode_with demo_sha Hello demo_nonce demo_obfs demo_salt [1, 1]) demo_nonce demo_obfs = Ok (Hello, 2)"
proof -
  have "\<exists>salt padding. encode_with demo_sha Hello demo_nonce demo_obfs demo_salt [1, 1] = encode_with demo_sha Hello demo_nonce demo_obfs salt padding
      \<and> length salt = SALT_LEN \<and> length padding = 2 \<and> 2 \<le> MAX_PADDING"
    by (intro exI [of _ demo_salt] exI [of _ "[1, 1]"]) simp
  with punch_decode_exact [OF demo_sha_laws, of demo_nonce demo_obfs _ Hello 2] show ?thesis by simp
qed

theorem punch_completes_witness:
  "\<exists>out. punch demo_sha (Some (V4 0 0)) [demo_peer] demo_nonce demo_obfs 100
      [demo_tick RecvTimedOut, demo_tick (Datagram (encode_with demo_sha Ack demo_nonce demo_obfs demo_salt []) demo_peer)]
    = Some (Ok demo_peer, out @ replicate 5 (encode_with demo_sha Ack demo_nonce demo_obfs demo_salt [9], demo_peer))"
proof -
  have "punch_targets (Some (V4 0 0)) [demo_peer] \<noteq> []" by (simp add: punch_targets_def)
  with punch_completes [OF demo_sha_laws, where nonce = demo_nonce and obfs = demo_obfs and local = "Some (V4 0 0)" and peers = "[demo_peer]"
      and ticks = "[demo_tick RecvTimedOut]" and deadline = 100 and salt = demo_salt and padding = "[]" and src = demo_peer
      and k = "demo_tick (Datagram (encode_with demo_sha Ack demo_nonce demo_obfs demo_salt []) demo_peer)" and rest = "[]"]
  show ?thesis by (auto simp: demo_tick_def quiet_tick_def)
qed


theorem punch_terminates_witness:
  "\<exists>r out. punch demo_sha (Some (V4 0 0)) [demo_peer] demo_nonce demo_obfs 10 [demo_tick RecvTimedOut] = Some (r, out)"
  by (rule punch_terminates) (simp add: demo_tick_def)

end
