(* ===== verification/Realm_Stun.thy ===== *)
theory Realm_Stun
  imports Realm_Punch
begin

text \<open>
  STUN discovery, \<open>shadowsocks-realm/src/stun.rs\<close>: the Binding request, the parser of the response with
  its attribute loop, and the discovery over one server and over a list of servers. The response that a
  server sends is the one of \<open>testing/nat-sim/hyrlm.py\<close>, generalised to IPv6 and further attributes.
\<close>

section \<open>Requests and responses\<close>

abbreviation "MAGIC_COOKIE \<equiv> 0x2112A442 :: u32"
abbreviation "BINDING_REQUEST \<equiv> 0x0001 :: u16"
abbreviation "BINDING_SUCCESS \<equiv> 0x0101 :: u16"
abbreviation "ATTR_MAPPED_ADDRESS \<equiv> 0x0001 :: u16"
abbreviation "ATTR_XOR_MAPPED_ADDRESS \<equiv> 0x0020 :: u16"
abbreviation "STUN_HEADER_LEN \<equiv> 20 :: nat"
abbreviation "TXID_LEN \<equiv> 12 :: nat"

text \<open>\<open>txid\<close> is the outcome of the random generator.\<close>

definition binding_request :: "byte list \<Rightarrow> byte list" where
  "binding_request txid = be_of 2 BINDING_REQUEST @ be_of 2 (0 :: u16) @ be_of 4 MAGIC_COOKIE @ txid"

definition parse_xor_mapped :: "byte list \<Rightarrow> byte list \<Rightarrow> socket_addr option" where
  "parse_xor_mapped v txid =
     (if length v < 8 then None
      else
        let family = v ! 1;
            xport = of_be (slice 2 4 v) :: u16;
            port = xport XOR ucast (drop_bit 16 MAGIC_COOKIE);
            cookie = be_of 4 MAGIC_COOKIE
        in if family = 0x01 then Some (sock_new (IpV4 (of_be (xor_bytes (slice 4 8 v) cookie))) port)
           else if family = 0x02 \<and> 20 \<le> length v
             then Some (sock_new (IpV6 (of_be (xor_bytes (slice 4 20 v) (cookie @ txid)))) port)
           else None)"

definition parse_mapped :: "byte list \<Rightarrow> socket_addr option" where
  "parse_mapped v =
     (if length v < 8 then None
      else
        let family = v ! 1; port = of_be (slice 2 4 v) :: u16
        in if family = 0x01 then Some (sock_new (IpV4 (of_be (slice 4 8 v))) port)
           else if family = 0x02 \<and> 20 \<le> length v then Some (sock_new (IpV6 (of_be (slice 4 20 v))) port)
           else None)"

text \<open>The loop over the attributes, from offset \<open>off\<close> to \<open>end\<close>.\<close>

function stun_attrs :: "byte list \<Rightarrow> byte list \<Rightarrow> nat \<Rightarrow> nat \<Rightarrow> socket_addr option \<Rightarrow> socket_addr option" where
  "stun_attrs pkt txid end off fallback =
     (if \<not> off + 4 \<le> end then fallback
      else
        let atype = of_be (slice off (off + 2) pkt) :: u16;
            alen = unat (of_be (slice (off + 2) (off + 4) pkt) :: u16);
            vstart = off + 4;
            vend = vstart + alen
        in if end < vend then fallback
           else
             let v = slice vstart vend pkt; off = vend + (4 - alen mod 4) mod 4 in
             if atype = ATTR_XOR_MAPPED_ADDRESS then
               (case parse_xor_mapped v txid of Some sa \<Rightarrow> Some sa | None \<Rightarrow> stun_attrs pkt txid end off fallback)
             else if atype = ATTR_MAPPED_ADDRESS \<and> fallback = None then stun_attrs pkt txid end off (parse_mapped v)
             else stun_attrs pkt txid end off fallback)"
  by pat_completeness auto
termination
  by (relation "measure (\<lambda>(pkt, txid, end, off, fallback). end - off)") (auto simp: Let_def)

declare stun_attrs.simps [simp del]

definition parse_binding_response :: "byte list \<Rightarrow> byte list \<Rightarrow> (socket_addr, realm_error) res" where
  "parse_binding_response pkt txid =
     (if length pkt < STUN_HEADER_LEN then Err (Stun (str ''response shorter than header''))
      else
        let mtype = of_be (slice 0 2 pkt) :: u16;
            mlen = unat (of_be (slice 2 4 pkt) :: u16);
            cookie = of_be (slice 4 8 pkt) :: u32
        in if mtype \<noteq> BINDING_SUCCESS
             then Err (Stun (str ''not a binding success: 0x''
                    @ replicate (4 - length (show_hex (unat mtype))) 0x30 @ show_hex (unat mtype)))
           else if cookie \<noteq> MAGIC_COOKIE then Err (Stun (str ''bad magic cookie''))
           else if slice 8 20 pkt \<noteq> txid then Err (Stun (str ''transaction id mismatch''))
           else (case stun_attrs pkt txid (min (STUN_HEADER_LEN + mlen) (length pkt)) STUN_HEADER_LEN None of
                   Some sa \<Rightarrow> Ok sa
                 | None \<Rightarrow> Err (Stun (str ''no address attribute in response''))))"

section \<open>Discovery\<close>

text \<open>
  One try: the datagrams that \<open>recv_from\<close> gives until the deadline of the try, cut at 1500 bytes. A timeout
  ends the try. \<open>None\<close> is a try that is still waiting.
\<close>

datatype stun_try = Found socket_addr | TryFailed io_error | TryTimedOut

fun stun_wait :: "byte list \<Rightarrow> recv_event list \<Rightarrow> stun_try option" where
  "stun_wait txid [] = None"
| "stun_wait txid (RecvTimedOut # es) = Some TryTimedOut"
| "stun_wait txid (RecvFailed e # es) = Some (TryFailed e)"
| "stun_wait txid (Datagram bs src # es) =
     (case parse_binding_response (take 1500 bs) txid of Ok sa \<Rightarrow> Some (Found sa) | _ \<Rightarrow> stun_wait txid es)"

text \<open>A try is whether the request could be sent and what was then received. The result comes with the
  datagrams that were sent, each with its destination; \<open>server\<close> is the printed form of the server's address.\<close>

type_synonym stun_result = "((socket_addr, realm_error) res \<times> (byte list \<times> socket_addr) list) option"

fun stun_tries ::
  "byte list \<Rightarrow> rstring \<Rightarrow> socket_addr \<Rightarrow> nat \<Rightarrow> (byte list \<times> socket_addr) list \<Rightarrow> (io_error option \<times> recv_event list) list \<Rightarrow> stun_result" where
  "stun_tries txid server dst 0 sent ts = Some (Err (Stun (str ''no STUN response from '' @ server)), sent)"
| "stun_tries txid server dst (Suc n) sent [] = None"
| "stun_tries txid server dst (Suc n) sent ((Some e, es) # ts) = Some (Err (RealmIo e), sent)"
| "stun_tries txid server dst (Suc n) sent ((None, es) # ts) =
     (let sent = sent @ [(binding_request txid, dst)] in
      case stun_wait txid es of
        None \<Rightarrow> None
      | Some (Found sa) \<Rightarrow> Some (Ok sa, sent)
      | Some (TryFailed e) \<Rightarrow> Some (Err (RealmIo e), sent)
      | Some TryTimedOut \<Rightarrow> stun_tries txid server dst n sent ts)"

definition discover ::
  "byte list \<Rightarrow> socket_addr option \<Rightarrow> socket_addr \<Rightarrow> rstring \<Rightarrow> nat \<Rightarrow> (io_error option \<times> recv_event list) list \<Rightarrow> stun_result" where
  "discover txid local server server_text retries ts =
     stun_tries txid server_text (map_to_socket_family local server) (max retries 1) [] ts"

definition reachable_families :: "socket_addr option \<Rightarrow> bool \<times> bool" where
  "reachable_families local = (case local of Some a \<Rightarrow> if is_ipv6 a then (True, True) else (True, False) | None \<Rightarrow> (True, False))"

text \<open>The loops over the resolved addresses of one server name. \<open>disc\<close> is one call of \<open>discover\<close> and \<open>lookup\<close>
  one of \<open>lookup_host\<close>, both in the state \<open>'s\<close> of the network; what was found comes with the families
  that are covered.\<close>

type_synonym stun_found = "(socket_addr \<times> socket_addr) list \<times> bool \<times> bool"

definition family_ok :: "bool \<times> bool \<Rightarrow> socket_addr \<Rightarrow> bool" where
  "family_ok fams addr = (if \<not> is_ipv6 addr then fst fams else snd fams)"

fun discover_first ::
  "(socket_addr \<Rightarrow> 's \<Rightarrow> (socket_addr, realm_error) res \<times> 's) \<Rightarrow> socket_addr list \<Rightarrow> realm_error \<Rightarrow> 's
     \<Rightarrow> (socket_addr, realm_error) res \<times> 's" where
  "discover_first disc [] err s = (Err err, s)"
| "discover_first disc (addr # addrs) err s =
     (case disc addr s of
        (Ok sa, s) \<Rightarrow> (Ok sa, s)
      | (Err e, s) \<Rightarrow> discover_first disc addrs e s
      | (Panic, s) \<Rightarrow> (Panic, s))"

definition discover_addr ::
  "(rstring \<Rightarrow> 's \<Rightarrow> (socket_addr list, rstring) res \<times> 's) \<Rightarrow> (socket_addr \<Rightarrow> 's \<Rightarrow> (socket_addr, realm_error) res \<times> 's)
     \<Rightarrow> socket_addr option \<Rightarrow> rstring \<Rightarrow> 's \<Rightarrow> (socket_addr, realm_error) res \<times> 's" where
  "discover_addr lookup disc local server s =
     (case lookup server s of
        (Err e, s) \<Rightarrow> (Err (Stun (str ''resolving '' @ server @ str '': '' @ e)), s)
      | (Panic, s) \<Rightarrow> (Panic, s)
      | (Ok addrs, s) \<Rightarrow>
          let resolved = filter (family_ok (reachable_families local)) addrs in
          if resolved = [] then (Err (Stun (str ''no reachable address for '' @ server)), s)
          else discover_first disc resolved (Stun (str ''no STUN response from '' @ server)) s)"

fun discover_addrs ::
  "(socket_addr \<Rightarrow> 's \<Rightarrow> (socket_addr, realm_error) res \<times> 's) \<Rightarrow> bool \<times> bool \<Rightarrow> socket_addr list \<Rightarrow> stun_found \<times> 's \<Rightarrow> stun_found \<times> 's" where
  "discover_addrs disc fams [] st = st"
| "discover_addrs disc fams (addr # addrs) ((out, have_v4, have_v6), s) =
     (if \<not> family_ok fams addr then discover_addrs disc fams addrs ((out, have_v4, have_v6), s)
      else if (\<not> is_ipv6 addr \<and> have_v4) \<or> (is_ipv6 addr \<and> have_v6) then discover_addrs disc fams addrs ((out, have_v4, have_v6), s)
      else (case disc addr s of
              (Ok reflexive, s) \<Rightarrow>
                discover_addrs disc fams addrs
                  ((out @ [(addr, reflexive)], have_v4 \<or> \<not> is_ipv6 reflexive, have_v6 \<or> is_ipv6 reflexive), s)
            | (_, s) \<Rightarrow> discover_addrs disc fams addrs ((out, have_v4, have_v6), s)))"

fun discover_servers ::
  "(rstring \<Rightarrow> 's \<Rightarrow> (socket_addr list, rstring) res \<times> 's) \<Rightarrow> (socket_addr \<Rightarrow> 's \<Rightarrow> (socket_addr, realm_error) res \<times> 's) \<Rightarrow> bool \<times> bool
     \<Rightarrow> rstring list \<Rightarrow> stun_found \<times> 's \<Rightarrow> stun_found \<times> 's" where
  "discover_servers lookup disc fams [] st = st"
| "discover_servers lookup disc fams (sv # svs) ((out, have_v4, have_v6), s) =
     (if (have_v4 \<or> \<not> fst fams) \<and> (have_v6 \<or> \<not> snd fams) then ((out, have_v4, have_v6), s)
      else (case lookup sv s of
              (Ok addrs, s) \<Rightarrow> discover_servers lookup disc fams svs (discover_addrs disc fams addrs ((out, have_v4, have_v6), s))
            | (_, s) \<Rightarrow> discover_servers lookup disc fams svs ((out, have_v4, have_v6), s)))"

definition discover_all ::
  "(rstring \<Rightarrow> 's \<Rightarrow> (socket_addr list, rstring) res \<times> 's) \<Rightarrow> (socket_addr \<Rightarrow> 's \<Rightarrow> (socket_addr, realm_error) res \<times> 's)
     \<Rightarrow> socket_addr option \<Rightarrow> rstring list \<Rightarrow> 's \<Rightarrow> (socket_addr \<times> socket_addr) list" where
  "discover_all lookup disc local servers s =
     fst (fst (discover_servers lookup disc (reachable_families local) servers (([], False, False), s)))"

section \<open>A response and what its attributes mean\<close>

text \<open>An attribute on the wire: type, length, value and padding to four bytes.\<close>

fun stun_attr :: "u16 \<times> byte list \<Rightarrow> byte list" where
  "stun_attr (t, v) = be_of 2 t @ be_of 2 (word_of_nat (length v) :: u16) @ v @ replicate ((4 - length v mod 4) mod 4) 0"

definition stun_response :: "byte list \<Rightarrow> (u16 \<times> byte list) list \<Rightarrow> byte list" where
  "stun_response txid as =
     be_of 2 BINDING_SUCCESS @ be_of 2 (word_of_nat (length (concat (map stun_attr as))) :: u16) @ be_of 4 MAGIC_COOKIE @ txid
     @ concat (map stun_attr as)"

text \<open>The value of an XOR-MAPPED-ADDRESS attribute.\<close>

fun xor_mapped_value :: "byte list \<Rightarrow> socket_addr \<Rightarrow> byte list" where
  "xor_mapped_value txid (V4 ip port) =
     [0, 1] @ be_of 2 (port XOR 0x2112) @ xor_bytes (be_of 4 ip) (be_of 4 MAGIC_COOKIE)"
| "xor_mapped_value txid (V6 ip port flow scope) =
     [0, 2] @ be_of 2 (port XOR 0x2112) @ xor_bytes (be_of 16 ip) (be_of 4 MAGIC_COOKIE @ txid)"

text \<open>The attributes as a list: the first XOR address that can be read, else the first plain one.\<close>

fun attrs_meaning :: "byte list \<Rightarrow> (u16 \<times> byte list) list \<Rightarrow> socket_addr option \<Rightarrow> socket_addr option" where
  "attrs_meaning txid [] fallback = fallback"
| "attrs_meaning txid ((t, v) # as) fallback =
     (if t = ATTR_XOR_MAPPED_ADDRESS then
        (case parse_xor_mapped v txid of Some sa \<Rightarrow> Some sa | None \<Rightarrow> attrs_meaning txid as fallback)
      else if t = ATTR_MAPPED_ADDRESS \<and> fallback = None then attrs_meaning txid as (parse_mapped v)
      else attrs_meaning txid as fallback)"

lemma stun_attr_length: "length (stun_attr (t, v)) = 4 + length v + (4 - length v mod 4) mod 4"
  by simp

lemma stun_attrs_encoded:
  assumes "\<forall>(t, v) \<in> set as. length v < 65536" "end = length pre + length (concat (map stun_attr as))"
  shows "stun_attrs (pre @ concat (map stun_attr as)) txid end (length pre) fallback = attrs_meaning txid as fallback"
  using assms
proof (induction as arbitrary: pre fallback)
  case Nil
  then show ?case by (simp add: stun_attrs.simps)
next
  case (Cons a as)
  obtain t v where a: "a = (t, v)" by (cases a)
  let ?rest = "concat (map stun_attr as)" and ?pad = "replicate ((4 - length v mod 4) mod 4) (0 :: byte)"
  let ?l = "be_of 2 (word_of_nat (length v) :: u16)"
  let ?pkt = "pre @ be_of 2 t @ ?l @ v @ ?pad @ ?rest"
  have len: "unat (word_of_nat (length v) :: u16) = length v" using Cons.prems(1) a by (simp add: unat_of_nat)
  have stop: "end = length pre + 4 + length v + (4 - length v mod 4) mod 4 + length ?rest" using Cons.prems(2) a by simp
  have s1: "slice (length pre) (length pre + 2) ?pkt = be_of 2 t" by simp
  have s2: "slice (length pre + 2) (length pre + 4) ((pre @ be_of 2 t) @ ?l @ v @ ?pad @ ?rest) = ?l" by (rule slice_mid) simp_all
  have s3: "slice (length pre + 4) (length pre + 4 + length v) ((pre @ be_of 2 t @ ?l) @ v @ ?pad @ ?rest) = v"
    by (rule slice_mid) simp_all
  have ih: "stun_attrs ?pkt txid end (length pre + 4 + length v + (4 - length v mod 4) mod 4) f = attrs_meaning txid as f" for f
  proof -
    let ?p = "pre @ be_of 2 t @ ?l @ v @ ?pad"
    have l: "length ?p = length pre + 4 + length v + (4 - length v mod 4) mod 4" by simp
    have "\<forall>(t, v) \<in> set as. length v < 65536" "end = length ?p + length ?rest" using Cons.prems(1) stop l by simp_all
    from Cons.IH [OF this, of f] show ?thesis unfolding l by (simp only: append_assoc)
  qed
  define pkt where "pkt = ?pkt"
  have pkt: "pre @ concat (map stun_attr (a # as)) = pkt" by (simp add: a pkt_def)
  have parts: "slice (length pre) (length pre + 2) pkt = be_of 2 t" "slice (length pre + 2) (length pre + 4) pkt = ?l"
    "slice (length pre + 4) (length pre + 4 + length v) pkt = v"
    using s1 s2 s3 by (simp_all only: pkt_def append_assoc)
  have "length pre + 4 \<le> end" "\<not> end < length pre + 4 + length v" using stop by simp_all
  then show ?case unfolding pkt using parts ih [folded pkt_def]
    by (subst stun_attrs.simps) (simp only: a len Let_def of_be_widths attrs_meaning.simps if_True if_False not_not simp_thms)
qed

lemma response_parts:
  assumes "length txid = TXID_LEN" "length (concat (map stun_attr as)) < 65536"
  defines "pkt \<equiv> stun_response txid as"
  shows "slice 0 2 pkt = be_of 2 BINDING_SUCCESS" "slice 4 8 pkt = be_of 4 MAGIC_COOKIE" "slice 8 20 pkt = txid"
    "unat (of_be (slice 2 4 pkt) :: u16) = length (concat (map stun_attr as))" "length pkt = 20 + length (concat (map stun_attr as))"
proof -
  let ?as = "concat (map stun_attr as)" and ?l = "be_of 2 (word_of_nat (length (concat (map stun_attr as))) :: u16)"
  let ?t = "be_of 2 BINDING_SUCCESS" and ?c = "be_of 4 MAGIC_COOKIE"
  have pkt: "pkt = ?t @ ?l @ ?c @ txid @ ?as" by (simp add: pkt_def stun_response_def)
  show "slice 0 2 pkt = ?t" unfolding pkt by (simp add: slice_def)
  show "slice 4 8 pkt = ?c" unfolding pkt using slice_mid [of "?t @ ?l" 4 8 ?c "txid @ ?as"] by simp
  show "slice 8 20 pkt = txid" unfolding pkt using slice_mid [of "?t @ ?l @ ?c" 8 20 txid ?as] assms(1) by simp
  have "slice 2 4 pkt = ?l" unfolding pkt using slice_mid [of ?t 2 4 ?l "?c @ txid @ ?as"] by simp
  then show "unat (of_be (slice 2 4 pkt) :: u16) = length ?as" using assms(2) by (simp add: unat_of_nat)
  show "length pkt = 20 + length ?as" unfolding pkt using assms(1) by simp
qed

lemma parse_response:
  assumes "length txid = TXID_LEN" "length (concat (map stun_attr as)) < 65536" "\<forall>(t, v) \<in> set as. length v < 65536"
  shows "parse_binding_response (stun_response txid as) txid =
    (case attrs_meaning txid as None of Some sa \<Rightarrow> Ok sa | None \<Rightarrow> Err (Stun (str ''no address attribute in response'')))"
proof -
  let ?pkt = "stun_response txid as" and ?pre = "be_of 2 BINDING_SUCCESS @ be_of 2 (word_of_nat (length (concat (map stun_attr as))) :: u16)
      @ be_of 4 MAGIC_COOKIE @ txid"
  note p = response_parts [OF assms(1,2)]
  have "stun_attrs (?pre @ concat (map stun_attr as)) txid (20 + length (concat (map stun_attr as))) (length ?pre) None = attrs_meaning txid as None"
    by (rule stun_attrs_encoded [OF assms(3)]) (simp add: assms(1))
  then have "stun_attrs ?pkt txid (20 + length (concat (map stun_attr as))) 20 None = attrs_meaning txid as None"
    using assms(1) by (simp add: stun_response_def)
  then show ?thesis unfolding parse_binding_response_def Let_def p by simp
qed

lemma cookie_port: "ucast (drop_bit 16 MAGIC_COOKIE) = (0x2112 :: u16)"
  by code_simp

text \<open>An address as STUN can carry it: without flow label and scope.\<close>

fun plain_addr :: "socket_addr \<Rightarrow> bool" where
  "plain_addr (V4 ip port) = True"
| "plain_addr (V6 ip port flow scope) = (flow = 0 \<and> scope = 0)"

lemma parse_xor_mapped_value:
  assumes "length txid = TXID_LEN" "plain_addr sa"
  shows "parse_xor_mapped (xor_mapped_value txid sa) txid = Some sa"
proof (cases sa)
  case (V4 ip port)
  let ?x = "xor_bytes (be_of 4 ip) (be_of 4 MAGIC_COOKIE)"
  have "slice 2 4 ([0, 1] @ be_of 2 (port XOR 0x2112) @ ?x) = be_of 2 (port XOR 0x2112)" by (rule slice_mid) simp_all
  moreover have "slice 4 8 (([0, 1] @ be_of 2 (port XOR 0x2112)) @ ?x @ []) = ?x" by (rule slice_mid) simp_all
  ultimately show ?thesis using V4
    by (simp add: parse_xor_mapped_def cookie_port xor_bytes_cancel xor.assoc)
next
  case (V6 ip port flow scope)
  let ?x = "xor_bytes (be_of 16 ip) (be_of 4 MAGIC_COOKIE @ txid)"
  have "slice 2 4 ([0, 2] @ be_of 2 (port XOR 0x2112) @ ?x) = be_of 2 (port XOR 0x2112)" by (rule slice_mid) simp_all
  moreover have "slice 4 20 (([0, 2] @ be_of 2 (port XOR 0x2112)) @ ?x @ []) = ?x" by (rule slice_mid) (simp_all add: assms(1))
  ultimately show ?thesis using V6 assms
    by (simp add: parse_xor_mapped_def cookie_port xor_bytes_cancel xor.assoc)
qed

lemma attrs_meaning_xor:
  assumes "\<forall>(t, v) \<in> set before. t \<noteq> ATTR_XOR_MAPPED_ADDRESS" "parse_xor_mapped v txid = Some sa"
  shows "attrs_meaning txid (before @ (ATTR_XOR_MAPPED_ADDRESS, v) # after) fallback = Some sa"
  using assms by (induction before arbitrary: fallback) auto

text \<open>
  C31: A STUN response gives the address the server saw. A Binding success with the request's transaction
  id that carries the XOR-mapped form of an IPv4 or IPv6 address parses to exactly that address, whatever
  other attributes, of any length and with their padding, stand before it, among them a plain mapped
  address that says otherwise, and whatever follows.
\<close>

theorem stun_response_parsed:
  assumes "length txid = TXID_LEN" "plain_addr sa"
    and "as = before @ (ATTR_XOR_MAPPED_ADDRESS, xor_mapped_value txid sa) # after"
    and "\<forall>(t, v) \<in> set before. t \<noteq> ATTR_XOR_MAPPED_ADDRESS" "\<forall>(t, v) \<in> set as. length v < 65536"
    and "length (concat (map stun_attr as)) < 65536"
  shows "parse_binding_response (stun_response txid as) txid = Ok sa"
  using parse_response [OF assms(1,6,5)] attrs_meaning_xor [OF assms(4) parse_xor_mapped_value [OF assms(1,2)]]
  by (simp add: assms(3))

lemma parse_binding_response_Ok:
  assumes "parse_binding_response pkt txid = Ok sa"
  shows "STUN_HEADER_LEN \<le> length pkt \<and> of_be (slice 0 2 pkt) = BINDING_SUCCESS \<and> of_be (slice 4 8 pkt) = MAGIC_COOKIE
     \<and> slice 8 20 pkt = txid"
  using assms by (auto simp: parse_binding_response_def Let_def split: if_splits)

lemma stun_wait_Found:
  assumes "stun_wait txid es = Some (Found sa)"
  shows "\<exists>bs src. Datagram bs src \<in> set es \<and> parse_binding_response (take 1500 bs) txid = Ok sa"
  using assms by (induction txid es rule: stun_wait.induct) (auto split: res.splits)

lemma stun_tries_Ok:
  assumes "stun_tries txid server dst n sent ts = Some (Ok sa, out)"
  shows "\<exists>es bs src. (None, es) \<in> set ts \<and> Datagram bs src \<in> set es \<and> parse_binding_response (take 1500 bs) txid = Ok sa"
  using assms
proof (induction txid server dst n sent ts rule: stun_tries.induct)
  case (4 txid server dst n sent es ts)
  then show ?case by (fastforce simp: Let_def split: option.splits stun_try.splits dest: stun_wait_Found)
qed simp_all

lemma stun_tries_sent:
  assumes "stun_tries txid server dst n sent ts = Some (r, out)"
  shows "\<exists>m \<le> n. out = sent @ replicate m (binding_request txid, dst)"
  using assms
proof (induction txid server dst n sent ts rule: stun_tries.induct)
  case (4 txid server dst n sent es ts)
  define q where "q = (binding_request txid, dst)"
  have one: "\<exists>m \<le> Suc n. sent @ [q] = sent @ replicate m q" by (rule exI [of _ 1]) simp
  have more: "\<exists>k \<le> Suc n. (sent @ [q]) @ replicate m q = sent @ replicate k q" if "m \<le> n" for m
    using that by (intro exI [of _ "Suc m"]) simp
  show ?case
  proof (cases "stun_wait txid es")
    case None
    then show ?thesis using "4.prems" by simp
  next
    case (Some t)
    show ?thesis
    proof (cases t)
      case TryTimedOut
      then have "stun_tries txid server dst n (sent @ [q]) ts = Some (r, out)" using "4.prems" Some by (simp add: q_def)
      then have "\<exists>m \<le> n. out = (sent @ [q]) @ replicate m q"
        using "4.IH" [OF refl Some TryTimedOut] unfolding q_def by simp
      then show ?thesis using more unfolding q_def by auto
    qed (use "4.prems" Some one in \<open>simp_all add: q_def\<close>)
  qed
qed auto


text \<open>
  STUN discovery ends. When every try is ended by a timeout or an error at the latest, the discovery has a
  result after at most as many tries as it was asked for, and at least one.
\<close>

theorem discover_terminates:
  assumes "\<forall>(err, es) \<in> set ts. RecvTimedOut \<in> set es \<or> (\<exists>e. RecvFailed e \<in> set es)" "max retries 1 \<le> length ts"
  shows "\<exists>r. discover txid local server server_text retries (take (max retries 1) ts) = Some r"
proof -
  have wait: "RecvTimedOut \<in> set es \<or> (\<exists>e. RecvFailed e \<in> set es) \<Longrightarrow> \<exists>r. stun_wait txid es = Some r" for es
    by (induction txid es rule: stun_wait.induct) (auto split: res.splits)
  have "n \<le> length ts \<Longrightarrow> \<forall>(err, es) \<in> set ts. RecvTimedOut \<in> set es \<or> (\<exists>e. RecvFailed e \<in> set es) \<Longrightarrow>
      \<exists>r. stun_tries txid server_text dst n sent (take n ts) = Some r"
    for n dst sent and ts :: "(io_error option \<times> recv_event list) list"
  proof (induction n arbitrary: ts sent)
    case (Suc n)
    then obtain err es ts' where ts: "ts = (err, es) # ts'" by (cases ts) auto
    then obtain r where "stun_wait txid es = Some r" using wait Suc.prems(2) by auto
    then show ?case using Suc.IH [of ts'] Suc.prems ts by (cases err; cases r) (auto simp: Let_def)
  qed simp
  from this [OF assms(2,1)] show ?thesis by (simp add: discover_def)
qed

section \<open>One binding for each family\<close>

text \<open>What the loops keep: the flags tell which families were found, no family was found twice, and
  no server of a family the socket cannot reach was asked.\<close>

definition found_ok :: "bool \<times> bool \<Rightarrow> stun_found \<Rightarrow> bool" where
  "found_ok fams st \<longleftrightarrow>
     (case st of (out, have_v4, have_v6) \<Rightarrow>
        distinct (map (is_ipv6 \<circ> snd) out) \<and> list_all (family_ok fams \<circ> fst) out
        \<and> have_v4 = (False \<in> set (map (is_ipv6 \<circ> snd) out)) \<and> have_v6 = (True \<in> set (map (is_ipv6 \<circ> snd) out)))"

lemma found_ok_add:
  assumes "found_ok fams (out, have_v4, have_v6)" "family_ok fams addr" "is_ipv6 sa = is_ipv6 addr"
    and "\<not> ((\<not> is_ipv6 addr \<and> have_v4) \<or> (is_ipv6 addr \<and> have_v6))"
  shows "found_ok fams (out @ [(addr, sa)], have_v4 \<or> \<not> is_ipv6 sa, have_v6 \<or> is_ipv6 sa)"
  using assms by (auto simp: found_ok_def)

lemma discover_addrs_ok:
  assumes "\<forall>a s sa s'. disc a s = (Ok sa, s') \<longrightarrow> is_ipv6 sa = is_ipv6 a" "found_ok fams (fst st)"
  shows "found_ok fams (fst (discover_addrs disc fams addrs st))"
  using assms
proof (induction disc fams addrs st rule: discover_addrs.induct)
  case (2 disc fams addr addrs out have_v4 have_v6 s)
  show ?case
  proof (cases "family_ok fams addr \<and> \<not> ((\<not> is_ipv6 addr \<and> have_v4) \<or> (is_ipv6 addr \<and> have_v6))")
    case True
    obtain r s' where d: "disc addr s = (r, s')" by (cases "disc addr s")
    show ?thesis
    proof (cases r)
      case (Ok sa)
      then have "is_ipv6 sa = is_ipv6 addr" using "2.prems"(1) d by blast
      then have "found_ok fams (out @ [(addr, sa)], have_v4 \<or> \<not> is_ipv6 sa, have_v6 \<or> is_ipv6 sa)"
        using found_ok_add [of fams out have_v4 have_v6 addr sa] True "2.prems"(2) by simp
      then show ?thesis using "2.IH"(3) [of r s' sa] True "2.prems"(1) d Ok by auto
    next
      case (Err e)
      then show ?thesis using "2.IH"(4) [of r s' e] True "2.prems" d by auto
    next
      case Panic
      then show ?thesis using "2.IH"(5) [of r s'] True "2.prems" d by auto
    qed
  next
    case False
    then show ?thesis using "2.IH"(1,2) "2.prems" by auto
  qed
qed simp

lemma discover_servers_ok:
  assumes "\<forall>a s sa s'. disc a s = (Ok sa, s') \<longrightarrow> is_ipv6 sa = is_ipv6 a" "found_ok fams (fst st)"
  shows "found_ok fams (fst (discover_servers lookup disc fams servers st))"
  using assms
proof (induction lookup disc fams servers st rule: discover_servers.induct)
  case (2 lookup disc fams sv svs out have_v4 have_v6 s)
  have "found_ok fams (fst (discover_addrs disc fams addrs ((out, have_v4, have_v6), s')))" for addrs s'
    using discover_addrs_ok [OF "2.prems"(1)] "2.prems"(2) by simp
  with 2 show ?case by (auto split: prod.splits res.splits)
qed simp

text \<open>
  Discovery over a list of STUN servers yields at most one address of each family. If servers answer with
  an address of the family they were asked over, the bindings returned have different families, so there
  are at most two, and every server asked is of a family that the local socket reaches: an IPv4 socket asks
  no IPv6 server.
\<close>

theorem discover_all_one_per_family:
  assumes "\<forall>a s sa s'. disc a s = (Ok sa, s') \<longrightarrow> is_ipv6 sa = is_ipv6 a"
    and "discover_all lookup disc local servers s = out"
  shows "distinct (map (is_ipv6 \<circ> snd) out) \<and> length out \<le> 2
     \<and> (\<forall>(server, sa) \<in> set out. is_ipv6 server \<longrightarrow> is_dual_stack local)"
proof -
  let ?st = "fst (discover_servers lookup disc (reachable_families local) servers (([], False, False), s))"
  have "found_ok (reachable_families local) ?st"
    using discover_servers_ok [OF assms(1), of "reachable_families local" "(([], False, False), s)"] by (simp add: found_ok_def)
  then have d: "distinct (map (is_ipv6 \<circ> snd) out)" "list_all (family_ok (reachable_families local) \<circ> fst) out"
    by (auto simp: found_ok_def discover_all_def simp flip: assms(2) split: prod.splits)
  have "card (set (map (is_ipv6 \<circ> snd) out)) \<le> card (UNIV :: bool set)" by (rule card_mono) simp_all
  then have "length out \<le> 2" using distinct_card [OF d(1)] by simp
  moreover have "\<forall>(server, sa) \<in> set out. is_ipv6 server \<longrightarrow> is_dual_stack local"
    using d(2) by (auto simp: list_all_iff family_ok_def reachable_families_def is_dual_stack_def split: option.splits if_splits)
  ultimately show ?thesis using d(1) by blast
qed

section \<open>Instances\<close>

abbreviation "demo_txid \<equiv> [0, 1, 2, 3, 4, 5, 6, 7, 8, 9, 10, 11] :: byte list"
abbreviation "demo_attrs \<equiv> [(0x8022, [65, 66, 67, 68, 69]), (ATTR_MAPPED_ADDRESS, [0, 1, 0, 1, 1, 1, 1, 1]),
  (ATTR_XOR_MAPPED_ADDRESS, xor_mapped_value demo_txid (V4 0xC6336414 41234))]"

lemma demo_attrs_length: "length (concat (map stun_attr demo_attrs)) = 36"
proof -
  have l: "length v = n \<Longrightarrow> length (stun_attr (t, v)) = 4 + n + (4 - n mod 4) mod 4" for t v n by simp
  have "length (stun_attr (0x8022, [65, 66, 67, 68, 69])) = 12" using l [of "[65, 66, 67, 68, 69]" 5] by simp
  moreover have "length (stun_attr (ATTR_MAPPED_ADDRESS, [0, 1, 0, 1, 1, 1, 1, 1])) = 12" using l [of "[0, 1, 0, 1, 1, 1, 1, 1]" 8] by simp
  moreover have "length (stun_attr (ATTR_XOR_MAPPED_ADDRESS, xor_mapped_value demo_txid (V4 0xC6336414 41234))) = 12"
    by (rule trans [OF l [of _ 8]]) simp_all
  ultimately show ?thesis by (simp del: stun_attr.simps xor_mapped_value.simps)
qed

theorem stun_response_parsed_witness:
  "parse_binding_response (stun_response demo_txid demo_attrs) demo_txid = Ok (V4 0xC6336414 41234)"
proof (rule stun_response_parsed [where before = "[(0x8022, [65, 66, 67, 68, 69]), (ATTR_MAPPED_ADDRESS, [0, 1, 0, 1, 1, 1, 1, 1])]" and after = "[]"])
  show "length (concat (map stun_attr demo_attrs)) < 65536" unfolding demo_attrs_length by simp
qed simp_all

lemma demo_discover:
  "discover demo_txid None (V4 1 3478) [] 3 [(None, [RecvTimedOut]), (None, [Datagram [1] (V4 0 0), Datagram (stun_response demo_txid demo_attrs) (V4 1 3478)])]
     = Some (Ok (V4 0xC6336414 41234), [] @ [(binding_request demo_txid, V4 1 3478)] @ [(binding_request demo_txid, V4 1 3478)])"
proof -
  let ?as = demo_attrs
  have l: "length (concat (map stun_attr ?as)) < 65536" unfolding demo_attrs_length by simp
  have small: "length demo_txid = TXID_LEN" "\<forall>(t, v) \<in> set ?as. length v < 65536" by simp_all
  have m: "attrs_meaning demo_txid ?as None = Some (V4 0xC6336414 41234)"
    using attrs_meaning_xor [OF _ parse_xor_mapped_value, of "[(0x8022, [65, 66, 67, 68, 69]), (ATTR_MAPPED_ADDRESS, [0, 1, 0, 1, 1, 1, 1, 1])]"
        demo_txid "V4 0xC6336414 41234" "[]" None] by (simp del: xor_mapped_value.simps attrs_meaning.simps)
  have p: "parse_binding_response (stun_response demo_txid ?as) demo_txid = Ok (V4 0xC6336414 41234)"
    unfolding parse_response [OF small(1) l small(2)] m by simp
  have t: "take 1500 (stun_response demo_txid ?as) = stun_response demo_txid ?as"
  proof (rule take_all)
    have "length (stun_response demo_txid ?as) = 20 + length (concat (map stun_attr ?as))" by (rule response_parts(5) [OF small(1) l])
    then show "length (stun_response demo_txid ?as) \<le> 1500" unfolding demo_attrs_length by linarith
  qed
  have e: "parse_binding_response (take 1500 [1]) demo_txid = Err (Stun (str ''response shorter than header''))"
    by (simp add: parse_binding_response_def)
  have d: "map_to_socket_family None (V4 1 3478) = V4 1 3478" by (simp add: map_to_socket_family_def)
  have n: "max 3 1 = Suc (Suc (Suc 0))" by simp
  show ?thesis unfolding discover_def n stun_tries.simps stun_wait.simps e t p d
    by (simp only: option.case stun_try.case res.case Let_def append.simps)
qed


theorem discover_terminates_witness:
  "\<exists>r. discover demo_txid None (V4 1 3478) [] 1 (take (max 1 1) [(None, [Datagram [1] (V4 0 0), RecvTimedOut])]) = Some r"
  by (rule discover_terminates) simp_all

theorem discover_all_one_per_family_witness:
  "length (discover_all (\<lambda>n s. (Ok [V4 1 1, V4 2 2, V6 3 3 0 0], s)) (\<lambda>a s. (Ok a, s)) (Some (V6 0 0 0 0)) [str ''a'', str ''b''] ()) \<le> 2"
  using discover_all_one_per_family [of "\<lambda>a s. (Ok a, s)" "\<lambda>n s. (Ok [V4 1 1, V4 2 2, V6 3 3 0 0], s)" "Some (V6 0 0 0 0)"
      "[str ''a'', str ''b'']" "()", OF _ refl] by simp

end
