(* ===== verification/Socks5_Server.thy ===== *)
theory Socks5_Server
  imports Socks5_Messages Rust_Text "HOL-Library.AList"
begin

text \<open>
  The SOCKS5 server of the local service and the client negotiator:
  \<open>shadowsocks-service/src/local/socks/server/socks5/tcprelay.rs\<close>, \<open>local/socks/config.rs\<close> and
  \<open>net/outbound/socks5.rs\<close>, with the server mode and address of \<open>shadowsocks/src/config.rs\<close>. A handler
  runs on a connection: what it will read, what it has written, which of its writes fail, and which targets
  it has dialled.
\<close>

section \<open>Connections\<close>

record conn =
  cn_in :: source
  cn_out :: "byte list"
  cn_faults :: "io_error option list"
  cn_dials :: "(bool \<times> address) list"

type_synonym ('a, 'e) io = "conn \<Rightarrow> ('a, 'e) res \<times> conn"

definition io_ok :: "'a \<Rightarrow> ('a, 'e) io" where
  "io_ok a c = (Ok a, c)"

definition io_err :: "'e \<Rightarrow> ('a, 'e) io" where
  "io_err e c = (Err e, c)"

definition io_bind :: "('a, 'e) io \<Rightarrow> ('a \<Rightarrow> ('b, 'e) io) \<Rightarrow> ('b, 'e) io" where
  "io_bind m f c = (case m c of (Ok a, c) \<Rightarrow> f a c | (Err e, c) \<Rightarrow> (Err e, c) | (Panic, c) \<Rightarrow> (Panic, c))"

text \<open>\<open>let _ = m.await\<close>, and the conversion of an error by \<open>?\<close>.\<close>

definition io_ignore :: "(unit, 'e) io \<Rightarrow> (unit, 'e) io" where
  "io_ignore m c = (case m c of (Panic, c) \<Rightarrow> (Panic, c) | (_, c) \<Rightarrow> (Ok (), c))"

definition io_map_err :: "('e \<Rightarrow> 'f) \<Rightarrow> ('a, 'e) io \<Rightarrow> ('a, 'f) io" where
  "io_map_err g m c = (case m c of (r, c) \<Rightarrow> (map_err g r, c))"

text \<open>A read that fails leaves the input as it was; no handler reads again after one.\<close>

definition io_read :: "(source \<Rightarrow> ('a \<times> source, 'e) res) \<Rightarrow> ('a, 'e) io" where
  "io_read dec c =
     (case dec (cn_in c) of Ok (x, s) \<Rightarrow> (Ok x, c\<lparr>cn_in := s\<rparr>) | Err e \<Rightarrow> (Err e, c) | Panic \<Rightarrow> (Panic, c))"

text \<open>\<open>write_all\<close> of a serialised message; \<open>None\<close> is a serialiser that panics.\<close>

definition io_write :: "byte list option \<Rightarrow> (unit, io_error) io" where
  "io_write msg c =
     (case msg of
        None \<Rightarrow> (Panic, c)
      | Some bs \<Rightarrow>
          (case cn_faults c of
             Some e # fs \<Rightarrow> (Err e, c\<lparr>cn_faults := fs\<rparr>)
           | _ \<Rightarrow> (Ok (), c\<lparr>cn_out := cn_out c @ bs, cn_faults := tl (cn_faults c)\<rparr>)))"

definition io_dial :: "bool \<Rightarrow> address \<Rightarrow> (unit, io_error) io" where
  "io_dial bypassed target c = (Ok (), c\<lparr>cn_dials := cn_dials c @ [(bypassed, target)]\<rparr>)"

section \<open>Server mode and address\<close>

datatype mode = TcpOnly | TcpAndUdp | UdpOnly

fun mode_as_u8 :: "mode \<Rightarrow> byte" where
  "mode_as_u8 TcpOnly = 0x01"
| "mode_as_u8 TcpAndUdp = 0x03"
| "mode_as_u8 UdpOnly = 0x02"

fun enable_udp :: "mode \<Rightarrow> bool" where
  "enable_udp TcpOnly = False"
| "enable_udp TcpAndUdp = True"
| "enable_udp UdpOnly = True"

fun enable_tcp :: "mode \<Rightarrow> bool" where
  "enable_tcp TcpOnly = True"
| "enable_tcp TcpAndUdp = True"
| "enable_tcp UdpOnly = False"

text \<open>\<open>None\<close> is the \<open>unreachable!()\<close>.\<close>

definition mode_merge :: "mode \<Rightarrow> mode \<Rightarrow> mode option" where
  "mode_merge me fm =
     (let b = mode_as_u8 me OR mode_as_u8 fm
      in if b = 0x01 then Some TcpOnly else if b = 0x02 then Some UdpOnly
         else if b = 0x03 then Some TcpAndUdp else None)"

fun mode_as_str :: "mode \<Rightarrow> rstring" where
  "mode_as_str TcpOnly = str ''tcp_only''"
| "mode_as_str TcpAndUdp = str ''tcp_and_udp''"
| "mode_as_str UdpOnly = str ''udp_only''"

definition mode_from_str :: "rstring \<Rightarrow> mode option" where
  "mode_from_str s =
     (if s = str ''tcp_only'' then Some TcpOnly else if s = str ''tcp_and_udp'' then Some TcpAndUdp
      else if s = str ''udp_only'' then Some UdpOnly else None)"

datatype server_addr = ServerSocketAddr socket_addr | ServerDomainName rstring u16

fun address_of_server_addr :: "server_addr \<Rightarrow> address" where
  "address_of_server_addr (ServerSocketAddr sa) = SocketAddress sa"
| "address_of_server_addr (ServerDomainName dn port) = DomainNameAddress dn port"

section \<open>Users of the SOCKS5 server\<close>

type_synonym socks5_users = "(rstring \<times> rstring) list"

definition socks5_add_user :: "rstring \<Rightarrow> rstring \<Rightarrow> socks5_users \<Rightarrow> socks5_users" where
  "socks5_add_user user_name password users = AList.update user_name password users"

definition check_user :: "socks5_users \<Rightarrow> rstring \<Rightarrow> rstring \<Rightarrow> bool" where
  "check_user users user_name password =
     (case map_of users user_name of Some pwd \<Rightarrow> pwd = password | None \<Rightarrow> False)"

definition total_users :: "socks5_users \<Rightarrow> nat" where
  "total_users users = length users"

definition auth_required :: "socks5_users \<Rightarrow> bool" where
  "auth_required users \<longleftrightarrow> 0 < total_users users"

section \<open>The server\<close>

abbreviation "PASSWORD_AUTH_STATUS_FAILURE \<equiv> 255 :: byte"

definition check_auth_password :: "socks5_users \<Rightarrow> (unit, io_error) io" where
  "check_auth_password users c =
     (case io_read passwd_auth_request_read_from c of
        (Panic, c) \<Rightarrow> (Panic, c)
      | (Err err, c) \<Rightarrow>
          io_bind (io_ignore (io_write (passwd_auth_response_write \<lparr>status = reply_as_u8 (as_reply err)\<rparr>)))
            (\<lambda>_. io_err (Io_Error OtherKind
               (str ''Username/Password Authentication Initial request failed: '' @ socks5_error_display err))) c
      | (Ok req, c) \<Rightarrow>
          (if \<not> valid_utf8 (uname req) then
             io_bind (io_ignore (io_write (passwd_auth_response_write \<lparr>status = PASSWORD_AUTH_STATUS_FAILURE\<rparr>)))
               (\<lambda>_. io_err (io_other
                  ''Username/Password Authentication Initial request uname contains invalid characters'')) c
           else if \<not> valid_utf8 (passwd req) then
             io_bind (io_ignore (io_write (passwd_auth_response_write \<lparr>status = PASSWORD_AUTH_STATUS_FAILURE\<rparr>)))
               (\<lambda>_. io_err (io_other
                  ''Username/Password Authentication Initial request passwd contains invalid characters'')) c
           else if check_user users (uname req) (passwd req) then
             io_write (passwd_auth_response_write \<lparr>status = 0\<rparr>) c
           else
             io_bind (io_write (passwd_auth_response_write \<lparr>status = PASSWORD_AUTH_STATUS_FAILURE\<rparr>))
               (\<lambda>_. io_err (Io_Error OtherKind
                  (str ''Username/Password Authentication failed, user: '' @ uname req @ str '', password: '' @ passwd req))) c))"

text \<open>The loop over the methods the client offers.\<close>

fun check_auth :: "socks5_users \<Rightarrow> byte list \<Rightarrow> (unit, io_error) io" where
  "check_auth users [] =
     io_bind (io_write (handshake_response_write \<lparr>chosen_method = SOCKS5_AUTH_METHOD_NOT_ACCEPTABLE\<rparr>))
       (\<lambda>_. io_err (io_other ''currently shadowsocks-rust does not support authentication''))"
| "check_auth users (m # ms) =
     (if m = SOCKS5_AUTH_METHOD_PASSWORD then
        io_bind (io_write (handshake_response_write \<lparr>chosen_method = SOCKS5_AUTH_METHOD_PASSWORD\<rparr>))
          (\<lambda>_. check_auth_password users)
      else if m = SOCKS5_AUTH_METHOD_NONE then
        (if auth_required users then check_auth users ms
         else io_write (handshake_response_write \<lparr>chosen_method = SOCKS5_AUTH_METHOD_NONE\<rparr>))
      else check_auth users ms)"

text \<open>What a handled connection ended with. \<open>Tunnelled\<close> stands for the relaying that then begins, through
  a proxy server or bypassing it.\<close>

datatype handled = EarlyEof | RefusedWith reply | Tunnelled bool address | Associated

record socks5_handler =
  sh_udp_associate_addr :: server_addr
  sh_balancer_empty :: bool
  sh_mode :: mode
  sh_auth :: socks5_users

text \<open>\<open>connect bypassed target\<close> is the outcome of connecting to the target, with the outcome of the
  \<open>local_addr()\<close> of the new connection.\<close>

definition handle_tcp_connect ::
  "(bool \<Rightarrow> address \<Rightarrow> ((socket_addr, io_error) res, io_error) res) \<Rightarrow> socks5_handler \<Rightarrow> address \<Rightarrow> (handled, io_error) io" where
  "handle_tcp_connect connect h target =
     (if \<not> enable_tcp (sh_mode h) then
        io_bind (io_write (tcp_response_write \<lparr>resp_reply = CommandNotSupported, resp_address = target\<rparr>))
          (\<lambda>_. io_ok (RefusedWith CommandNotSupported))
      else
        io_bind (io_dial (sh_balancer_empty h) target) (\<lambda>_.
         case connect (sh_balancer_empty h) target of
           Panic \<Rightarrow> (\<lambda>c. (Panic, c))
         | Ok (Ok local) \<Rightarrow>
             io_bind (io_write (tcp_response_write \<lparr>resp_reply = Succeeded, resp_address = SocketAddress local\<rparr>))
               (\<lambda>_. io_ok (Tunnelled (sh_balancer_empty h) target))
         | Ok (Err e) \<Rightarrow> io_err e
         | Ok Panic \<Rightarrow> (\<lambda>c. (Panic, c))
         | Err err \<Rightarrow>
             let reply = (case io_error_kind err of
                            ConnectionRefusedKind \<Rightarrow> ConnectionRefused
                          | ConnectionAbortedKind \<Rightarrow> HostUnreachable
                          | _ \<Rightarrow> NetworkUnreachable)
             in io_bind (io_write (tcp_response_write \<lparr>resp_reply = reply, resp_address = SocketAddress (sock_new (IpV4 0) 0)\<rparr>))
                  (\<lambda>_. io_err err)))"

text \<open>\<open>ignore_until_end\<close> consumes the rest of the stream; its result is dropped.\<close>

definition ignore_until_end :: "(unit, io_error) io" where
  "ignore_until_end c =
     (case cn_in c of
        (bs, At_Eof) \<Rightarrow> (Ok (), c\<lparr>cn_in := ([], At_Eof)\<rparr>)
      | (bs, At_Error e) \<Rightarrow> (Err e, c\<lparr>cn_in := ([], At_Error e)\<rparr>))"

definition handle_udp_associate :: "socks5_handler \<Rightarrow> address \<Rightarrow> (handled, io_error) io" where
  "handle_udp_associate h client_addr =
     (if \<not> enable_udp (sh_mode h) then
        io_bind (io_write (tcp_response_write \<lparr>resp_reply = CommandNotSupported, resp_address = client_addr\<rparr>))
          (\<lambda>_. io_ok (RefusedWith CommandNotSupported))
      else
        io_bind (io_write (tcp_response_write
              \<lparr>resp_reply = Succeeded, resp_address = address_of_server_addr (sh_udp_associate_addr h)\<rparr>))
          (\<lambda>_. io_bind (io_ignore ignore_until_end) (\<lambda>_. io_ok Associated)))"

text \<open>The command, once the client is let in.\<close>

definition serve_request ::
  "(bool \<Rightarrow> address \<Rightarrow> ((socket_addr, io_error) res, io_error) res) \<Rightarrow> socks5_handler \<Rightarrow> socket_addr \<Rightarrow> (handled, io_error) io" where
  "serve_request connect h peer_addr c =
     (case io_read tcp_request_read_from c of
        (Panic, c) \<Rightarrow> (Panic, c)
      | (Err err, c) \<Rightarrow>
          io_bind (io_write (tcp_response_write \<lparr>resp_reply = as_reply err, resp_address = SocketAddress peer_addr\<rparr>))
            (\<lambda>_. io_err (io_error_from_socks5 err)) c
      | (Ok header, c) \<Rightarrow>
          (case req_command header of
             TcpConnect \<Rightarrow> handle_tcp_connect connect h (req_address header) c
           | UdpAssociate \<Rightarrow> handle_udp_associate h (req_address header) c
           | TcpBind \<Rightarrow>
               io_bind (io_write (tcp_response_write
                    \<lparr>resp_reply = CommandNotSupported, resp_address = req_address header\<rparr>))
                 (\<lambda>_. io_ok (RefusedWith CommandNotSupported)) c))"

definition handle_socks5_client ::
  "(bool \<Rightarrow> address \<Rightarrow> ((socket_addr, io_error) res, io_error) res) \<Rightarrow> socks5_handler \<Rightarrow> socket_addr \<Rightarrow> (handled, io_error) io" where
  "handle_socks5_client connect h peer_addr c =
     (case io_read handshake_request_read_from c of
        (Panic, c) \<Rightarrow> (Panic, c)
      | (Err err, c) \<Rightarrow>
          (case err of
             IoError e \<Rightarrow> if io_error_kind e = UnexpectedEof then (Ok EarlyEof, c) else (Err (io_error_from_socks5 err), c)
           | _ \<Rightarrow> (Err (io_error_from_socks5 err), c))
      | (Ok handshake_req, c) \<Rightarrow>
          io_bind (check_auth (sh_auth h) (methods handshake_req)) (\<lambda>_. serve_request connect h peer_addr) c)"

section \<open>The client negotiator\<close>

datatype socks5_auth = NoAuth | UsernamePassword "byte list" "byte list"

definition socks5_handshake :: "socks5_auth \<Rightarrow> (unit, socks5_error) io" where
  "socks5_handshake auth =
     (let methods = (case auth of
                       NoAuth \<Rightarrow> [SOCKS5_AUTH_METHOD_NONE]
                     | UsernamePassword u p \<Rightarrow> [SOCKS5_AUTH_METHOD_PASSWORD, SOCKS5_AUTH_METHOD_NONE])
      in io_bind (io_map_err IoError (io_write (handshake_request_write \<lparr>methods = methods\<rparr>))) (\<lambda>_.
         io_bind (io_read handshake_response_read_from) (\<lambda>resp.
           if chosen_method resp = SOCKS5_AUTH_METHOD_NONE then io_ok ()
           else if chosen_method resp = SOCKS5_AUTH_METHOD_PASSWORD then
             (case auth of
                UsernamePassword u p \<Rightarrow>
                  (case passwd_auth_request_new u p of
                     None \<Rightarrow> (\<lambda>c. (Panic, c))
                   | Some req \<Rightarrow>
                       io_bind (io_map_err IoError (io_write (passwd_auth_request_write req))) (\<lambda>_.
                       io_bind (io_read passwd_auth_response_read_from) (\<lambda>resp.
                         if status resp = 0 then io_ok ()
                         else io_err (IoError (Io_Error OtherKind
                                (str ''SOCKS5 username/password authentication failed with status '' @ show_alt_hex04 (status resp)))))))
              | NoAuth \<Rightarrow>
                  io_err (IoError (io_other ''SOCKS5 proxy requested USERNAME/PASSWORD but no credentials were provided'')))
           else io_err (IoError (Io_Error OtherKind
                  (str ''SOCKS5 proxy selected unsupported authentication method '' @ show_alt_hex04 (chosen_method resp)))))))"

definition socks5_command :: "command \<Rightarrow> address \<Rightarrow> (tcp_response_header, socks5_error) io" where
  "socks5_command cmd addr =
     io_bind (io_map_err IoError (io_write (tcp_request_write \<lparr>req_command = cmd, req_address = addr\<rparr>))) (\<lambda>_.
     io_bind (io_read tcp_response_read_from) (\<lambda>resp.
       case resp_reply resp of Succeeded \<Rightarrow> io_ok resp | reply \<Rightarrow> io_err (ReplyError reply)))"

definition establish_tcp :: "address \<Rightarrow> socks5_auth \<Rightarrow> (tcp_response_header, socks5_error) io" where
  "establish_tcp target auth = io_bind (socks5_handshake auth) (\<lambda>_. socks5_command TcpConnect target)"

definition establish_udp_associate :: "address \<Rightarrow> socks5_auth \<Rightarrow> (tcp_response_header, socks5_error) io" where
  "establish_udp_associate announce auth = io_bind (socks5_handshake auth) (\<lambda>_. socks5_command UdpAssociate announce)"

section \<open>Modes\<close>

lemma mode_from_as_str: "mode_from_str (mode_as_str m) = Some m"
  by (cases m) (simp_all add: mode_from_str_def str_def)

text \<open>The bit pattern of a mode: merging enables what either mode enables, and never panics.\<close>

lemma mode_merge_enables:
  "\<exists>m. mode_merge a b = Some m \<and> enable_tcp m = (enable_tcp a \<or> enable_tcp b) \<and> enable_udp m = (enable_udp a \<or> enable_udp b)"
  by (cases a; cases b) (simp_all add: mode_merge_def)

section \<open>Connections without faults\<close>

definition quiet :: "byte list \<Rightarrow> stream_end \<Rightarrow> byte list \<Rightarrow> (bool \<times> address) list \<Rightarrow> conn" where
  "quiet i e out ds = \<lparr>cn_in = (i, e), cn_out = out, cn_faults = [], cn_dials = ds\<rparr>"

named_theorems conn_simps \<open>Running a handler on a connection\<close>

lemma quiet_write [conn_simps]: "io_write (Some bs) (quiet i e out ds) = (Ok (), quiet i e (out @ bs) ds)"
  by (simp add: io_write_def quiet_def)

lemma quiet_read [conn_simps]: "dec (i, e) = Ok (x, (i', e)) \<Longrightarrow> io_read dec (quiet i e out ds) = (Ok x, quiet i' e out ds)"
  by (simp add: io_read_def quiet_def)

lemma quiet_dial [conn_simps]: "io_dial b a (quiet i e out ds) = (Ok (), quiet i e out (ds @ [(b, a)]))"
  by (simp add: io_dial_def quiet_def)

lemmas [conn_simps] = io_bind_def io_ok_def io_err_def io_ignore_def io_map_err_def
  handshake_response_write_def passwd_auth_response_write_def

lemma read_hello [conn_simps]:
  "handshake_request_read_from (5 # 1 # a # i, e) = Ok (\<lparr>methods = [a]\<rparr>, (i, e))"
  "handshake_request_read_from (5 # 2 # a # b # i, e) = Ok (\<lparr>methods = [a, b]\<rparr>, (i, e))"
  by (simp_all add: handshake_request_read_from_def io_simps)

lemma read_choice [conn_simps]: "handshake_response_read_from (5 # m # i, e) = Ok (\<lparr>chosen_method = m\<rparr>, (i, e))"
  by (simp add: handshake_response_read_from_def io_simps)

lemma read_status [conn_simps]: "passwd_auth_response_read_from (1 # st # i, e) = Ok (\<lparr>status = st\<rparr>, (i, e))"
  by (simp add: passwd_auth_response_read_from_def)

section \<open>A client and the server agree\<close>

definition credentials :: "byte list \<Rightarrow> byte list \<Rightarrow> byte list" where
  "credentials u p = 0x01 # word_of_nat (length u) # u @ word_of_nat (length p) # p"

lemma read_credentials [conn_simps]:
  assumes "passwd_auth_request_new u p = Some req"
  shows "passwd_auth_request_write req = Some (credentials u p)"
    and "passwd_auth_request_read_from (credentials u p @ i, e) = Ok (\<lparr>uname = u, passwd = p\<rparr>, (i, e))"
  using assms passwd_req.dec_enc [of req "credentials u p" i e]
  by (auto simp: passwd_auth_request_new_def passwd_auth_request_write_def credentials_def
        wf_passwd_auth_request_def split: if_splits)

text \<open>Which clients the server lets in.\<close>

fun accepted :: "socks5_users \<Rightarrow> socks5_auth \<Rightarrow> bool" where
  "accepted users NoAuth = (\<not> auth_required users)"
| "accepted users (UsernamePassword u p) =
     (passwd_auth_request_new u p \<noteq> None \<and> valid_utf8 u \<and> valid_utf8 p \<and> check_user users u p)"

fun client_hello :: "socks5_auth \<Rightarrow> byte list" where
  "client_hello NoAuth = [5, 1, 0]"
| "client_hello (UsernamePassword u p) = [5, 2, 2, 0] @ credentials u p"

fun server_hello :: "byte \<Rightarrow> socks5_auth \<Rightarrow> byte list" where
  "server_hello st NoAuth = [5, 0]"
| "server_hello st (UsernamePassword u p) = [5, 2, 1, st]"

lemma server_accepts:
  assumes "accepted (sh_auth h) auth"
  shows "handle_socks5_client connect h peer (quiet (client_hello auth @ i) e out ds)
    = serve_request connect h peer (quiet i e (out @ server_hello 0 auth) ds)"
  using assms
  by (cases auth) (auto simp: handle_socks5_client_def check_auth_password_def conn_simps)

lemma client_handshake:
  assumes "\<forall>u p. auth = UsernamePassword u p \<longrightarrow> passwd_auth_request_new u p \<noteq> None"
  shows "socks5_handshake auth (quiet (server_hello 0 auth @ i) e out ds) = (Ok (), quiet i e (out @ client_hello auth) ds)"
  using assms
  by (cases auth) (auto simp: socks5_handshake_def handshake_request_write_def conn_simps)


lemma client_command:
  assumes "wf_address addr" "wf_address a" "tcp_request_write \<lparr>req_command = cmd, req_address = addr\<rparr> = Some w"
    and "tcp_response_write \<lparr>resp_reply = Succeeded, resp_address = a\<rparr> = Some r"
  shows "socks5_command cmd addr (quiet (r @ i) e out ds) = (Ok \<lparr>resp_reply = Succeeded, resp_address = a\<rparr>, quiet i e (out @ w) ds)"
  using assms(3) tcp_response.dec_enc [OF _ assms(4), of i e] assms(2)
  by (simp add: socks5_command_def conn_simps)

lemma server_command:
  assumes "wf_address addr" "tcp_request_write \<lparr>req_command = cmd, req_address = addr\<rparr> = Some w"
  shows "io_read tcp_request_read_from (quiet (w @ i) e out ds) = (Ok \<lparr>req_command = cmd, req_address = addr\<rparr>, quiet i e out ds)"
  using tcp_request.dec_enc [OF _ assms(2), of i e] assms(1) by (simp add: conn_simps)

text \<open>
  C14: A client that is let in is served. Take a client without credentials and a server that asks for
  none, or a client whose name and password the server knows. Run on each other's bytes, the server dials
  exactly the target the client named and the client's \<open>establish_tcp\<close> returns the address the server
  reported; neither takes a byte of the traffic that follows. With UDP enabled, \<open>establish_udp_associate\<close>
  returns the relay address of the server, which then holds the connection to its end.
\<close>

theorem socks5_client_served:
  assumes "accepted (sh_auth h) auth" "wf_address target"
    and "enable_tcp (sh_mode h)" "connect (sh_balancer_empty h) target = Ok (Ok local)" "wf_address (SocketAddress local)"
    and "enable_udp (sh_mode h)" "wf_address (address_of_server_addr (sh_udp_associate_addr h))"
  shows "(\<exists>w r. (\<forall>i e. handle_socks5_client connect h peer (quiet (w @ i) e [] [])
             = (Ok (Tunnelled (sh_balancer_empty h) target), quiet i e r [(sh_balancer_empty h, target)]))
         \<and> (\<forall>i e. establish_tcp target auth (quiet (r @ i) e [] [])
             = (Ok \<lparr>resp_reply = Succeeded, resp_address = SocketAddress local\<rparr>, quiet i e w [])))
     \<and> (\<exists>w r. (\<forall>i e. handle_socks5_client connect h peer (quiet (w @ i) e [] []) = (Ok Associated, quiet [] e r []))
         \<and> (\<forall>i e. establish_udp_associate target auth (quiet (r @ i) e [] [])
             = (Ok \<lparr>resp_reply = Succeeded, resp_address = address_of_server_addr (sh_udp_associate_addr h)\<rparr>, quiet i e w [])))"
    (is "?tcp \<and> ?udp")
proof
  let ?req = "\<lambda>cmd. \<lparr>req_command = cmd, req_address = target\<rparr>"
  let ?resp = "\<lambda>a. \<lparr>resp_reply = Succeeded, resp_address = a\<rparr>"
  have ok: "\<forall>u p. auth = UsernamePassword u p \<longrightarrow> passwd_auth_request_new u p \<noteq> None"
    using assms(1) by auto
  note run = server_accepts [OF assms(1)] client_handshake [OF ok]
  obtain w where w: "\<And>cmd. tcp_request_write (?req cmd) = Some (w cmd)"
    using choice [of "\<lambda>cmd w. tcp_request_write (?req cmd) = Some w"] tcp_request.enc_total [of "?req _"] assms(2) by auto
  have resp: "\<exists>r. tcp_response_write (?resp a) = Some r" if "wf_address a" for a
    using tcp_response.enc_total [of "?resp a"] that by simp
  show ?tcp
  proof -
    obtain r where r: "tcp_response_write (?resp (SocketAddress local)) = Some r" using resp assms(5) by blast
    have "handle_socks5_client connect h peer (quiet ((client_hello auth @ w TcpConnect) @ i) e [] [])
        = (Ok (Tunnelled (sh_balancer_empty h) target), quiet i e (server_hello 0 auth @ r) [(sh_balancer_empty h, target)])" for i e
      using assms(3,4) by (simp add: run serve_request_def server_command [OF assms(2) w] handle_tcp_connect_def r conn_simps)
    moreover have "establish_tcp target auth (quiet ((server_hello 0 auth @ r) @ i) e [] [])
        = (Ok (?resp (SocketAddress local)), quiet i e (client_hello auth @ w TcpConnect) [])" for i e
      by (simp add: establish_tcp_def run client_command [OF assms(2,5) w r] conn_simps)
    ultimately show ?thesis by blast
  qed
  show ?udp
  proof -
    let ?a = "address_of_server_addr (sh_udp_associate_addr h)"
    obtain r where r: "tcp_response_write (?resp ?a) = Some r" using resp assms(7) by blast
    have "handle_socks5_client connect h peer (quiet ((client_hello auth @ w UdpAssociate) @ i) e [] [])
        = (Ok Associated, quiet [] e (server_hello 0 auth @ r) [])" for i e
      using assms(6) by (simp add: run serve_request_def server_command [OF assms(2) w] handle_udp_associate_def r conn_simps)
        (simp add: ignore_until_end_def io_ok_def quiet_def split: stream_end.splits)
    moreover have "establish_udp_associate target auth (quiet ((server_hello 0 auth @ r) @ i) e [] [])
        = (Ok (?resp ?a), quiet i e (client_hello auth @ w UdpAssociate) [])" for i e
      by (simp add: establish_udp_associate_def run client_command [OF assms(2,7) w r] conn_simps)
    ultimately show ?thesis by blast
  qed
qed

section \<open>Nothing is served without the credentials\<close>

lemma io_write_keeps: "io_write m c = (r, c') \<Longrightarrow> cn_in c' = cn_in c \<and> cn_dials c' = cn_dials c"
  by (auto simp: io_write_def split: option.splits list.splits)

lemma io_bind_Ok: "io_bind m f c = (Ok b, c') \<longleftrightarrow> (\<exists>a c1. m c = (Ok a, c1) \<and> f a c1 = (Ok b, c'))"
  by (auto simp: io_bind_def split: prod.splits res.splits)

lemma io_read_keeps: "io_read dec c = (r, c') \<Longrightarrow> cn_dials c' = cn_dials c"
  by (auto simp: io_read_def split: res.splits)

lemma io_read_Ok: "io_read dec c = (Ok x, c') \<Longrightarrow> \<exists>s. dec (cn_in c) = Ok (x, s) \<and> c' = c\<lparr>cn_in := s\<rparr>"
  by (auto simp: io_read_def split: res.splits)

lemma check_auth_password_dials: "check_auth_password users c = (r, c') \<Longrightarrow> cn_dials c' = cn_dials c"
  by (auto simp: check_auth_password_def io_bind_def io_ignore_def io_err_def
        split: prod.splits res.splits if_splits dest!: io_write_keeps io_read_keeps)

lemma check_auth_dials: "check_auth users ms c = (r, c') \<Longrightarrow> cn_dials c' = cn_dials c"
  by (induction users ms rule: check_auth.induct)
     (auto simp: io_bind_def io_err_def split: prod.splits res.splits if_splits
       dest!: io_write_keeps check_auth_password_dials)

lemma check_auth_password_Ok:
  assumes "check_auth_password users c = (Ok (), c')"
  shows "\<exists>q s. passwd_auth_request_read_from (cn_in c) = Ok (q, s)
     \<and> map_of users (uname q) = Some (passwd q) \<and> cn_in c' = s"
  using assms
  by (auto simp: check_auth_password_def io_bind_def io_ignore_def io_err_def check_user_def
        split: prod.splits res.splits if_splits option.splits dest!: io_write_keeps io_read_Ok)

lemma check_auth_Ok:
  assumes "check_auth users ms c = (Ok (), c')" "auth_required users"
  shows "\<exists>q s. passwd_auth_request_read_from (cn_in c) = Ok (q, s)
     \<and> map_of users (uname q) = Some (passwd q) \<and> cn_in c' = s"
  using assms
  by (induction users ms rule: check_auth.induct)
     (auto simp: io_bind_Ok io_err_def split: if_splits dest!: io_write_keeps check_auth_password_Ok)

lemma reply_then_keeps:
  assumes "io_bind (io_write m) (\<lambda>_. k) c = (r, c')" "k = io_ok x \<or> k = io_err er"
  shows "cn_dials c' = cn_dials c"
  using assms by (auto simp: io_bind_def io_ok_def io_err_def split: prod.splits res.splits dest!: io_write_keeps)

lemma ignore_until_end_keeps: "ignore_until_end c = (r, c') \<Longrightarrow> cn_dials c' = cn_dials c"
  by (auto simp: ignore_until_end_def split: prod.splits stream_end.splits)

lemma handle_udp_associate_dials: "handle_udp_associate h a c = (r, c') \<Longrightarrow> cn_dials c' = cn_dials c"
  by (auto simp: handle_udp_associate_def io_bind_def io_ignore_def io_ok_def
        split: prod.splits res.splits if_splits dest!: io_write_keeps ignore_until_end_keeps)

lemma handle_tcp_connect_dials:
  assumes "handle_tcp_connect connect h target c = (r, c')"
  shows "cn_dials c' = cn_dials c \<and> \<not> enable_tcp (sh_mode h)
    \<or> cn_dials c' = cn_dials c @ [(sh_balancer_empty h, target)] \<and> enable_tcp (sh_mode h)"
  using assms
  by (auto simp: handle_tcp_connect_def io_bind_def io_dial_def io_ok_def io_err_def Let_def
        split: prod.splits res.splits if_splits dest!: io_write_keeps)

lemma serve_request_dials:
  assumes "serve_request connect h peer c = (r, c')" "cn_dials c' \<noteq> cn_dials c \<or> is_ok r"
  shows "\<exists>hdr s. tcp_request_read_from (cn_in c) = Ok (hdr, s)
     \<and> (cn_dials c' = cn_dials c \<or> req_command hdr = TcpConnect \<and> enable_tcp (sh_mode h)
          \<and> cn_dials c' = cn_dials c @ [(sh_balancer_empty h, req_address hdr)])"
proof (cases "tcp_request_read_from (cn_in c)")
  case (Ok y)
  then obtain hdr s where y: "tcp_request_read_from (cn_in c) = Ok (hdr, s)" by (cases y) simp
  then have rd: "io_read tcp_request_read_from c = (Ok hdr, c\<lparr>cn_in := s\<rparr>)" by (simp add: io_read_def)
  show ?thesis
  proof (cases "req_command hdr")
    case TcpConnect
    then show ?thesis
      using assms(1) rd y handle_tcp_connect_dials [of connect h "req_address hdr" "c\<lparr>cn_in := s\<rparr>" r c']
      by (auto simp: serve_request_def)
  next
    case TcpBind
    then show ?thesis using assms(1) rd y reply_then_keeps [of _ _ "c\<lparr>cn_in := s\<rparr>" r c']
      by (fastforce simp: serve_request_def)
  next
    case UdpAssociate
    then show ?thesis
      using assms(1) rd y handle_udp_associate_dials [of h "req_address hdr" "c\<lparr>cn_in := s\<rparr>" r c']
      by (auto simp: serve_request_def)
  qed
next
  case (Err err)
  then have "io_bind (io_write (tcp_response_write \<lparr>resp_reply = as_reply err, resp_address = SocketAddress peer\<rparr>))
      (\<lambda>_. io_err (io_error_from_socks5 err)) c = (r, c')"
    using assms(1) by (simp add: serve_request_def io_read_def)
  then have "cn_dials c' = cn_dials c \<and> \<not> is_ok r"
    by (auto simp: io_bind_def io_err_def split: prod.splits res.splits dest!: io_write_keeps)
  then show ?thesis using assms(2) by simp
next
  case Panic
  then have "c' = c \<and> \<not> is_ok r" using assms(1) by (auto simp: serve_request_def io_read_def)
  then show ?thesis using assms(2) by simp
qed

lemma check_auth_offer: "check_auth users ms c = (Ok (), c') \<Longrightarrow> auth_required users \<Longrightarrow> SOCKS5_AUTH_METHOD_PASSWORD \<in> set ms"
  by (induction users ms rule: check_auth.induct) (auto simp: io_bind_Ok io_err_def split: if_splits)

text \<open>
  C13: Nothing is served without the credentials. When the server has users, then whatever a client sends
  and whichever writes fail, the server dials a target or completes a command only if the stream carried,
  in this order, an offer of the password method, the name and password of a registered user, and the
  command; and the only target it dials is the one of that command.
\<close>

theorem socks5_auth_enforced:
  assumes "auth_required (sh_auth h)" "handle_socks5_client connect h peer c = (r, c')"
    and "cn_dials c' \<noteq> cn_dials c \<or> (is_ok r \<and> r \<noteq> Ok EarlyEof)"
  shows "\<exists>offer q hdr s1 s2 s3. handshake_request_read_from (cn_in c) = Ok (offer, s1)
     \<and> SOCKS5_AUTH_METHOD_PASSWORD \<in> set (methods offer)
     \<and> passwd_auth_request_read_from s1 = Ok (q, s2) \<and> map_of (sh_auth h) (uname q) = Some (passwd q)
     \<and> tcp_request_read_from s2 = Ok (hdr, s3)
     \<and> (cn_dials c' = cn_dials c \<or> req_command hdr = TcpConnect \<and> enable_tcp (sh_mode h)
          \<and> cn_dials c' = cn_dials c @ [(sh_balancer_empty h, req_address hdr)])"
proof -
  obtain offer s1 where o: "handshake_request_read_from (cn_in c) = Ok (offer, s1)"
    using assms(2,3) by (cases "handshake_request_read_from (cn_in c)")
      (auto simp: handle_socks5_client_def io_read_def split: socks5_error.splits if_splits)
  then have run: "io_bind (check_auth (sh_auth h) (methods offer)) (\<lambda>_. serve_request connect h peer) (c\<lparr>cn_in := s1\<rparr>) = (r, c')"
    using assms(2) by (simp add: handle_socks5_client_def io_read_def)
  obtain a c1 where a: "check_auth (sh_auth h) (methods offer) (c\<lparr>cn_in := s1\<rparr>) = (a, c1)" by fastforce
  have keeps: "cn_dials c1 = cn_dials c" using check_auth_dials [OF a] by simp
  have a_ok: "a = Ok ()" and serve: "serve_request connect h peer c1 = (r, c')"
    using run a keeps assms(3) by (auto simp: io_bind_def split: res.splits)
  note ok = a [unfolded a_ok]
  obtain q where q: "passwd_auth_request_read_from s1 = Ok (q, cn_in c1)" "map_of (sh_auth h) (uname q) = Some (passwd q)"
    using check_auth_Ok [OF ok assms(1)] by auto
  from serve_request_dials [OF serve] keeps assms(3) obtain hdr s3
    where "tcp_request_read_from (cn_in c1) = Ok (hdr, s3)"
      "cn_dials c' = cn_dials c \<or> req_command hdr = TcpConnect \<and> enable_tcp (sh_mode h)
          \<and> cn_dials c' = cn_dials c @ [(sh_balancer_empty h, req_address hdr)]" by auto
  then show ?thesis using o q check_auth_offer [OF ok assms(1)] by blast
qed

section \<open>Two ways the negotiation goes wrong\<close>

text \<open>
  C37: A client with credentials cannot use a server without users. It offers the password method first and
  the method without authentication second, and the server, which would serve the second, takes the
  first offer and then refuses every name and password. A client without credentials is let in.
\<close>

theorem socks5_credentials_refused_without_users:
  assumes "sh_auth h = []" "passwd_auth_request_new u p = Some req"
  shows "accepted (sh_auth h) NoAuth
     \<and> (\<exists>w r. (\<forall>i e. \<exists>m. handle_socks5_client connect h peer (quiet (w @ i) e [] []) = (Err (Io_Error OtherKind m), quiet i e r []))
         \<and> (\<forall>i e. \<exists>m. establish_tcp target (UsernamePassword u p) (quiet (r @ i) e [] []) = (Err (IoError (Io_Error OtherKind m)), quiet i e w [])))"
proof -
  have "\<exists>m. handle_socks5_client connect h peer (quiet (client_hello (UsernamePassword u p) @ i) e [] [])
      = (Err (Io_Error OtherKind m), quiet i e [5, 2, 1, 255] [])" for i e
    using assms(1) read_credentials [OF assms(2)]
    by (auto simp: handle_socks5_client_def check_auth_password_def check_user_def io_other_def conn_simps)
  moreover have "\<exists>m. establish_tcp target (UsernamePassword u p) (quiet ([5, 2, 1, 255] @ i) e [] [])
      = (Err (IoError (Io_Error OtherKind m)), quiet i e (client_hello (UsernamePassword u p)) [])" for i e
    using assms(2) read_credentials [OF assms(2)]
    by (auto simp: establish_tcp_def socks5_handshake_def handshake_request_write_def conn_simps)
  ultimately show ?thesis using assms(1) by (fastforce simp: auth_required_def total_users_def)
qed

text \<open>
  C38: A proxy that goes away counts as one that agreed. When the stream ends or fails after the version byte
  of the answer to a name and password, before the status, the client takes the authentication as passed.
\<close>

theorem socks5_lost_status_accepted:
  assumes "passwd_auth_request_new u p = Some req"
  shows "socks5_handshake (UsernamePassword u p) (quiet [5, 2, 1] e [] []) = (Ok (), quiet [] e (client_hello (UsernamePassword u p)) [])"
  using assms read_credentials [OF assms]
  by (simp add: socks5_handshake_def handshake_request_write_def passwd_auth_response_read_from_def conn_simps)

section \<open>Instances\<close>

definition demo_handler :: "socks5_users \<Rightarrow> socks5_handler" where
  "demo_handler users =
     \<lparr>sh_udp_associate_addr = ServerSocketAddr (V4 1 1080), sh_balancer_empty = True, sh_mode = TcpAndUdp, sh_auth = users\<rparr>"

abbreviation "demo_connect \<equiv> \<lambda>(b :: bool) (a :: address). Ok (Ok (V4 2 3)) :: ((socket_addr, io_error) res, io_error) res"
abbreviation "demo_user \<equiv> socks5_add_user [97] [98] []"
abbreviation "demo_host \<equiv> DomainNameAddress [104] 80"

lemma demo_accepted: "accepted demo_user (UsernamePassword [97] [98])"
  by (simp add: socks5_add_user_def check_user_def passwd_auth_request_new_def)

theorem socks5_client_served_witness:
  "\<exists>w r. handle_socks5_client demo_connect (demo_handler demo_user) (V4 9 9) (quiet (w @ [7]) At_Eof [] [])
        = (Ok (Tunnelled True demo_host), quiet [7] At_Eof r [(True, demo_host)])
     \<and> establish_tcp demo_host (UsernamePassword [97] [98]) (quiet (r @ [8]) At_Eof [] [])
        = (Ok \<lparr>resp_reply = Succeeded, resp_address = SocketAddress (V4 2 3)\<rparr>, quiet [8] At_Eof w [])"
proof -
  have "wf_address (SocketAddress (V4 2 3))" "wf_address demo_host" "demo_connect (sh_balancer_empty (demo_handler demo_user)) demo_host = Ok (Ok (V4 2 3))"
    "accepted (sh_auth (demo_handler demo_user)) (UsernamePassword [97] [98])" "enable_tcp (sh_mode (demo_handler demo_user))"
    "enable_udp (sh_mode (demo_handler demo_user))" "wf_address (address_of_server_addr (sh_udp_associate_addr (demo_handler demo_user)))"
    by (simp_all add: demo_handler_def demo_accepted del: accepted.simps)
  from conjunct1 [OF socks5_client_served [OF this(4,2,5,3,1,6,7), of "V4 9 9"]]
  have "\<exists>w r. (\<forall>i e. handle_socks5_client demo_connect (demo_handler demo_user) (V4 9 9) (quiet (w @ i) e [] [])
        = (Ok (Tunnelled True demo_host), quiet i e r [(True, demo_host)]))
     \<and> (\<forall>i e. establish_tcp demo_host (UsernamePassword [97] [98]) (quiet (r @ i) e [] [])
        = (Ok \<lparr>resp_reply = Succeeded, resp_address = SocketAddress (V4 2 3)\<rparr>, quiet i e w []))"
    by (simp add: demo_handler_def)
  then show ?thesis by blast
qed

abbreviation "demo_bytes \<equiv> [5, 2, 2, 0, 1, 1, 97, 1, 98, 5, 1, 0, 3, 1, 104, 0, 80] :: byte list"

lemma demo_dialled:
  "handle_socks5_client demo_connect (demo_handler demo_user) (V4 9 9) (quiet demo_bytes At_Eof [] [])
     = (Ok (Tunnelled True demo_host), quiet [] At_Eof [5, 2, 1, 0, 5, 0, 0, 1, 0, 0, 0, 2, 0, 3] [(True, demo_host)])"
proof -
  have w: "tcp_request_write \<lparr>req_command = TcpConnect, req_address = demo_host\<rparr> = Some [5, 1, 0, 3, 1, 104, 0, 80]"
    by code_simp
  have r: "tcp_response_write \<lparr>resp_reply = Succeeded, resp_address = SocketAddress (V4 2 3)\<rparr> = Some [5, 0, 0, 1, 0, 0, 0, 2, 0, 3]"
    by code_simp
  have c: "demo_bytes = client_hello (UsernamePassword [97] [98]) @ [5, 1, 0, 3, 1, 104, 0, 80]"
    by (simp add: credentials_def)
  have "accepted (sh_auth (demo_handler demo_user)) (UsernamePassword [97] [98])"
    by (simp add: demo_handler_def demo_accepted del: accepted.simps)
  from server_accepts [OF this] show ?thesis
    unfolding c using server_command [OF _ w, of "[]"]
    by (simp add: serve_request_def handle_tcp_connect_def r conn_simps del: client_hello.simps)
       (simp add: demo_handler_def)
qed

theorem socks5_auth_enforced_witness:
  "\<exists>offer q s1 s2. handshake_request_read_from (demo_bytes, At_Eof) = Ok (offer, s1)
     \<and> passwd_auth_request_read_from s1 = Ok (q, s2) \<and> map_of demo_user (uname q) = Some (passwd q)"
proof -
  have "auth_required (sh_auth (demo_handler demo_user))"
    by (simp add: auth_required_def total_users_def demo_handler_def socks5_add_user_def)
  from socks5_auth_enforced [OF this demo_dialled] show ?thesis by (fastforce simp: quiet_def demo_handler_def)
qed

theorem socks5_credentials_refused_without_users_witness:
  "\<exists>w r m. handle_socks5_client demo_connect (demo_handler []) (V4 9 9) (quiet (w @ [7]) At_Eof [] [])
     = (Err (Io_Error OtherKind m), quiet [7] At_Eof r [])"
proof -
  have "sh_auth (demo_handler []) = []" "passwd_auth_request_new [97] [98] = Some \<lparr>uname = [97], passwd = [98]\<rparr>"
    by (simp_all add: demo_handler_def passwd_auth_request_new_def)
  from socks5_credentials_refused_without_users [OF this] show ?thesis by blast
qed

theorem socks5_lost_status_accepted_witness:
  "socks5_handshake (UsernamePassword [97] [98]) (quiet [5, 2, 1] At_Eof [] [])
     = (Ok (), quiet [] At_Eof [5, 2, 2, 0, 1, 1, 97, 1, 98] [])"
  using socks5_lost_status_accepted [of "[97]" "[98]"] by (simp add: passwd_auth_request_new_def credentials_def)

end
