(* ===== verification/Udp_Packet.thy ===== *)
theory Udp_Packet
  imports Tcp_Aead Server_Users Proxy_Stream
begin

text \<open>
  The UDP packets of \<open>shadowsocks/src/relay/udprelay\<close>: \<open>stream.rs\<close>, \<open>aead.rs\<close>, \<open>aead_2022.rs\<close> and the
  dispatch of \<open>crypto_io.rs\<close>. A packet is built in an empty buffer, as every caller passes one, and a received
  one is decrypted in place: the model returns the payload that is then at the front of the buffer. Random
  salts and nonces, the drawn padding and the memory behind it are arguments, and so is the clock in seconds.
\<close>

section \<open>Errors and control data\<close>

datatype udp_stream_error = StreamPacketTooShort nat nat | StreamInvalidAddress socks5_error

datatype udp_aead_error = PacketTooShortForSalt nat nat | PacketTooShortForTag nat nat
  | AeadInvalidAddress socks5_error | DecryptPayloadError

datatype udp2022_error = PacketTooShort nat nat
  | Udp2022InvalidAddress socks5_error
  | Decrypt2022PayloadError
  | InvalidUdpUser "byte list"
  | InvalidSocketType byte byte
  | InvalidUdpTimestamp u64 u64
  | Udp2022Io io_error

datatype udp_error = UdpInvalidAddress socks5_error | UdpStreamError udp_stream_error
  | UdpAeadError udp_aead_error | Udp2022Error udp2022_error

record udp_control =
  client_session_id :: u64
  server_session_id :: u64
  packet_id :: u64
  ctl_user :: "server_user option"

definition default_control :: udp_control where
  "default_control = \<lparr>client_session_id = 0, server_session_id = 0, packet_id = 0, ctl_user = None\<rparr>"

section \<open>Stream and AEAD packets\<close>

definition parse_packet :: "(socks5_error \<Rightarrow> 'e) \<Rightarrow> byte list \<Rightarrow> (nat \<times> address, 'e) res" where
  "parse_packet wrap buf =
     (case read_cursor \<lparr>cdata = buf, cpos = 0\<rparr> of
        Ok (addr, cur) \<Rightarrow> Ok (cpos cur, addr)
      | Err e \<Rightarrow> Err (wrap e)
      | Panic \<Rightarrow> Panic)"

definition encrypt_payload_stream ::
  "'c cipher_ops \<Rightarrow> cipher_kind \<Rightarrow> byte list \<Rightarrow> byte list \<Rightarrow> address \<Rightarrow> byte list \<Rightarrow> byte list option" where
  "encrypt_payload_stream C kind key iv addr payload =
     map_option (\<lambda>a. iv @ fst (encrypt_packet C (cipher_new C kind key iv) (a @ payload))) (write_address addr)"

definition decrypt_payload_stream ::
  "'c cipher_ops \<Rightarrow> cipher_kind \<Rightarrow> byte list \<Rightarrow> byte list \<Rightarrow> (byte list \<times> address, udp_stream_error) res" where
  "decrypt_payload_stream C kind key payload =
     (if length payload < iv_len kind then Err (StreamPacketTooShort (iv_len kind) (length payload))
      else
        let iv = take (iv_len kind) payload; cipher = cipher_new C kind key iv in
        (case fst (decrypt_packet C cipher (drop (iv_len kind) payload)) of
           None \<Rightarrow> Panic
         | Some p \<Rightarrow> bind_res (parse_packet StreamInvalidAddress p) (\<lambda>(dn, addr). Ok (drop dn p, addr))))"

definition encrypt_payload_aead ::
  "'c cipher_ops \<Rightarrow> cipher_kind \<Rightarrow> byte list \<Rightarrow> byte list \<Rightarrow> address \<Rightarrow> byte list \<Rightarrow> byte list option" where
  "encrypt_payload_aead C kind key salt addr payload =
     map_option (\<lambda>a. salt @ fst (encrypt_packet C (cipher_new C kind key salt) (a @ payload))) (write_address addr)"

definition decrypt_payload_aead ::
  "'c cipher_ops \<Rightarrow> cipher_kind \<Rightarrow> byte list \<Rightarrow> byte list \<Rightarrow> (byte list \<times> address, udp_aead_error) res" where
  "decrypt_payload_aead C kind key payload =
     (if length payload < salt_len kind then Err (PacketTooShortForSalt (salt_len kind) (length payload))
      else
        let salt = take (salt_len kind) payload; data = drop (salt_len kind) payload;
            cipher = cipher_new C kind key salt in
        if length data < tag_len kind then Err (PacketTooShortForTag (tag_len kind) (length data))
        else (case fst (decrypt_packet C cipher data) of
                None \<Rightarrow> Err DecryptPayloadError
              | Some p \<Rightarrow> bind_res (parse_packet AeadInvalidAddress p) (\<lambda>(dn, addr). Ok (drop dn p, addr))))"

section \<open>AEAD-2022 messages\<close>

text \<open>
  \<open>UdpCipher\<close> of the cipher package, made from key and session: encryption appends a tag, decryption is
  \<open>None\<close> when the tag is wrong. \<open>udp_nonce_size\<close> is the nonce length of its ChaCha ciphers. The cache of ciphers
  by method, key and session only saves making one again, so the model makes one each time.
\<close>

record 'u udp_cipher_ops =
  udp_cipher_new :: "cipher_kind \<Rightarrow> byte list \<Rightarrow> u64 \<Rightarrow> 'u"
  udp_encrypt_packet :: "'u \<Rightarrow> byte list \<Rightarrow> byte list \<Rightarrow> byte list"
  udp_decrypt_packet :: "'u \<Rightarrow> byte list \<Rightarrow> byte list \<Rightarrow> byte list option"
  udp_nonce_size :: "cipher_kind \<Rightarrow> nat"

text \<open>What the packets rely on: decryption undoes encryption under the same nonce, the tag has the length of
  the method, the ChaCha methods use the key without the session, and the package agrees with itself on
  their nonce length.\<close>

definition udp_cipher_laws :: "'u udp_cipher_ops \<Rightarrow> cipher_kind \<Rightarrow> bool" where
  "udp_cipher_laws U kind \<longleftrightarrow>
     (\<forall>c nonce m. udp_decrypt_packet U c nonce (udp_encrypt_packet U c nonce m) = Some m
        \<and> length (udp_encrypt_packet U c nonce m) = length m + tag_len kind)
     \<and> (\<not> support_eih kind \<longrightarrow> udp_nonce_size U kind = nonce_len kind
          \<and> (\<forall>key s s'. udp_cipher_new U kind key s = udp_cipher_new U kind key s'))"

text \<open>The AES methods are those that support identity headers. AES accepts only keys of its own length,
  otherwise the \<open>expect\<close> panics.\<close>

definition encrypt_message ::
  "'u udp_cipher_ops \<Rightarrow> hash_ops \<Rightarrow> cipher_kind \<Rightarrow> byte list \<Rightarrow> byte list \<Rightarrow> byte list \<Rightarrow> u64 \<Rightarrow> nat \<Rightarrow> byte list option" where
  "encrypt_message U H kind ipsk key packet session_id eih_len =
     (let cipher = udp_cipher_new U kind key session_id in
      if category kind \<noteq> CatAead2022 then None
      else if \<not> support_eih kind then
        let n = udp_nonce_size U kind; nonce = take n packet; message = drop n packet in
        if length packet < n then None else Some (nonce @ udp_encrypt_packet U cipher nonce message)
      else
        let packet_header = take 16 packet; message = drop 16 packet; nonce = slice 4 16 packet_header in
        if length packet < 16 + eih_len \<or> length ipsk \<noteq> key_len kind then None
        else Some (aes_encrypt_block H ipsk packet_header @ take eih_len message
                   @ udp_encrypt_packet U cipher nonce (drop eih_len message)))"

definition decrypt_message ::
  "'u udp_cipher_ops \<Rightarrow> hash_ops \<Rightarrow> cipher_kind \<Rightarrow> byte list \<Rightarrow> byte list \<Rightarrow> user_manager option
     \<Rightarrow> (server_user option \<times> byte list, udp2022_error) res" where
  "decrypt_message U H kind key packet um =
     (if category kind \<noteq> CatAead2022 then Panic
      else if \<not> support_eih kind then
        let n = udp_nonce_size U kind; nonce = take n packet; message = drop n packet;
            session_id = of_be (slice 0 8 message); cipher = udp_cipher_new U kind key session_id in
        if length packet < n + 8 then Panic
        else (case udp_decrypt_packet U cipher nonce message of
                None \<Rightarrow> Err Decrypt2022PayloadError
              | Some p \<Rightarrow> Ok (None, nonce @ p))
      else
        let packet_header = aes_decrypt_block H key (take 16 packet); message = drop 16 packet;
            session_id = of_be (slice 0 8 packet_header); nonce = slice 4 16 packet_header in
        if length packet < 16 \<or> length key \<noteq> key_len kind then Panic
        else (case um of
                None \<Rightarrow>
                  (case udp_decrypt_packet U (udp_cipher_new U kind key session_id) nonce message of
                     None \<Rightarrow> Err Decrypt2022PayloadError
                   | Some p \<Rightarrow> Ok (None, packet_header @ p))
              | Some m \<Rightarrow>
                  if length message < 16 then Panic
                  else
                    let eih = xor_bytes (aes_decrypt_block H key (take 16 message)) packet_header in
                    (case get_user_by_hash m eih of
                       None \<Rightarrow> Err (InvalidUdpUser eih)
                     | Some user \<Rightarrow>
                         (case udp_decrypt_packet U (udp_cipher_new U kind (user_key user) session_id) nonce (drop 16 message) of
                            None \<Rightarrow> Err Decrypt2022PayloadError
                          | Some p \<Rightarrow> Ok (Some user, packet_header @ eih @ p)))))"

text \<open>\<open>None\<close> is the \<open>unreachable!\<close>.\<close>

definition get_nonce_len :: "cipher_kind \<Rightarrow> nat option" where
  "get_nonce_len kind =
     (if category kind \<noteq> CatAead2022 then None else if support_eih kind then Some 0 else Some (nonce_len kind))"

abbreviation "CLIENT_SOCKET_TYPE \<equiv> 0 :: byte"
abbreviation "SERVER_SOCKET_TYPE \<equiv> 1 :: byte"
abbreviation "SERVER_PACKET_TIMESTAMP_MAX_DIFF \<equiv> 30 :: u64"

section \<open>AEAD-2022 packets from client to server\<close>

definition udp_make_eih :: "hash_ops \<Rightarrow> cipher_kind \<Rightarrow> byte list \<Rightarrow> byte list \<Rightarrow> byte list \<Rightarrow> byte list option" where
  "udp_make_eih H kind ipsk ipskn session_id_packet_id =
     (if length ipsk \<noteq> key_len kind then None
      else Some (aes_encrypt_block H ipsk (xor_bytes (slice 0 16 (blake3_hash H ipskn)) session_id_packet_id)))"

fun udp_eihs :: "hash_ops \<Rightarrow> cipher_kind \<Rightarrow> byte list \<Rightarrow> (byte list \<times> byte list) list \<Rightarrow> byte list option" where
  "udp_eihs H kind session_id_packet_id [] = Some []"
| "udp_eihs H kind session_id_packet_id ((ipsk, ipskn) # keys) =
     (case udp_make_eih H kind ipsk ipskn session_id_packet_id of
        None \<Rightarrow> None
      | Some identity_header \<Rightarrow> map_option (\<lambda>hs. identity_header @ hs) (udp_eihs H kind session_id_packet_id keys))"

definition encrypt_client_payload_aead_2022 ::
  "'u udp_cipher_ops \<Rightarrow> hash_ops \<Rightarrow> u64 \<Rightarrow> byte list \<Rightarrow> nat \<Rightarrow> byte list \<Rightarrow> cipher_kind \<Rightarrow> byte list \<Rightarrow> address \<Rightarrow> udp_control
     \<Rightarrow> byte list list \<Rightarrow> byte list \<Rightarrow> byte list option" where
  "encrypt_client_payload_aead_2022 U H now rnd drawn mem kind key addr control identity_keys payload =
     (let padding_size = get_aead_2022_padding_size drawn payload;
          with_eih = (support_eih kind \<and> identity_keys \<noteq> []);
          eih_size = (if with_eih then length identity_keys * 16 else 0);
          session_id_packet_id = be_of 8 (client_session_id control) @ be_of 8 (packet_id control);
          ipsk = (if identity_keys = [] then key else hd identity_keys)
      in case get_nonce_len kind of
           None \<Rightarrow> None
         | Some nonce_size \<Rightarrow>
             (case (if with_eih then udp_eihs H kind session_id_packet_id (zip identity_keys (tl identity_keys @ [key])) else Some [],
                    write_address addr) of
                (Some eihs, Some a) \<Rightarrow>
                  encrypt_message U H kind ipsk key
                    (take nonce_size rnd @ session_id_packet_id @ eihs @ [CLIENT_SOCKET_TYPE] @ be_of 8 now
                     @ be_of 2 (word_of_nat padding_size :: u16) @ take padding_size mem @ a @ payload)
                    (client_session_id control) eih_size
              | _ \<Rightarrow> None))"

text \<open>\<open>cursor.seek\<close> may go past the end of the packet, where an address is refused.\<close>

definition read_client_body ::
  "u64 \<Rightarrow> bool \<Rightarrow> server_user option \<Rightarrow> byte list \<Rightarrow> (byte list \<times> address \<times> udp_control, udp2022_error) res" where
  "read_client_body now with_eih user data =
     bind_res (get_bytes 8 \<lparr>cdata = data, cpos = 0\<rparr>) (\<lambda>(sid, cur).
     bind_res (get_bytes 8 cur) (\<lambda>(pid, cur).
     bind_res (get_bytes (if with_eih then 16 else 0) cur) (\<lambda>(_, cur).
     bind_res (get_u8 cur) (\<lambda>(socket_type, cur).
       if socket_type \<noteq> CLIENT_SOCKET_TYPE then Err (InvalidSocketType CLIENT_SOCKET_TYPE socket_type)
       else bind_res (get_bytes 8 cur) (\<lambda>(ts, cur).
         let timestamp = of_be ts in
         if SERVER_PACKET_TIMESTAMP_MAX_DIFF < abs_diff now timestamp then Err (InvalidUdpTimestamp timestamp now)
         else bind_res (get_bytes 2 cur) (\<lambda>(pad, cur).
           let padding_size = unat (of_be pad :: u16) in
           case read_cursor (cur\<lparr>cpos := cpos cur + padding_size\<rparr>) of
             Err e \<Rightarrow> Err (Udp2022InvalidAddress e)
           | Panic \<Rightarrow> Panic
           | Ok (addr, cur) \<Rightarrow>
               Ok (drop (cpos cur) data, addr,
                   \<lparr>client_session_id = of_be sid, server_session_id = 0, packet_id = of_be pid, ctl_user = user\<rparr>)))))))"

definition decrypt_client_payload_aead_2022 ::
  "'u udp_cipher_ops \<Rightarrow> hash_ops \<Rightarrow> u64 \<Rightarrow> cipher_kind \<Rightarrow> byte list \<Rightarrow> byte list \<Rightarrow> user_manager option
     \<Rightarrow> (byte list \<times> address \<times> udp_control, udp2022_error) res" where
  "decrypt_client_payload_aead_2022 U H now kind key payload um =
     (case get_nonce_len kind of
        None \<Rightarrow> Panic
      | Some n \<Rightarrow>
          let with_eih = (support_eih kind \<and> um \<noteq> None);
              min_len = n + tag_len kind + 8 + 8 + (if with_eih then 16 else 0) + 1 + 8 + 2 in
          if length payload < min_len then Err (PacketTooShort min_len (length payload))
          else bind_res (decrypt_message U H kind key payload um) (\<lambda>(user, packet).
            read_client_body now with_eih user (drop n packet)))"

section \<open>AEAD-2022 packets from server to client\<close>

definition encrypt_server_payload_aead_2022 ::
  "'u udp_cipher_ops \<Rightarrow> hash_ops \<Rightarrow> u64 \<Rightarrow> byte list \<Rightarrow> nat \<Rightarrow> byte list \<Rightarrow> cipher_kind \<Rightarrow> byte list \<Rightarrow> address \<Rightarrow> udp_control
     \<Rightarrow> byte list \<Rightarrow> byte list option" where
  "encrypt_server_payload_aead_2022 U H now rnd drawn mem kind key addr control payload =
     (let padding_size = get_aead_2022_padding_size drawn payload
      in case (get_nonce_len kind, write_address addr) of
           (Some nonce_size, Some a) \<Rightarrow>
             encrypt_message U H kind key key
               (take nonce_size rnd @ be_of 8 (server_session_id control) @ be_of 8 (packet_id control)
                @ [SERVER_SOCKET_TYPE] @ be_of 8 now @ be_of 8 (client_session_id control)
                @ be_of 2 (word_of_nat padding_size :: u16) @ take padding_size mem @ a @ payload)
               (server_session_id control) 0
         | _ \<Rightarrow> None)"

definition read_server_body :: "u64 \<Rightarrow> byte list \<Rightarrow> (byte list \<times> address \<times> udp_control, udp2022_error) res" where
  "read_server_body now data =
     bind_res (get_bytes 8 \<lparr>cdata = data, cpos = 0\<rparr>) (\<lambda>(sid, cur).
     bind_res (get_bytes 8 cur) (\<lambda>(pid, cur).
     bind_res (get_u8 cur) (\<lambda>(socket_type, cur).
       if socket_type \<noteq> SERVER_SOCKET_TYPE then Err (InvalidSocketType SERVER_SOCKET_TYPE socket_type)
       else bind_res (get_bytes 8 cur) (\<lambda>(ts, cur).
         let timestamp = of_be ts in
         if SERVER_PACKET_TIMESTAMP_MAX_DIFF < abs_diff now timestamp then Err (InvalidUdpTimestamp timestamp now)
         else bind_res (get_bytes 8 cur) (\<lambda>(csid, cur).
              bind_res (get_bytes 2 cur) (\<lambda>(pad, cur).
                let padding_size = unat (of_be pad :: u16) in
                case read_cursor (cur\<lparr>cpos := cpos cur + padding_size\<rparr>) of
                  Err e \<Rightarrow> Err (Udp2022InvalidAddress e)
                | Panic \<Rightarrow> Panic
                | Ok (addr, cur) \<Rightarrow>
                    Ok (drop (cpos cur) data, addr,
                        \<lparr>client_session_id = of_be csid, server_session_id = of_be sid, packet_id = of_be pid, ctl_user = None\<rparr>)))))))"

definition decrypt_server_payload_aead_2022 ::
  "'u udp_cipher_ops \<Rightarrow> hash_ops \<Rightarrow> u64 \<Rightarrow> cipher_kind \<Rightarrow> byte list \<Rightarrow> byte list
     \<Rightarrow> (byte list \<times> address \<times> udp_control, udp2022_error) res" where
  "decrypt_server_payload_aead_2022 U H now kind key payload =
     (case get_nonce_len kind of
        None \<Rightarrow> Panic
      | Some n \<Rightarrow>
          let min_len = n + tag_len kind + 8 + 8 + 1 + 8 + 2 in
          if length payload < min_len then Err (PacketTooShort min_len (length payload))
          else bind_res (decrypt_message U H kind key payload None) (\<lambda>(user, packet).
            read_server_body now (drop n packet)))"

section \<open>Reading a packet back\<close>

lemma cur_start: "\<lparr>cdata = bs, cpos = 0\<rparr> = cur_at [] bs 0"
  by (simp add: cur_at_def)

lemma cur_step: "length xs = n \<Longrightarrow> get_bytes n (cur_at pre (xs @ ys) 0) = Ok (xs, cur_at (pre @ xs) ys 0)"
  by (simp add: get_bytes_def remaining_def cur_at_def slice_def)

lemma cur_step_0: "get_bytes 0 (cur_at pre ys 0) = Ok ([], cur_at pre ys 0)"
  by (simp add: get_bytes_def cur_at_def slice_def)

lemma cur_step_u8: "get_u8 (cur_at pre (b # ys) 0) = Ok (b, cur_at (pre @ [b]) ys 0)"
  by (simp add: get_u8_def cur_step [of "[b]" "Suc 0" pre ys, simplified])

lemma cur_skip: "length xs = n \<Longrightarrow> (cur_at pre (xs @ ys) 0)\<lparr>cpos := cpos (cur_at pre (xs @ ys) 0) + n\<rparr> = cur_at (pre @ xs) ys 0"
  by (simp add: cur_at_def)

lemma read_cursor_address:
  assumes "wf_address addr" "write_address addr = Some a"
  shows "read_cursor (cur_at pre (a @ rest) 0) = Ok (addr, cur_at pre (a @ rest) (length a))"
proof -
  have "read_from (a @ rest, At_Eof) = Ok (addr, (drop (length a) (a @ rest), At_Eof))"
    using address.dec_enc [OF assms, of rest At_Eof] by simp
  then show ?thesis using read_cursor_Ok_iff [of pre "a @ rest" addr "length a" At_Eof] by simp
qed

lemma parse_packet_address:
  assumes "wf_address addr" "write_address addr = Some a"
  shows "parse_packet wrap (a @ payload) = Ok (length a, addr)"
  using read_cursor_address [OF assms, of "[]" payload] by (simp add: parse_packet_def cur_start) (simp add: cur_at_def)

lemma payload_stream_roundtrip:
  assumes "cipher_laws C kind" "length iv = iv_len kind" "wf_address addr"
    and "encrypt_payload_stream C kind key iv addr payload = Some bs"
  shows "decrypt_payload_stream C kind key bs = Ok (payload, addr)"
proof -
  obtain a where a: "write_address addr = Some a" and bs: "bs = iv @ fst (encrypt_packet C (cipher_new C kind key iv) (a @ payload))"
    using assms(4) by (auto simp: encrypt_payload_stream_def)
  show ?thesis
    using assms(1,2) by (simp add: decrypt_payload_stream_def bs cipher_laws_def parse_packet_address [OF assms(3) a])
qed

lemma payload_aead_roundtrip:
  assumes "cipher_laws C kind" "length salt = salt_len kind" "wf_address addr"
    and "encrypt_payload_aead C kind key salt addr payload = Some bs"
  shows "decrypt_payload_aead C kind key bs = Ok (payload, addr)"
proof -
  obtain a where a: "write_address addr = Some a" and bs: "bs = salt @ fst (encrypt_packet C (cipher_new C kind key salt) (a @ payload))"
    using assms(4) by (auto simp: encrypt_payload_aead_def)
  show ?thesis
    using assms(1,2) by (simp add: decrypt_payload_aead_def bs cipher_laws_def parse_packet_address [OF assms(3) a])
qed

lemmas body_simps = cur_start cur_step cur_step_0 cur_step_u8 cur_skip read_cursor_address

lemma read_client_body_ok:
  assumes "wf_address addr" "write_address addr = Some a" "abs_diff now ts \<le> 30" "unat n = length pad"
    and "length eih = (if req then 16 else 0)"
  shows "read_client_body now req user (be_of 8 sid @ be_of 8 pid @ eih @ [CLIENT_SOCKET_TYPE] @ be_of 8 ts
      @ be_of 2 (n :: u16) @ pad @ a @ payload)
    = Ok (payload, addr, \<lparr>client_session_id = sid, server_session_id = 0, packet_id = pid, ctl_user = user\<rparr>)"
  using assms(3-5) cur_skip [of pad "unat n"]
  by (simp add: read_client_body_def body_simps read_cursor_address [OF assms(1,2)] be_simps not_less split: if_splits)
     (simp_all add: cur_at_def drop_Cons')

lemma read_server_body_ok:
  assumes "wf_address addr" "write_address addr = Some a" "abs_diff now ts \<le> 30" "unat n = length pad"
  shows "read_server_body now (be_of 8 sid @ be_of 8 pid @ [SERVER_SOCKET_TYPE] @ be_of 8 ts @ be_of 8 csid
      @ be_of 2 (n :: u16) @ pad @ a @ payload)
    = Ok (payload, addr, \<lparr>client_session_id = csid, server_session_id = sid, packet_id = pid, ctl_user = None\<rparr>)"
  using assms(3,4) cur_skip [of pad "unat n"]
  by (simp add: read_server_body_def body_simps read_cursor_address [OF assms(1,2)] be_simps not_less)
     (simp add: cur_at_def drop_Cons')

section \<open>Opening a message\<close>

lemma message_plain:
  assumes laws: "udp_cipher_laws U kind" "hash_laws H" and nonce: "get_nonce_len kind = Some (length nonce)"
    and um: "um = None \<or> \<not> support_eih kind" and keys: "support_eih kind \<longrightarrow> ipsk = key"
    and enc: "encrypt_message U H kind ipsk key (nonce @ be_of 8 sid @ be_of 8 pid @ rest) sid 0 = Some bs"
  shows "decrypt_message U H kind key bs um = Ok (None, nonce @ be_of 8 sid @ be_of 8 pid @ rest)
    \<and> length bs = length nonce + 16 + length rest + tag_len kind"
proof (cases "support_eih kind")
  case True
  let ?h = "be_of 8 sid @ be_of 8 pid"
  have "nonce = []" using nonce True by (auto simp: get_nonce_len_def split: if_splits)
  moreover have "length ?h = 16" by (simp add: be_simps)
  ultimately show ?thesis
    using laws enc um True keys
    by (auto simp: encrypt_message_def decrypt_message_def udp_cipher_laws_def hash_laws_def be_simps slice_def Let_def
        split: if_splits)
next
  case False
  then have n: "udp_nonce_size U kind = length nonce" and cat: "category kind = CatAead2022"
    using laws(1) nonce by (auto simp: udp_cipher_laws_def get_nonce_len_def split: if_splits)
  define ct where "ct = udp_encrypt_packet U (udp_cipher_new U kind key sid) nonce (be_of 8 sid @ be_of 8 pid @ rest)"
  have ct: "udp_decrypt_packet U (udp_cipher_new U kind key sid) nonce ct = Some (be_of 8 sid @ be_of 8 pid @ rest)"
    "length ct = 16 + length rest + tag_len kind"
    using laws(1) by (simp_all add: udp_cipher_laws_def ct_def be_simps)
  have same: "udp_cipher_new U kind key (of_be (slice 0 8 ct)) = udp_cipher_new U kind key sid"
    using laws(1) False unfolding udp_cipher_laws_def by blast
  have "bs = nonce @ ct"
    using enc False n cat by (simp add: encrypt_message_def Let_def ct_def)
  then show ?thesis using False n cat ct same by (simp add: decrypt_message_def Let_def)
qed

lemma hash_16: "hash_laws H \<Longrightarrow> length (slice 0 16 (blake3_hash H k)) = 16"
  unfolding hash_laws_def slice_def by (simp add: min_absorb2)

lemma udp_make_eih_length:
  assumes "hash_laws H" "udp_make_eih H kind ipsk key h = Some eih" "length h = 16"
  shows "length eih = 16"
  using assms(2,3) hash_16 [OF assms(1), of key] assms(1) by (auto simp: udp_make_eih_def hash_laws_def split: if_splits)

lemma message_user:
  assumes laws: "udp_cipher_laws U kind" "hash_laws H" and kind: "category kind = CatAead2022" "support_eih kind"
    and user: "get_user_by_hash m (slice 0 16 (blake3_hash H key)) = Some u" "user_key u = key"
    and eih: "udp_make_eih H kind ipsk key (be_of 8 sid @ be_of 8 pid) = Some eih"
    and enc: "encrypt_message U H kind ipsk key (be_of 8 sid @ be_of 8 pid @ eih @ rest) sid 16 = Some bs"
  shows "decrypt_message U H kind ipsk bs (Some m)
      = Ok (Some u, be_of 8 sid @ be_of 8 pid @ slice 0 16 (blake3_hash H key) @ rest)
    \<and> length bs = 32 + length rest + tag_len kind"
proof -
  define h where "h = be_of 8 sid @ be_of 8 pid"
  have h: "length h = 16" "of_be (slice 0 8 h) = sid" by (simp_all add: h_def be_simps slice_def)
  define x where "x = slice 0 16 (blake3_hash H key)"
  have x: "length x = 16" unfolding x_def by (rule hash_16 [OF laws(2)])
  have key_len: "length ipsk = key_len kind" and e: "eih = aes_encrypt_block H ipsk (xor_bytes x h)"
    using eih by (auto simp: udp_make_eih_def h_def x_def split: if_splits)
  have len_e: "length eih = 16" using laws(2) h x by (simp add: e hash_laws_def)
  define ct where "ct = udp_encrypt_packet U (udp_cipher_new U kind key sid) (slice 4 16 h) rest"
  have ct: "udp_decrypt_packet U (udp_cipher_new U kind key sid) (slice 4 16 h) ct = Some rest"
    "length ct = length rest + tag_len kind"
    using laws(1) by (simp_all add: udp_cipher_laws_def ct_def)
  define hc where "hc = aes_encrypt_block H ipsk h"
  have hc: "length hc = 16" "aes_decrypt_block H ipsk hc = h" using laws(2) h by (simp_all add: hc_def hash_laws_def)
  have "encrypt_message U H kind ipsk key (h @ eih @ rest) sid 16 = Some bs" using enc by (simp add: h_def)
  then have bs: "bs = hc @ eih @ ct"
    using kind key_len h len_e by (simp add: encrypt_message_def Let_def ct_def hc_def)
  have "xor_bytes (aes_decrypt_block H ipsk eih) h = x"
    using laws(2) h x by (simp add: e hash_laws_def xor_bytes_cancel)
  then show ?thesis
    using kind key_len hc len_e h ct user unfolding bs
    by (simp add: decrypt_message_def Let_def x_def [symmetric]) (simp add: h_def)
qed

section \<open>AEAD-2022 packets are read back\<close>

text \<open>The user that a server with these users takes a client with this key to be.\<close>

definition identified_user :: "hash_ops \<Rightarrow> cipher_kind \<Rightarrow> byte list \<Rightarrow> user_manager option \<Rightarrow> server_user option" where
  "identified_user H kind key um =
     (if support_eih kind then Option.bind um (\<lambda>m. get_user_by_hash m (slice 0 16 (blake3_hash H key))) else None)"

lemma padding_size_fits:
  assumes "drawn \<le> 900" "drawn \<le> length mem"
  shows "unat (word_of_nat (get_aead_2022_padding_size drawn payload) :: u16) = length (take (get_aead_2022_padding_size drawn payload) mem)"
  using assms by (simp add: get_aead_2022_padding_size_def unat_of_nat min_absorb2)

lemma client_packet_2022:
  assumes laws: "udp_cipher_laws U kind" "hash_laws H" and rnd: "get_nonce_len kind = Some (length rnd)"
    and addr: "wf_address addr" and keys: "keys_match H kind ids key skey um" "length skey = key_len kind"
    and clock: "abs_diff now ts \<le> 30" and pad: "drawn \<le> 900" "drawn \<le> length mem"
  shows "\<exists>bs. encrypt_client_payload_aead_2022 U H ts rnd drawn mem kind key addr ctl ids payload = Some bs
     \<and> decrypt_client_payload_aead_2022 U H now kind skey bs um
         = Ok (payload, addr, ctl\<lparr>server_session_id := 0, ctl_user := identified_user H kind key um\<rparr>)"
proof -
  obtain a where a: "write_address addr = Some a" using address.enc_total [OF addr] by blast
  note fits = padding_size_fits [OF pad, of payload]
  define n where "n = get_aead_2022_padding_size drawn payload"
  define tail where "tail = [CLIENT_SOCKET_TYPE] @ be_of 8 ts @ be_of 2 (word_of_nat n :: u16) @ take n mem @ a @ payload"
  have body: "read_client_body now req user (be_of 8 sid @ be_of 8 pid @ eih @ tail)
      = Ok (payload, addr, \<lparr>client_session_id = sid, server_session_id = 0, packet_id = pid, ctl_user = user\<rparr>)"
    if "length eih = (if req then 16 else 0)" for req user sid pid eih
    unfolding tail_def using read_client_body_ok [OF addr a clock fits that] by (simp add: n_def)
  have cat: "category kind = CatAead2022" using rnd by (simp add: get_nonce_len_def split: if_splits)
  let ?sid = "client_session_id ctl" and ?pid = "packet_id ctl"
  have tail_len: "11 \<le> length tail" by (simp add: tail_def be_simps)
  show ?thesis
  proof (cases "support_eih kind \<and> um \<noteq> None")
    case True
    then obtain m u where m: "um = Some m" "ids = [skey]" "get_user_by_hash m (slice 0 16 (blake3_hash H key)) = Some u" "user_key u = key"
      using keys(1) by (auto simp: keys_match_def)
    have r: "rnd = []" using rnd True cat by (simp add: get_nonce_len_def)
    obtain eih where eih: "udp_make_eih H kind skey key (be_of 8 ?sid @ be_of 8 ?pid) = Some eih"
      using keys(2) by (simp add: udp_make_eih_def)
    have len: "length eih = 16" by (rule udp_make_eih_length [OF laws(2) eih]) (simp add: be_simps)
    obtain bs where bs: "encrypt_message U H kind skey key (be_of 8 ?sid @ be_of 8 ?pid @ eih @ tail) ?sid 16 = Some bs"
      using True cat keys(2) len by (simp add: encrypt_message_def Let_def be_simps)
    have enc: "encrypt_client_payload_aead_2022 U H ts rnd drawn mem kind key addr ctl ids payload = Some bs"
      using bs eih True cat r a by (simp add: encrypt_client_payload_aead_2022_def m(2) get_nonce_len_def tail_def n_def)
    note opened = message_user [OF laws cat conjunct1 [OF True] m(3,4) eih bs]
    have "decrypt_client_payload_aead_2022 U H now kind skey bs um
        = Ok (payload, addr, \<lparr>client_session_id = ?sid, server_session_id = 0, packet_id = ?pid, ctl_user = Some u\<rparr>)"
      using opened True cat tail_len hash_16 [OF laws(2), of key] body [of "slice 0 16 (blake3_hash H key)" True "Some u"]
      by (simp add: decrypt_client_payload_aead_2022_def get_nonce_len_def m(1))
    then show ?thesis using enc True by (simp add: identified_user_def m)
  next
    case False
    then have k: "key = skey" "support_eih kind \<longrightarrow> ids = []" "um = None \<or> \<not> support_eih kind"
      using keys(1) by (auto simp: keys_match_def split: option.splits if_splits)
    define ipsk where "ipsk = (if ids = [] then key else hd ids)"
    have nn: "\<not> support_eih kind \<longrightarrow> udp_nonce_size U kind = length rnd"
      using laws(1) rnd by (auto simp: udp_cipher_laws_def get_nonce_len_def split: if_splits)
    obtain bs where bs: "encrypt_message U H kind ipsk key (rnd @ be_of 8 ?sid @ be_of 8 ?pid @ tail) ?sid 0 = Some bs"
      using k cat keys(2) nn by (cases "support_eih kind") (auto simp: encrypt_message_def ipsk_def be_simps Let_def)
    have enc: "encrypt_client_payload_aead_2022 U H ts rnd drawn mem kind key addr ctl ids payload = Some bs"
      using bs k(2) rnd a by (auto simp: encrypt_client_payload_aead_2022_def ipsk_def tail_def n_def)
    have ip: "support_eih kind \<longrightarrow> ipsk = key" using k(2) by (simp add: ipsk_def)
    have "decrypt_client_payload_aead_2022 U H now kind skey bs um
        = Ok (payload, addr, \<lparr>client_session_id = ?sid, server_session_id = 0, packet_id = ?pid, ctl_user = None\<rparr>)"
      using message_plain [OF laws rnd k(3) ip bs] rnd tail_len body [of "[]" False None] False
      by (auto simp: decrypt_client_payload_aead_2022_def Let_def k(1))
    then show ?thesis using enc k(3) by (auto simp: identified_user_def)
  qed
qed

lemma server_packet_2022:
  assumes laws: "udp_cipher_laws U kind" "hash_laws H" and rnd: "get_nonce_len kind = Some (length rnd)"
    and addr: "wf_address addr" and key: "length key = key_len kind"
    and clock: "abs_diff now ts \<le> 30" and pad: "drawn \<le> 900" "drawn \<le> length mem"
  shows "\<exists>bs. encrypt_server_payload_aead_2022 U H ts rnd drawn mem kind key addr ctl payload = Some bs
     \<and> decrypt_server_payload_aead_2022 U H now kind key bs = Ok (payload, addr, ctl\<lparr>ctl_user := None\<rparr>)"
proof -
  obtain a where a: "write_address addr = Some a" using address.enc_total [OF addr] by blast
  define n where "n = get_aead_2022_padding_size drawn payload"
  define tail where "tail = [SERVER_SOCKET_TYPE] @ be_of 8 ts @ be_of 8 (client_session_id ctl)
    @ be_of 2 (word_of_nat n :: u16) @ take n mem @ a @ payload"
  let ?sid = "server_session_id ctl" and ?pid = "packet_id ctl"
  have body: "read_server_body now (be_of 8 ?sid @ be_of 8 ?pid @ tail) = Ok (payload, addr, ctl\<lparr>ctl_user := None\<rparr>)"
    unfolding tail_def using read_server_body_ok [OF addr a clock padding_size_fits [OF pad, of payload]] by (simp add: n_def)
  have tail_len: "19 \<le> length tail" by (simp add: tail_def be_simps)
  have nn: "\<not> support_eih kind \<longrightarrow> udp_nonce_size U kind = length rnd"
    using laws(1) rnd by (auto simp: udp_cipher_laws_def get_nonce_len_def split: if_splits)
  have cat: "category kind = CatAead2022" using rnd by (simp add: get_nonce_len_def split: if_splits)
  obtain bs where bs: "encrypt_message U H kind key key (rnd @ be_of 8 ?sid @ be_of 8 ?pid @ tail) ?sid 0 = Some bs"
    using cat key nn by (cases "support_eih kind") (auto simp: encrypt_message_def be_simps Let_def)
  have "encrypt_server_payload_aead_2022 U H ts rnd drawn mem kind key addr ctl payload = Some bs"
    using bs rnd a by (simp add: encrypt_server_payload_aead_2022_def tail_def n_def)
  moreover have "decrypt_server_payload_aead_2022 U H now kind key bs = Ok (payload, addr, ctl\<lparr>ctl_user := None\<rparr>)"
    using message_plain [OF laws rnd disjI1 [OF refl] _ bs] rnd tail_len body
    by (simp add: decrypt_server_payload_aead_2022_def)
  ultimately show ?thesis by blast
qed

end
