(* ===== verification/Udp_Socket.thy ===== *)
theory Udp_Socket
  imports Udp_Packet
begin

text \<open>
  The dispatch over cipher categories of \<open>shadowsocks/src/relay/udprelay/crypto_io.rs\<close> and the proxied UDP
  socket of \<open>proxy_socket.rs\<close> on top of it. What the underlying socket does is an argument: how a send
  completes, and which datagram arrives. \<open>NeverReady\<close> is an operation that is not ready within the timeout.
\<close>

section \<open>Payloads by cipher category\<close>

definition encrypt_plain :: "address \<Rightarrow> byte list \<Rightarrow> byte list option" where
  "encrypt_plain addr payload = map_option (\<lambda>a. a @ payload) (write_address addr)"

definition decrypt_plain :: "byte list \<Rightarrow> (byte list \<times> address \<times> udp_control option, udp_error) res" where
  "decrypt_plain payload =
     (case read_cursor \<lparr>cdata = payload, cpos = 0\<rparr> of
        Ok (addr, cur) \<Rightarrow> Ok (drop (cpos cur) payload, addr, None)
      | Err e \<Rightarrow> Err (UdpInvalidAddress e)
      | Panic \<Rightarrow> Panic)"

definition without_control :: "(byte list \<times> address, 'e) res \<Rightarrow> (byte list \<times> address \<times> udp_control option, 'e) res" where
  "without_control r = bind_res r (\<lambda>(n, a). Ok (n, a, None))"

definition with_control :: "(byte list \<times> address \<times> udp_control, 'e) res \<Rightarrow> (byte list \<times> address \<times> udp_control option, 'e) res" where
  "with_control r = bind_res r (\<lambda>(n, a, c). Ok (n, a, Some c))"

definition encrypt_client_payload ::
  "'c cipher_ops \<Rightarrow> 'u udp_cipher_ops \<Rightarrow> hash_ops \<Rightarrow> u64 \<Rightarrow> byte list \<Rightarrow> nat \<Rightarrow> byte list \<Rightarrow> cipher_kind \<Rightarrow> byte list \<Rightarrow> address
     \<Rightarrow> udp_control \<Rightarrow> byte list list \<Rightarrow> byte list \<Rightarrow> byte list option" where
  "encrypt_client_payload C U H now rnd drawn mem kind key addr control identity_keys payload =
     (case category kind of
        CatNone \<Rightarrow> encrypt_plain addr payload
      | CatStream \<Rightarrow> encrypt_payload_stream C kind key (take (iv_len kind) rnd) addr payload
      | CatAead \<Rightarrow> encrypt_payload_aead C kind key (take (salt_len kind) rnd) addr payload
      | CatAead2022 \<Rightarrow> encrypt_client_payload_aead_2022 U H now rnd drawn mem kind key addr control identity_keys payload)"

definition encrypt_server_payload ::
  "'c cipher_ops \<Rightarrow> 'u udp_cipher_ops \<Rightarrow> hash_ops \<Rightarrow> u64 \<Rightarrow> byte list \<Rightarrow> nat \<Rightarrow> byte list \<Rightarrow> cipher_kind \<Rightarrow> byte list \<Rightarrow> address
     \<Rightarrow> udp_control \<Rightarrow> byte list \<Rightarrow> byte list option" where
  "encrypt_server_payload C U H now rnd drawn mem kind key addr control payload =
     (case category kind of
        CatNone \<Rightarrow> encrypt_plain addr payload
      | CatStream \<Rightarrow> encrypt_payload_stream C kind key (take (iv_len kind) rnd) addr payload
      | CatAead \<Rightarrow> encrypt_payload_aead C kind key (take (salt_len kind) rnd) addr payload
      | CatAead2022 \<Rightarrow> encrypt_server_payload_aead_2022 U H now rnd drawn mem kind key addr control payload)"

definition decrypt_client_payload ::
  "'c cipher_ops \<Rightarrow> 'u udp_cipher_ops \<Rightarrow> hash_ops \<Rightarrow> u64 \<Rightarrow> cipher_kind \<Rightarrow> byte list \<Rightarrow> byte list \<Rightarrow> user_manager option
     \<Rightarrow> (byte list \<times> address \<times> udp_control option, udp_error) res" where
  "decrypt_client_payload C U H now kind key payload um =
     (case category kind of
        CatNone \<Rightarrow> decrypt_plain payload
      | CatStream \<Rightarrow> map_err UdpStreamError (without_control (decrypt_payload_stream C kind key payload))
      | CatAead \<Rightarrow> map_err UdpAeadError (without_control (decrypt_payload_aead C kind key payload))
      | CatAead2022 \<Rightarrow> map_err Udp2022Error (with_control (decrypt_client_payload_aead_2022 U H now kind key payload um)))"

definition decrypt_server_payload ::
  "'c cipher_ops \<Rightarrow> 'u udp_cipher_ops \<Rightarrow> hash_ops \<Rightarrow> u64 \<Rightarrow> cipher_kind \<Rightarrow> byte list \<Rightarrow> byte list
     \<Rightarrow> (byte list \<times> address \<times> udp_control option, udp_error) res" where
  "decrypt_server_payload C U H now kind key payload =
     (case category kind of
        CatNone \<Rightarrow> decrypt_plain payload
      | CatStream \<Rightarrow> map_err UdpStreamError (without_control (decrypt_payload_stream C kind key payload))
      | CatAead \<Rightarrow> map_err UdpAeadError (without_control (decrypt_payload_aead C kind key payload))
      | CatAead2022 \<Rightarrow> map_err Udp2022Error (with_control (decrypt_server_payload_aead_2022 U H now kind key payload)))"

section \<open>The proxied socket\<close>

datatype udp_socket_type = ClientSocket | ServerSocket

datatype proxy_socket_error = PsIo io_error | PsProtocol udp_error
  | PsProtocolWithPeer socket_addr udp_error | InvalidServerUser "byte list"

record proxy_socket =
  ps_type :: udp_socket_type
  ps_method :: cipher_kind
  ps_key :: "byte list"
  ps_send_timeout :: "nat option"
  ps_recv_timeout :: "nat option"
  ps_identity_keys :: "byte list list"
  ps_user_manager :: "user_manager option"

definition from_socket :: "udp_socket_type \<Rightarrow> cipher_kind \<Rightarrow> byte list \<Rightarrow> byte list list \<Rightarrow> user_manager option \<Rightarrow> proxy_socket" where
  "from_socket ty kind key identity_keys um =
     \<lparr>ps_type = ty, ps_method = kind, ps_key = key, ps_send_timeout = None, ps_recv_timeout = None,
      ps_identity_keys = (case ty of ClientSocket \<Rightarrow> identity_keys | ServerSocket \<Rightarrow> []),
      ps_user_manager = (case ty of ClientSocket \<Rightarrow> None | ServerSocket \<Rightarrow> um)\<rparr>"

definition set_send_timeout :: "nat option \<Rightarrow> proxy_socket \<Rightarrow> proxy_socket" where
  "set_send_timeout t ps = ps\<lparr>ps_send_timeout := t\<rparr>"

definition set_recv_timeout :: "nat option \<Rightarrow> proxy_socket \<Rightarrow> proxy_socket" where
  "set_recv_timeout t ps = ps\<lparr>ps_recv_timeout := t\<rparr>"

datatype 'a io_wait = Completed "('a, io_error) res" | NeverReady

text \<open>\<open>time::timeout\<close> around an operation, or the operation itself; \<open>None\<close> is still waiting.\<close>

definition wait_io :: "nat option \<Rightarrow> 'a io_wait \<Rightarrow> ('a, proxy_socket_error) res option" where
  "wait_io limit w =
     (case w of
        Completed r \<Rightarrow> Some (map_err PsIo r)
      | NeverReady \<Rightarrow> (case limit of None \<Rightarrow> None | Some d \<Rightarrow> Some (Err (PsIo (Io_Error TimedOut [])))))"

definition encrypt_send_buffer ::
  "'c cipher_ops \<Rightarrow> 'u udp_cipher_ops \<Rightarrow> hash_ops \<Rightarrow> u64 \<Rightarrow> byte list \<Rightarrow> nat \<Rightarrow> byte list \<Rightarrow> proxy_socket \<Rightarrow> address \<Rightarrow> udp_control
     \<Rightarrow> byte list \<Rightarrow> byte list option" where
  "encrypt_send_buffer C U H now rnd drawn mem ps addr control payload =
     (case ps_type ps of
        ClientSocket \<Rightarrow>
          encrypt_client_payload C U H now rnd drawn mem (ps_method ps) (ps_key ps) addr control (ps_identity_keys ps) payload
      | ServerSocket \<Rightarrow>
          let key = (case ctl_user control of Some user \<Rightarrow> user_key user | None \<Rightarrow> ps_key ps)
          in encrypt_server_payload C U H now rnd drawn mem (ps_method ps) key addr control payload)"

text \<open>The result of a send, with the datagram given to the socket.\<close>

definition send_with_ctrl ::
  "'c cipher_ops \<Rightarrow> 'u udp_cipher_ops \<Rightarrow> hash_ops \<Rightarrow> u64 \<Rightarrow> byte list \<Rightarrow> nat \<Rightarrow> byte list \<Rightarrow> proxy_socket \<Rightarrow> (byte list \<Rightarrow> nat io_wait)
     \<Rightarrow> address \<Rightarrow> udp_control \<Rightarrow> byte list \<Rightarrow> (nat, proxy_socket_error) res option \<times> byte list option" where
  "send_with_ctrl C U H now rnd drawn mem ps send_io addr control payload =
     (case encrypt_send_buffer C U H now rnd drawn mem ps addr control payload of
        None \<Rightarrow> (Some Panic, None)
      | Some send_buf \<Rightarrow> (wait_io (ps_send_timeout ps) (send_io send_buf), Some send_buf))"

definition send_to_with_ctrl ::
  "'c cipher_ops \<Rightarrow> 'u udp_cipher_ops \<Rightarrow> hash_ops \<Rightarrow> u64 \<Rightarrow> byte list \<Rightarrow> nat \<Rightarrow> byte list \<Rightarrow> proxy_socket
     \<Rightarrow> (byte list \<Rightarrow> socket_addr \<Rightarrow> nat io_wait) \<Rightarrow> socket_addr \<Rightarrow> address \<Rightarrow> udp_control \<Rightarrow> byte list
     \<Rightarrow> (nat, proxy_socket_error) res option \<times> (byte list \<times> socket_addr) option" where
  "send_to_with_ctrl C U H now rnd drawn mem ps send_to_io target addr control payload =
     (case encrypt_send_buffer C U H now rnd drawn mem ps addr control payload of
        None \<Rightarrow> (Some Panic, None)
      | Some send_buf \<Rightarrow> (wait_io (ps_send_timeout ps) (send_to_io send_buf target), Some (send_buf, target)))"

text \<open>The polled senders return the length of the payload, and refuse a datagram that was sent in part.\<close>

definition poll_sent :: "byte list \<Rightarrow> byte list \<Rightarrow> (nat, io_error) poll \<Rightarrow> (nat, proxy_socket_error) poll" where
  "poll_sent payload send_buf r =
     (case r of
        Ready (Ok l) \<Rightarrow>
          if l = length send_buf then Ready (Ok (length payload)) else Ready (Err (PsIo (Io_Error WriteZero [])))
      | Ready (Err e) \<Rightarrow> Ready (Err (PsIo e))
      | Ready Panic \<Rightarrow> Ready Panic
      | Pending \<Rightarrow> Pending)"

definition poll_send_with_ctrl ::
  "'c cipher_ops \<Rightarrow> 'u udp_cipher_ops \<Rightarrow> hash_ops \<Rightarrow> u64 \<Rightarrow> byte list \<Rightarrow> nat \<Rightarrow> byte list \<Rightarrow> proxy_socket
     \<Rightarrow> (byte list \<Rightarrow> (nat, io_error) poll) \<Rightarrow> address \<Rightarrow> udp_control \<Rightarrow> byte list
     \<Rightarrow> (nat, proxy_socket_error) poll \<times> byte list option" where
  "poll_send_with_ctrl C U H now rnd drawn mem ps poll_io addr control payload =
     (case encrypt_send_buffer C U H now rnd drawn mem ps addr control payload of
        None \<Rightarrow> (Ready Panic, None)
      | Some send_buf \<Rightarrow> (poll_sent payload send_buf (poll_io send_buf), Some send_buf))"

definition poll_send_to_with_ctrl ::
  "'c cipher_ops \<Rightarrow> 'u udp_cipher_ops \<Rightarrow> hash_ops \<Rightarrow> u64 \<Rightarrow> byte list \<Rightarrow> nat \<Rightarrow> byte list \<Rightarrow> proxy_socket
     \<Rightarrow> (byte list \<Rightarrow> socket_addr \<Rightarrow> (nat, io_error) poll) \<Rightarrow> socket_addr \<Rightarrow> address \<Rightarrow> udp_control \<Rightarrow> byte list
     \<Rightarrow> (nat, proxy_socket_error) poll \<times> (byte list \<times> socket_addr) option" where
  "poll_send_to_with_ctrl C U H now rnd drawn mem ps poll_io target addr control payload =
     (case encrypt_send_buffer C U H now rnd drawn mem ps addr control payload of
        None \<Rightarrow> (Ready Panic, None)
      | Some send_buf \<Rightarrow> (poll_sent payload send_buf (poll_io send_buf target), Some (send_buf, target)))"

definition decrypt_recv_buffer ::
  "'c cipher_ops \<Rightarrow> 'u udp_cipher_ops \<Rightarrow> hash_ops \<Rightarrow> u64 \<Rightarrow> proxy_socket \<Rightarrow> byte list
     \<Rightarrow> (byte list \<times> address \<times> udp_control option, udp_error) res" where
  "decrypt_recv_buffer C U H now ps recv_buf =
     (case ps_type ps of
        ClientSocket \<Rightarrow> decrypt_server_payload C U H now (ps_method ps) (ps_key ps) recv_buf
      | ServerSocket \<Rightarrow> decrypt_client_payload C U H now (ps_method ps) (ps_key ps) recv_buf (ps_user_manager ps))"

text \<open>A datagram longer than the buffer is cut. A result is the payload, the address in the packet, the number of
  bytes received and the control data; \<open>recv_from\<close> also has the sender.\<close>

definition recv_with_ctrl ::
  "'c cipher_ops \<Rightarrow> 'u udp_cipher_ops \<Rightarrow> hash_ops \<Rightarrow> u64 \<Rightarrow> proxy_socket \<Rightarrow> nat \<Rightarrow> byte list io_wait
     \<Rightarrow> (byte list \<times> address \<times> nat \<times> udp_control option, proxy_socket_error) res option" where
  "recv_with_ctrl C U H now ps buf_len recv_io =
     map_option (\<lambda>r. bind_res r (\<lambda>dgram.
         let recv_buf = take buf_len dgram in
         bind_res (map_err PsProtocol (decrypt_recv_buffer C U H now ps recv_buf)) (\<lambda>(n, addr, control).
           Ok (n, addr, length recv_buf, control))))
       (wait_io (ps_recv_timeout ps) recv_io)"

definition recv_from_with_ctrl ::
  "'c cipher_ops \<Rightarrow> 'u udp_cipher_ops \<Rightarrow> hash_ops \<Rightarrow> u64 \<Rightarrow> proxy_socket \<Rightarrow> nat \<Rightarrow> (byte list \<times> socket_addr) io_wait
     \<Rightarrow> (byte list \<times> socket_addr \<times> address \<times> nat \<times> udp_control option, proxy_socket_error) res option" where
  "recv_from_with_ctrl C U H now ps buf_len recv_io =
     map_option (\<lambda>r. bind_res r (\<lambda>(dgram, target_addr).
         let recv_buf = take buf_len dgram in
         bind_res (map_err (PsProtocolWithPeer target_addr) (decrypt_recv_buffer C U H now ps recv_buf)) (\<lambda>(n, addr, control).
           Ok (n, target_addr, addr, length recv_buf, control))))
       (wait_io (ps_recv_timeout ps) recv_io)"

text \<open>The polled receivers, on an empty buffer.\<close>

definition poll_recv_with_ctrl ::
  "'c cipher_ops \<Rightarrow> 'u udp_cipher_ops \<Rightarrow> hash_ops \<Rightarrow> u64 \<Rightarrow> proxy_socket \<Rightarrow> nat \<Rightarrow> (byte list, io_error) poll
     \<Rightarrow> (byte list \<times> address \<times> nat \<times> udp_control option, proxy_socket_error) poll" where
  "poll_recv_with_ctrl C U H now ps buf_len recv_io =
     (case recv_io of
        Pending \<Rightarrow> Pending
      | Ready r \<Rightarrow> Ready (bind_res (map_err PsIo r) (\<lambda>dgram.
          let recv_buf = take buf_len dgram in
          bind_res (map_err PsProtocol (decrypt_recv_buffer C U H now ps recv_buf)) (\<lambda>(n, addr, control).
            Ok (n, addr, length recv_buf, control)))))"

definition poll_recv_from_with_ctrl ::
  "'c cipher_ops \<Rightarrow> 'u udp_cipher_ops \<Rightarrow> hash_ops \<Rightarrow> u64 \<Rightarrow> proxy_socket \<Rightarrow> nat \<Rightarrow> (byte list \<times> socket_addr, io_error) poll
     \<Rightarrow> (byte list \<times> socket_addr \<times> address \<times> nat \<times> udp_control option, proxy_socket_error) poll" where
  "poll_recv_from_with_ctrl C U H now ps buf_len recv_io =
     (case recv_io of
        Pending \<Rightarrow> Pending
      | Ready r \<Rightarrow> Ready (bind_res (map_err PsIo r) (\<lambda>(dgram, src).
          let recv_buf = take buf_len dgram in
          bind_res (map_err PsProtocol (decrypt_recv_buffer C U H now ps recv_buf)) (\<lambda>(n, addr, control).
            Ok (n, src, addr, length recv_buf, control)))))"

section \<open>Packets of every category are read back\<close>

definition rnd_len :: "cipher_kind \<Rightarrow> nat" where
  "rnd_len kind =
     (case category kind of
        CatNone \<Rightarrow> 0 | CatStream \<Rightarrow> iv_len kind | CatAead \<Rightarrow> salt_len kind
      | CatAead2022 \<Rightarrow> (if support_eih kind then 0 else nonce_len kind))"

lemma rnd_len_2022: "category kind = CatAead2022 \<Longrightarrow> get_nonce_len kind = Some (rnd_len kind)"
  by (simp add: rnd_len_def get_nonce_len_def)

text \<open>What of the ciphers a method uses.\<close>

definition udp_laws :: "'c cipher_ops \<Rightarrow> 'u udp_cipher_ops \<Rightarrow> hash_ops \<Rightarrow> cipher_kind \<Rightarrow> bool" where
  "udp_laws C U H kind \<longleftrightarrow>
     (if category kind = CatAead2022 then udp_cipher_laws U kind \<and> hash_laws H else category kind = CatNone \<or> cipher_laws C kind)"

text \<open>Keys under which a client with identity keys \<open>ids\<close> and a server with users \<open>um\<close> understand each other.\<close>

definition udp_keys_match ::
  "hash_ops \<Rightarrow> cipher_kind \<Rightarrow> byte list list \<Rightarrow> byte list \<Rightarrow> byte list \<Rightarrow> user_manager option \<Rightarrow> bool" where
  "udp_keys_match H kind ids key skey um \<longleftrightarrow>
     (if category kind = CatAead2022
      then keys_match H kind ids key skey um \<and> length key = key_len kind \<and> length skey = key_len kind
      else key = skey)"

definition received_control :: "hash_ops \<Rightarrow> cipher_kind \<Rightarrow> byte list \<Rightarrow> user_manager option \<Rightarrow> udp_control \<Rightarrow> udp_control option" where
  "received_control H kind key um ctl =
     (if category kind = CatAead2022
      then Some (ctl\<lparr>server_session_id := 0, ctl_user := identified_user H kind key um\<rparr>) else None)"

lemma decrypt_plain_ok:
  assumes "wf_address addr" "write_address addr = Some a"
  shows "decrypt_plain (a @ payload) = Ok (payload, addr, None)"
  using read_cursor_address [OF assms, of "[]" payload] by (simp add: decrypt_plain_def cur_start) (simp add: cur_at_def)

lemma legacy_packet:
  assumes "udp_laws C U H kind" "wf_address addr" "length rnd = rnd_len kind" "category kind \<noteq> CatAead2022"
  shows "\<exists>bs. encrypt_client_payload C U H ts rnd drawn mem kind key addr ctl ids payload = Some bs
     \<and> encrypt_server_payload C U H ts rnd drawn mem kind key addr ctl payload = Some bs
     \<and> decrypt_client_payload C U H now kind key bs um = Ok (payload, addr, None)
     \<and> decrypt_server_payload C U H now kind key bs = Ok (payload, addr, None)"
proof -
  obtain a where a: "write_address addr = Some a" using address.enc_total [OF assms(2)] by blast
  note defs = encrypt_client_payload_def encrypt_server_payload_def decrypt_client_payload_def decrypt_server_payload_def
    without_control_def rnd_len_def udp_laws_def
  show ?thesis
  proof (cases "category kind")
    case CatNone
    then show ?thesis using a by (simp add: defs encrypt_plain_def decrypt_plain_ok [OF assms(2) a])
  next
    case CatStream
    then have laws: "cipher_laws C kind" "length rnd = iv_len kind" using assms by (simp_all add: defs)
    obtain bs where "encrypt_payload_stream C kind key rnd addr payload = Some bs" using a by (simp add: encrypt_payload_stream_def)
    with payload_stream_roundtrip [OF laws assms(2) this] show ?thesis using CatStream laws(2) by (simp add: defs)
  next
    case CatAead
    then have laws: "cipher_laws C kind" "length rnd = salt_len kind" using assms by (simp_all add: defs)
    obtain bs where "encrypt_payload_aead C kind key rnd addr payload = Some bs" using a by (simp add: encrypt_payload_aead_def)
    with payload_aead_roundtrip [OF laws assms(2) this] show ?thesis using CatAead laws(2) by (simp add: defs)
  qed (use assms(4) in simp)
qed

lemma client_packet:
  assumes "udp_laws C U H kind" "wf_address addr" "length rnd = rnd_len kind" "udp_keys_match H kind ids key skey um"
    and "abs_diff now ts \<le> 30" "drawn \<le> 900" "drawn \<le> length mem"
  shows "\<exists>bs. encrypt_client_payload C U H ts rnd drawn mem kind key addr ctl ids payload = Some bs
     \<and> decrypt_client_payload C U H now kind skey bs um = Ok (payload, addr, received_control H kind key um ctl)"
proof (cases "category kind = CatAead2022")
  case True
  then have laws: "udp_cipher_laws U kind" "hash_laws H" "get_nonce_len kind = Some (length rnd)"
    "keys_match H kind ids key skey um" "length skey = key_len kind"
    using assms rnd_len_2022 [OF True] by (simp_all add: udp_laws_def udp_keys_match_def)
  from client_packet_2022 [OF laws(1-3) assms(2) laws(4,5) assms(5-7), of ctl payload] show ?thesis
    using True by (auto simp: encrypt_client_payload_def decrypt_client_payload_def with_control_def received_control_def)
next
  case False
  then show ?thesis using legacy_packet [OF assms(1-3) False] assms(4)
    by (fastforce simp: udp_keys_match_def received_control_def)
qed

lemma server_packet:
  assumes "udp_laws C U H kind" "wf_address addr" "length rnd = rnd_len kind"
    and "category kind = CatAead2022 \<longrightarrow> length key = key_len kind"
    and "abs_diff now ts \<le> 30" "drawn \<le> 900" "drawn \<le> length mem"
  shows "\<exists>bs. encrypt_server_payload C U H ts rnd drawn mem kind key addr ctl payload = Some bs
     \<and> decrypt_server_payload C U H now kind key bs
         = Ok (payload, addr, if category kind = CatAead2022 then Some (ctl\<lparr>ctl_user := None\<rparr>) else None)"
proof (cases "category kind = CatAead2022")
  case True
  then have laws: "udp_cipher_laws U kind" "hash_laws H" "get_nonce_len kind = Some (length rnd)" "length key = key_len kind"
    using assms rnd_len_2022 [OF True] by (simp_all add: udp_laws_def)
  from server_packet_2022 [OF laws(1-3) assms(2) laws(4) assms(5-7), of ctl payload] show ?thesis
    using True by (auto simp: encrypt_server_payload_def decrypt_server_payload_def with_control_def)
next
  case False
  then show ?thesis using legacy_packet [OF assms(1-3) False] by fastforce
qed

text \<open>
  C5: A UDP exchange is carried. Take a client and a server socket with the same method, of any cipher
  category, and keys that belong together: for AEAD-2022 with users, the client has the server's key as its identity
  key and the key of one of the users. What the client sends is received by the server with the same payload and
  target, the client's session and packet id, and the right user; what the server then sends for that user is
  received by the client with the same payload, address, session and packet ids. This holds for every padding
  that is drawn and clocks that differ by at most 30 seconds.
\<close>

theorem udp_exchange_carried:
  assumes "udp_laws C U H kind" "udp_keys_match H kind ids key skey um"
    and "wf_address target" "wf_address origin" "length rnd = rnd_len kind" "length rnd' = rnd_len kind"
    and "drawn \<le> 900" "drawn \<le> length mem" "abs_diff now ts \<le> 30" "abs_diff now' ts' \<le> 30"
    and "ctl_user ctl' = (if category kind = CatAead2022 then identified_user H kind key um else None)"
    and "client = from_socket ClientSocket kind key ids cum" "server = from_socket ServerSocket kind skey sids um"
  shows "(\<exists>bs. snd (send_with_ctrl C U H ts rnd drawn mem client send_io target ctl payload) = Some bs
       \<and> (\<forall>buf_len \<ge> length bs. recv_from_with_ctrl C U H now server buf_len (Completed (Ok (bs, peer)))
            = Some (Ok (payload, peer, target, length bs, received_control H kind key um ctl))))
     \<and> (\<exists>bs. snd (send_to_with_ctrl C U H ts' rnd' drawn mem server send_to_io peer origin ctl' answer) = Some (bs, peer)
       \<and> (\<forall>buf_len \<ge> length bs. recv_with_ctrl C U H now' client buf_len (Completed (Ok bs))
            = Some (Ok (answer, origin, length bs, if category kind = CatAead2022 then Some (ctl'\<lparr>ctl_user := None\<rparr>) else None))))"
proof
  obtain bs where "encrypt_client_payload C U H ts rnd drawn mem kind key target ctl ids payload = Some bs"
    "decrypt_client_payload C U H now kind skey bs um = Ok (payload, target, received_control H kind key um ctl)"
    using client_packet [OF assms(1,3,5,2,9,7,8)] by blast
  then show "\<exists>bs. snd (send_with_ctrl C U H ts rnd drawn mem client send_io target ctl payload) = Some bs
       \<and> (\<forall>buf_len \<ge> length bs. recv_from_with_ctrl C U H now server buf_len (Completed (Ok (bs, peer)))
            = Some (Ok (payload, peer, target, length bs, received_control H kind key um ctl)))"
    by (simp add: assms(12,13) from_socket_def send_with_ctrl_def encrypt_send_buffer_def recv_from_with_ctrl_def
        wait_io_def decrypt_recv_buffer_def)
next
  define k where "k = (case ctl_user ctl' of Some user \<Rightarrow> user_key user | None \<Rightarrow> skey)"
  have k: "k = key" "category kind = CatAead2022 \<longrightarrow> length key = key_len kind"
    using assms(2,11) by (auto simp: k_def udp_keys_match_def keys_match_def identified_user_def split: if_splits option.splits)
  obtain bs where "encrypt_server_payload C U H ts' rnd' drawn mem kind key origin ctl' answer = Some bs"
    "decrypt_server_payload C U H now' kind key bs
       = Ok (answer, origin, if category kind = CatAead2022 then Some (ctl'\<lparr>ctl_user := None\<rparr>) else None)"
    using server_packet [OF assms(1,4,6) k(2) assms(10,7,8)] by blast
  then show "\<exists>bs. snd (send_to_with_ctrl C U H ts' rnd' drawn mem server send_to_io peer origin ctl' answer) = Some (bs, peer)
       \<and> (\<forall>buf_len \<ge> length bs. recv_with_ctrl C U H now' client buf_len (Completed (Ok bs))
            = Some (Ok (answer, origin, length bs, if category kind = CatAead2022 then Some (ctl'\<lparr>ctl_user := None\<rparr>) else None)))"
    using k(1) unfolding k_def
    by (cases "ctl_user ctl'") (simp_all add: assms(12,13) from_socket_def send_to_with_ctrl_def encrypt_send_buffer_def recv_with_ctrl_def
        wait_io_def decrypt_recv_buffer_def)
qed

section \<open>What a server accepts\<close>

text \<open>AES maps blocks to blocks.\<close>

definition aes_block_laws :: "hash_ops \<Rightarrow> bool" where
  "aes_block_laws H \<longleftrightarrow> (\<forall>k b. length b = 16 \<longrightarrow> length (aes_decrypt_block H k b) = 16)"

lemma get_bytes_Ok: "get_bytes n c = Ok (x, c') \<longleftrightarrow> n \<le> remaining c \<and> x = slice (cpos c) (cpos c + n) (cdata c) \<and> c' = c\<lparr>cpos := cpos c + n\<rparr>"
  by (auto simp: get_bytes_def)

lemma get_u8_Ok: "get_u8 c = Ok (x, c') \<Longrightarrow> c' = c\<lparr>cpos := cpos c + 1\<rparr>"
  by (auto simp: get_u8_def bind_res_Ok_iff get_bytes_Ok)

lemma read_cursor_advances: "read_cursor c = Ok (a, c') \<Longrightarrow> cpos c \<le> cpos c'"
  by (auto simp: read_cursor_def bind_res_Ok_iff get_bytes_Ok Let_def split: if_splits dest!: get_u8_Ok)

lemma read_client_body_Ok:
  assumes "read_client_body now True user data = Ok (payload, addr, c)"
  shows "client_session_id c = of_be (slice 0 8 data) \<and> packet_id c = of_be (slice 8 16 data) \<and> ctl_user c = user
     \<and> abs_diff now (of_be (slice 33 41 data)) \<le> 30 \<and> (\<exists>j \<ge> 43. payload = drop j data)"
proof -
  have "\<exists>j \<ge> 43. payload = drop j data" if "read_cursor (\<lparr>cdata = data, cpos = 43 + n\<rparr>) = Ok (addr, cur)"
      "payload = drop (cpos cur) data" for cur n
    using read_cursor_advances [OF that(1)] that(2) by (intro exI [of _ "cpos cur"]) simp
  then show ?thesis
    using assms
    by (auto simp: read_client_body_def bind_res_Ok_iff get_bytes_Ok Let_def not_less split: if_splits res.splits prod.splits dest!: get_u8_Ok)
qed

lemma decrypt_message_user:
  assumes "decrypt_message U H kind key packet (Some m) = Ok (user, data)" "support_eih kind" "aes_block_laws H"
  shows "\<exists>h eih u p. user = Some u \<and> data = h @ eih @ p \<and> length h = 16 \<and> length eih = 16 \<and> get_user_by_hash m eih = Some u
     \<and> udp_decrypt_packet U (udp_cipher_new U kind (user_key u) (of_be (slice 0 8 h))) (slice 4 16 h) (drop 32 packet) = Some p"
proof -
  let ?h = "aes_decrypt_block H key (take 16 packet)" and ?e = "aes_decrypt_block H key (take 16 (drop 16 packet))"
  have len: "16 \<le> length packet" "16 \<le> length packet - 16"
    using assms(1,2) by (auto simp: decrypt_message_def Let_def split: if_splits)
  have "length ?h = 16" "length ?e = 16"
    using assms(3) len by (simp_all add: aes_block_laws_def min_absorb2)
  moreover have "\<exists>u p. user = Some u \<and> data = ?h @ xor_bytes ?e ?h @ p \<and> get_user_by_hash m (xor_bytes ?e ?h) = Some u
    \<and> udp_decrypt_packet U (udp_cipher_new U kind (user_key u) (of_be (slice 0 8 ?h))) (slice 4 16 ?h) (drop 32 packet) = Some p"
    using assms(1,2) by (auto simp: decrypt_message_def Let_def split: if_splits option.splits)
  ultimately show ?thesis
    by (intro exI [of _ ?h] exI [of _ "xor_bytes ?e ?h"]) simp
qed

text \<open>
  C6: A server with users accepts only their packets. If a server socket with users takes a datagram, then
  one of its users is named in the control data, the packet opened under that user's key with the session
  and packet id of the control data bound into key and nonce, its timestamp is at most 30 seconds off the
  clock, and the payload is a tail of what was opened.
\<close>

theorem udp_server_accepts_users:
  assumes "aes_block_laws H" "category kind = CatAead2022" "support_eih kind" "server = from_socket ServerSocket kind skey sids (Some m)"
    and "recv_from_with_ctrl C U H now server buf_len (Completed (Ok (dgram, peer))) = Some (Ok (payload, src, addr, n, ctl))"
  shows "\<exists>c u h ts p j. ctl = Some c \<and> ctl_user c = Some u \<and> (\<exists>eih. get_user_by_hash m eih = Some u)
     \<and> h = be_of 8 (client_session_id c) @ be_of 8 (packet_id c)
     \<and> udp_decrypt_packet U (udp_cipher_new U kind (user_key u) (client_session_id c)) (slice 4 16 h) (drop 32 (take buf_len dgram)) = Some p
     \<and> ts = of_be (slice 1 9 p) \<and> abs_diff now ts \<le> 30 \<and> payload = drop j p"
proof -
  obtain c where dec: "ctl = Some c" "decrypt_client_payload_aead_2022 U H now kind skey (take buf_len dgram) (Some m) = Ok (payload, addr, c)"
    using assms(2,4,5) by (cases "decrypt_client_payload_aead_2022 U H now kind skey (take buf_len dgram) (Some m)")
      (auto simp: recv_from_with_ctrl_def wait_io_def decrypt_recv_buffer_def from_socket_def decrypt_client_payload_def with_control_def)
  then obtain user data where msg: "decrypt_message U H kind skey (take buf_len dgram) (Some m) = Ok (user, data)"
    "read_client_body now True user data = Ok (payload, addr, c)"
    using assms(2,3) by (auto simp: decrypt_client_payload_aead_2022_def get_nonce_len_def Let_def bind_res_Ok_iff split: if_splits)
  obtain h eih u p where u: "user = Some u" "data = h @ eih @ p" "length h = 16" "length eih = 16" "get_user_by_hash m eih = Some u"
    "udp_decrypt_packet U (udp_cipher_new U kind (user_key u) (of_be (slice 0 8 h))) (slice 4 16 h) (drop 32 (take buf_len dgram)) = Some p"
    using decrypt_message_user [OF msg(1) assms(3,1)] by blast
  note body = read_client_body_Ok [OF msg(2)]
  have parts: "slice 0 8 data = take 8 h" "slice 8 16 data = drop 8 h" "slice 33 41 data = slice 1 9 p" "slice 0 8 h = take 8 h"
    using u(2-4) by (simp_all add: slice_def)
  have "be_of 8 (of_be (take 8 h) :: u64) = take 8 h" "be_of 8 (of_be (drop 8 h) :: u64) = drop 8 h"
    using u(3) be_of_of_be [where 'a = 64, of "take 8 h"] be_of_of_be [where 'a = 64, of "drop 8 h"] by simp_all
  then have "h = be_of 8 (client_session_id c) @ be_of 8 (packet_id c)" using body parts by simp
  moreover obtain j where j: "43 \<le> j" "payload = drop j data" using body by blast
  have "payload = drop (j - 32) p" using u(2-4) j by simp
  ultimately show ?thesis using dec(1) body u parts by auto
qed

section \<open>A packet that ends the client\<close>

text \<open>
  C39: A short response panics. The client checks the length of a response against a header without the
  client session id. A packet that is properly sealed, passes the check of its length, type and timestamp and
  then has less than the ten bytes of the session id and the padding length makes the reader panic instead of
  returning an error.
\<close>

theorem udp_short_response_panics:
  assumes "udp_cipher_laws U kind" "hash_laws H" "get_nonce_len kind = Some (length rnd)" "abs_diff now ts \<le> 30"
    and "2 \<le> length rest" "length rest < 10"
    and "encrypt_message U H kind key key (rnd @ be_of 8 sid @ be_of 8 pid @ [SERVER_SOCKET_TYPE] @ be_of 8 ts @ rest) sid 0 = Some bs"
  shows "decrypt_server_payload_aead_2022 U H now kind key bs = Panic"
proof -
  have panic: "read_server_body now (be_of 8 sid @ be_of 8 pid @ [SERVER_SOCKET_TYPE] @ be_of 8 ts @ rest) = Panic"
  proof (cases "length rest < 8")
    case True
    then show ?thesis using assms(4)
      by (simp add: read_server_body_def body_simps be_simps not_less) (simp add: get_bytes_def remaining_def cur_at_def)
  next
    case False
    then obtain csid more where rest: "rest = csid @ more" "length csid = 8" "length more < 2"
      using assms(6) by (intro that [of "take 8 rest" "drop 8 rest"]) auto
    show ?thesis unfolding rest(1) using assms(4) rest(2,3)
      by (simp add: read_server_body_def body_simps be_simps not_less) (simp add: get_bytes_def remaining_def cur_at_def)
  qed
  from message_plain [OF assms(1-3) disjI1 [OF refl] _ assms(7)] assms(3,5) panic show ?thesis
    by (simp add: decrypt_server_payload_aead_2022_def be_simps)
qed

section \<open>Instances\<close>

definition demo_udp :: "(byte list \<times> u64) udp_cipher_ops" where
  "demo_udp = \<lparr>udp_cipher_new = (\<lambda>kind key s. (key, s)),
     udp_encrypt_packet = (\<lambda>c nonce m. m @ take 2 (fst c @ [0, 0])),
     udp_decrypt_packet = (\<lambda>c nonce m. if drop (length m - 2) m = take 2 (fst c @ [0, 0]) then Some (take (length m - 2) m) else None),
     udp_nonce_size = nonce_len\<rparr>"

lemma demo_udp_laws: "udp_cipher_laws demo_udp demo_kind"
  by (auto simp: udp_cipher_laws_def demo_udp_def demo_kind_def)

lemma demo_udp_all_laws: "udp_laws counter_cipher demo_udp demo_hash demo_kind"
  using demo_udp_laws demo_hash_laws demo_cipher_laws by (simp add: udp_laws_def)

lemma demo_aes: "aes_block_laws demo_hash"
  by (simp add: aes_block_laws_def demo_hash_def)

lemma demo_udp_fields: "category demo_kind = CatAead2022" "support_eih demo_kind" "rnd_len demo_kind = 0" "key_len demo_kind = 2"
  "get_nonce_len demo_kind = Some 0"
  by (simp_all add: demo_kind_def rnd_len_def get_nonce_len_def)

lemma demo_udp_keys: "udp_keys_match demo_hash demo_kind [[1, 2]] [5, 6] [1, 2] (Some demo_users)"
  by (simp add: udp_keys_match_def keys_match_def demo_udp_fields demo_users_def user_new_def manager_new_def)

abbreviation "demo_udp_client \<equiv> from_socket ClientSocket demo_kind [5, 6] [[1, 2]] None"
abbreviation "demo_udp_server \<equiv> from_socket ServerSocket demo_kind [1, 2] [] (Some demo_users)"
abbreviation "demo_dest \<equiv> SocketAddress (V4 9 53)"
abbreviation "demo_answer_control \<equiv> default_control\<lparr>ctl_user := identified_user demo_hash demo_kind [5, 6] (Some demo_users)\<rparr>"

theorem udp_exchange_carried_witness:
  "\<exists>bs. snd (send_with_ctrl counter_cipher demo_udp demo_hash 1000 [] 3 [0, 0, 0] demo_udp_client (\<lambda>b. NeverReady) demo_dest default_control []) = Some bs
     \<and> (\<exists>c. recv_from_with_ctrl counter_cipher demo_udp demo_hash 1010 demo_udp_server (length bs) (Completed (Ok (bs, V4 7 7)))
          = Some (Ok ([], V4 7 7, demo_dest, length bs, c)))"
proof -
  have clock: "abs_diff 1010 1000 \<le> (30 :: u64)" by (simp add: abs_diff_def)
  have "\<exists>bs. snd (send_with_ctrl counter_cipher demo_udp demo_hash 1000 [] 3 [0, 0, 0] demo_udp_client (\<lambda>b. NeverReady) demo_dest default_control []) = Some bs
     \<and> (\<forall>n \<ge> length bs. recv_from_with_ctrl counter_cipher demo_udp demo_hash 1010 demo_udp_server n (Completed (Ok (bs, V4 7 7)))
          = Some (Ok ([], V4 7 7, demo_dest, length bs, received_control demo_hash demo_kind [5, 6] (Some demo_users) default_control)))"
    by (rule conjunct1 [OF udp_exchange_carried [OF demo_udp_all_laws demo_udp_keys, where ctl' = demo_answer_control and origin = demo_dest
          and rnd' = "[]" and now' = 1010 and ts' = 1000]])
       (simp_all add: demo_udp_fields clock)
  then show ?thesis by blast
qed

theorem udp_server_accepts_users_witness:
  "\<exists>bs c u eih. recv_from_with_ctrl counter_cipher demo_udp demo_hash 1010 demo_udp_server (length bs) (Completed (Ok (bs, V4 7 7)))
       = Some (Ok ([8], V4 7 7, demo_dest, length bs, Some c)) \<and> ctl_user c = Some u \<and> get_user_by_hash demo_users eih = Some u"
proof -
  have "abs_diff 1010 1000 \<le> (30 :: u64)" by (simp add: abs_diff_def)
  from client_packet [OF demo_udp_all_laws _ _ demo_udp_keys this, of demo_dest "[]" 0 "[]" default_control "[8]"]
  obtain bs where "decrypt_client_payload counter_cipher demo_udp demo_hash 1010 demo_kind [1, 2] bs (Some demo_users)
      = Ok ([8], demo_dest, received_control demo_hash demo_kind [5, 6] (Some demo_users) default_control)"
    by (auto simp: demo_udp_fields)
  then have "recv_from_with_ctrl counter_cipher demo_udp demo_hash 1010 demo_udp_server (length bs) (Completed (Ok (bs, V4 7 7)))
      = Some (Ok ([8], V4 7 7, demo_dest, length bs, received_control demo_hash demo_kind [5, 6] (Some demo_users) default_control))"
    by (simp add: recv_from_with_ctrl_def wait_io_def decrypt_recv_buffer_def from_socket_def)
  from udp_server_accepts_users [OF demo_aes demo_udp_fields(1,2) refl this] this show ?thesis by metis
qed

theorem udp_short_response_panics_witness:
  "\<exists>bs. 29 \<le> length bs \<and> decrypt_server_payload_aead_2022 demo_udp demo_hash 1010 demo_kind [1, 2] bs = Panic"
proof -
  have clock: "abs_diff 1010 1000 \<le> (30 :: u64)" by (simp add: abs_diff_def)
  obtain bs where bs: "encrypt_message demo_udp demo_hash demo_kind [1, 2] [1, 2]
      ([] @ be_of 8 (5 :: u64) @ be_of 8 (6 :: u64) @ [SERVER_SOCKET_TYPE] @ be_of 8 (1000 :: u64) @ [0, 0]) 5 0 = Some bs"
    by (simp add: encrypt_message_def demo_udp_fields Let_def)
  have "decrypt_server_payload_aead_2022 demo_udp demo_hash 1010 demo_kind [1, 2] bs = Panic"
    by (rule udp_short_response_panics [OF demo_udp_laws demo_hash_laws _ clock _ _ bs]) (simp_all add: demo_udp_fields)
  moreover have "length bs = 0 + 16 + 11 + tag_len demo_kind"
    using message_plain [OF demo_udp_laws demo_hash_laws _ disjI1 [OF refl] _ bs] by (simp add: demo_udp_fields)
  ultimately show ?thesis by (intro exI [of _ bs]) (simp add: demo_kind_def)
qed

end
