(* ===== verification/Sub_Domains.thy ===== *)
theory Sub_Domains
  imports Rust_Text "HOL-Library.AList" "HOL-Library.Sublist"
begin

text \<open>
  The tree of domain names of \<open>shadowsocks-service/src/acl/sub_domains_tree.rs\<close>. Names are split at dots and
  entered from the last label on; an entry that is included stands for itself and all names below it.
\<close>

section \<open>Text\<close>

text \<open>\<open>to_ascii_lowercase\<close>, and \<open>trim_end_matches\<close> for a dot.\<close>

definition lower_byte :: "byte \<Rightarrow> byte" where
  "lower_byte b = (if 0x41 \<le> b \<and> b \<le> 0x5A then b + 0x20 else b)"

definition to_ascii_lowercase :: "rstring \<Rightarrow> rstring" where
  "to_ascii_lowercase s = map lower_byte s"

abbreviation "dot \<equiv> 0x2E :: byte"

definition trim_end_dots :: "rstring \<Rightarrow> rstring" where
  "trim_end_dots s = rev (dropWhile (\<lambda>b. b = dot) (rev s))"

section \<open>The tree\<close>

datatype domain_part = DomainPart (included: bool) (children: "(rstring \<times> domain_part) list")

type_synonym domain_map = "(rstring \<times> domain_part) list"

definition domain_part_new :: domain_part where
  "domain_part_new = DomainPart False []"

definition sub_domains_new :: domain_map where
  "sub_domains_new = []"

text \<open>The loop of \<open>insert\<close> over the parts, from the last label of the name. At the last part the entry is
  included and what is below it is cleared.\<close>

fun insert_parts :: "rstring list \<Rightarrow> domain_map \<Rightarrow> domain_map" where
  "insert_parts [] current_map = current_map"
| "insert_parts (part # parts) current_map =
     (let key = to_ascii_lowercase part;
          entry = (case map_of current_map key of Some e \<Rightarrow> e | None \<Rightarrow> domain_part_new)
      in if included entry then current_map
         else if parts = [] then AList.update key (DomainPart True []) current_map
         else AList.update key (DomainPart False (insert_parts parts (children entry))) current_map)"

definition tree_insert :: "rstring \<Rightarrow> domain_map \<Rightarrow> domain_map" where
  "tree_insert name tree = insert_parts (rev (split_all dot name)) tree"

fun contains_parts :: "rstring list \<Rightarrow> domain_map \<Rightarrow> bool" where
  "contains_parts [] current_map = False"
| "contains_parts (part # parts) current_map =
     (case map_of current_map part of
        None \<Rightarrow> False
      | Some el \<Rightarrow> if included el then True else contains_parts parts (children el))"

definition tree_contains :: "rstring \<Rightarrow> domain_map \<Rightarrow> bool" where
  "tree_contains name tree = contains_parts (rev (split_all dot name)) tree"

definition tree_is_empty :: "domain_map \<Rightarrow> bool" where
  "tree_is_empty tree \<longleftrightarrow> tree = []"

section \<open>The tree is a set of names\<close>

lemma included_new [simp]: "included domain_part_new = False" "children domain_part_new = []"
  by (simp_all add: domain_part_new_def)

lemma contains_parts_empty [simp]: "contains_parts qs [] = False"
  by (cases qs) simp_all

text \<open>Inserting a name adds exactly the names that end in it.\<close>

lemma contains_insert_parts:
  assumes "ps \<noteq> []"
  shows "contains_parts qs (insert_parts ps m) \<longleftrightarrow> contains_parts qs m \<or> prefix (map to_ascii_lowercase ps) qs"
  using assms
proof (induction ps arbitrary: m qs)
  case (Cons p ps)
  show ?case
  proof (cases qs)
    case (Cons q qs')
    show ?thesis
    proof (cases "map_of m (to_ascii_lowercase p)")
      case None
      then show ?thesis using Cons Cons.IH [of qs' "[]"]
        by (cases "ps = []") (auto simp: Let_def update_conv' split: option.splits)
    next
      case (Some e)
      then show ?thesis using Cons Cons.IH [of qs' "children e"]
        by (cases "ps = []") (auto simp: Let_def update_conv' split: option.splits)
    qed
  qed simp
qed simp

text \<open>A name is in or below another when its labels end in those of the other.\<close>

definition below :: "rstring \<Rightarrow> rstring \<Rightarrow> bool" where
  "below name d \<longleftrightarrow> suffix (map to_ascii_lowercase (split_all dot d)) (split_all dot name)"

lemma tree_contains_insert:
  "tree_contains name (tree_insert d tree) \<longleftrightarrow> tree_contains name tree \<or> below name d"
  using contains_insert_parts [of "rev (split_all dot d)" "rev (split_all dot name)" tree]
  by (simp add: tree_contains_def tree_insert_def below_def suffix_to_prefix rev_map)

lemma tree_contains_new [simp]: "tree_contains name sub_domains_new = False"
  by (simp add: tree_contains_def sub_domains_new_def)

text \<open>
  C17: The tree implements the set of names it was built from. After any insertions, in any order, with the
  pruning of names below one that is already included, a name is contained exactly when it is one of the
  inserted names or a name below it, where the inserted names are taken in lower case.
\<close>

theorem sub_domains_refine_set:
  "tree_contains name (fold tree_insert ds sub_domains_new) \<longleftrightarrow> (\<exists>d \<in> set ds. below name d)"
  by (induction ds rule: rev_induct) (auto simp: tree_contains_insert)

text \<open>The tree is empty only when nothing was inserted.\<close>

lemma tree_insert_not_empty: "\<not> tree_is_empty (tree_insert d tree)"
proof -
  obtain p ps where "rev (split_all dot d) = p # ps" by (cases "rev (split_all dot d)") auto
  then show ?thesis
    by (auto simp: tree_insert_def tree_is_empty_def Let_def update_Some_unfold domain_part_new_def
        split: option.splits if_splits dest: map_of_SomeD)
qed

end
