(* ===== verification/Rust_Trim.thy ===== *)
theory Rust_Trim
  imports Rust_Text "HOL-Library.Sublist"
begin

text \<open>\<open>str::trim\<close> of the Rust standard library, which the readers of access control lists and of addresses use.\<close>

text \<open>\<open>str::trim\<close>: the characters of the Unicode property \<open>White_Space\<close>, as byte sequences.\<close>

definition white_space :: "byte list list" where
  "white_space =
     [[0x09], [0x0A], [0x0B], [0x0C], [0x0D], [0x20], [0xC2, 0x85], [0xC2, 0xA0], [0xE1, 0x9A, 0x80],
      [0xE2, 0x80, 0x80], [0xE2, 0x80, 0x81], [0xE2, 0x80, 0x82], [0xE2, 0x80, 0x83], [0xE2, 0x80, 0x84],
      [0xE2, 0x80, 0x85], [0xE2, 0x80, 0x86], [0xE2, 0x80, 0x87], [0xE2, 0x80, 0x88], [0xE2, 0x80, 0x89],
      [0xE2, 0x80, 0x8A], [0xE2, 0x80, 0xA8], [0xE2, 0x80, 0xA9], [0xE2, 0x80, 0xAF], [0xE2, 0x81, 0x9F],
      [0xE3, 0x80, 0x80]]"

function trim_front :: "byte list list \<Rightarrow> rstring \<Rightarrow> rstring" where
  "trim_front ws s =
     (case find (\<lambda>w. w \<noteq> [] \<and> prefix w s) ws of None \<Rightarrow> s | Some w \<Rightarrow> trim_front ws (drop (length w) s))"
  by pat_completeness auto
termination
  by (relation "measure (\<lambda>(ws, s). length s)") (auto simp: find_Some_iff prefix_def)

declare trim_front.simps [simp del]

definition str_trim :: "rstring \<Rightarrow> rstring" where
  "str_trim s = rev (trim_front (map rev white_space) (rev (trim_front white_space s)))"

lemma trim_front_keeps: "b \<in> set s \<Longrightarrow> \<forall>w \<in> set ws. b \<notin> set w \<Longrightarrow> b \<in> set (trim_front ws s)"
proof (induction ws s rule: trim_front.induct)
  case (1 ws s)
  show ?case
  proof (cases "find (\<lambda>w. w \<noteq> [] \<and> prefix w s) ws")
    case None
    then show ?thesis using 1 by (simp add: trim_front.simps)
  next
    case (Some w)
    then have "w \<in> set ws" "prefix w s" by (auto simp: find_Some_iff)
    then have "b \<in> set (drop (length w) s)" using "1.prems" by (auto simp: prefix_def)
    then show ?thesis using 1 Some by (simp add: trim_front.simps)
  qed
qed

lemma str_trim_keeps: "b \<in> set s \<Longrightarrow> \<forall>w \<in> set white_space. b \<notin> set w \<Longrightarrow> b \<in> set (str_trim s)"
  by (simp add: str_trim_def trim_front_keeps)

end
