(* ===== verification/Acl.thy ===== *)
theory Acl
  imports Sub_Domains Socks5 Rust_Trim
begin

text \<open>
  Access control lists, \<open>shadowsocks-service/src/acl/mod.rs\<close>: the rules of a list, the parser of an ACL
  file and the decisions. Regular expressions, ranges of networks, the parser of networks and addresses and
  the conversion of international names are external and enter as a record of operations.
\<close>

section \<open>External operations\<close>

text \<open>
  \<open>net_range\<close>: \<open>IpRange\<close> for one address family, with networks as address and prefix length.
  \<open>rx_equiv\<close>: the captures of the expression \<open>TREE_SET_RULE_EQUIV\<close>, which recognises rules that a tree or a set
  can hold. \<open>rx_compile\<close>: \<open>RegexSetBuilder\<close>, with the text of its error.
\<close>

record ('p, 'ip) range_ops =
  range_new :: 'p
  range_add :: "('ip \<times> nat) \<Rightarrow> 'p \<Rightarrow> 'p"
  range_simplify :: "'p \<Rightarrow> 'p"
  range_contains :: "'p \<Rightarrow> 'ip \<Rightarrow> bool"
  range_is_empty :: "'p \<Rightarrow> bool"

datatype ip_net = Net4 ipv4 nat | Net6 ipv6 nat

record ('p4, 'p6, 'r) acl_ops =
  range4 :: "('p4, ipv4) range_ops"
  range6 :: "('p6, ipv6) range_ops"
  parse_net :: "rstring \<Rightarrow> ip_net option"
  parse_ip :: "rstring \<Rightarrow> ip_addr option"
  rx_equiv :: "rstring \<Rightarrow> (byte list option \<times> byte list option) option"
  rx_compile :: "rstring list \<Rightarrow> ('r, rstring) res"
  rx_is_match :: "'r \<Rightarrow> byte list \<Rightarrow> bool"
  rx_is_empty :: "'r \<Rightarrow> bool"
  domain_to_ascii :: "rstring \<Rightarrow> rstring option"

section \<open>Rules\<close>

datatype acl_mode = BlackList | WhiteList

record ('p4, 'p6, 'r) rules =
  ru_ipv4 :: 'p4
  ru_ipv6 :: 'p6
  rule_regex :: 'r
  rule_set :: "rstring list"
  rule_tree :: domain_map

definition rules_new :: "('p4, 'p6, 'r) acl_ops \<Rightarrow> 'p4 \<Rightarrow> 'p6 \<Rightarrow> 'r \<Rightarrow> rstring list \<Rightarrow> domain_map \<Rightarrow> ('p4, 'p6, 'r) rules" where
  "rules_new A p4 p6 rx st tree =
     \<lparr>ru_ipv4 = range_simplify (range4 A) p4, ru_ipv6 = range_simplify (range6 A) p6, rule_regex = rx,
      rule_set = st, rule_tree = tree\<rparr>"

fun check_ip_matched :: "('p4, 'p6, 'r) acl_ops \<Rightarrow> ('p4, 'p6, 'r) rules \<Rightarrow> ip_addr \<Rightarrow> bool" where
  "check_ip_matched A ru (IpV4 v4) =
     (if range_contains (range4 A) (ru_ipv4 ru) v4 then True
      else range_contains (range6 A) (ru_ipv6 ru) (to_ipv6_mapped v4))"
| "check_ip_matched A ru (IpV6 v6) =
     (if range_contains (range6 A) (ru_ipv6 ru) v6 then True
      else (case to_ipv4_mapped v6 of
              Some mapped_ipv4 \<Rightarrow> range_contains (range4 A) (ru_ipv4 ru) mapped_ipv4
            | None \<Rightarrow> False))"

definition check_host_matched :: "('p4, 'p6, 'r) acl_ops \<Rightarrow> ('p4, 'p6, 'r) rules \<Rightarrow> rstring \<Rightarrow> bool" where
  "check_host_matched A ru host =
     (let host = trim_end_dots host
      in host \<in> set (rule_set ru) \<or> tree_contains host (rule_tree ru) \<or> rx_is_match A (rule_regex ru) host)"

fun check_address_matched :: "('p4, 'p6, 'r) acl_ops \<Rightarrow> ('p4, 'p6, 'r) rules \<Rightarrow> address \<Rightarrow> bool" where
  "check_address_matched A ru (SocketAddress saddr) = check_ip_matched A ru (sock_ip saddr)"
| "check_address_matched A ru (DomainNameAddress domain port) = check_host_matched A ru domain"

definition rules_is_ip_empty :: "('p4, 'p6, 'r) acl_ops \<Rightarrow> ('p4, 'p6, 'r) rules \<Rightarrow> bool" where
  "rules_is_ip_empty A ru \<longleftrightarrow> range_is_empty (range4 A) (ru_ipv4 ru) \<and> range_is_empty (range6 A) (ru_ipv6 ru)"

definition rules_is_host_empty :: "('p4, 'p6, 'r) acl_ops \<Rightarrow> ('p4, 'p6, 'r) rules \<Rightarrow> bool" where
  "rules_is_host_empty A ru \<longleftrightarrow> rule_set ru = [] \<and> tree_is_empty (rule_tree ru) \<and> rx_is_empty A (rule_regex ru)"

section \<open>Rules while a file is read\<close>

record ('p4, 'p6) parsing_rules =
  pr_name :: rstring
  pr_ipv4 :: 'p4
  pr_ipv6 :: 'p6
  rules_regex :: "rstring list"
  rules_set :: "rstring list"
  rules_tree :: domain_map

definition parsing_rules_new :: "('p4, 'p6, 'r) acl_ops \<Rightarrow> rstring \<Rightarrow> ('p4, 'p6) parsing_rules" where
  "parsing_rules_new A name =
     \<lparr>pr_name = name, pr_ipv4 = range_new (range4 A), pr_ipv6 = range_new (range6 A), rules_regex = [],
      rules_set = [], rules_tree = sub_domains_new\<rparr>"

definition add_ipv4_rule :: "('p4, 'p6, 'r) acl_ops \<Rightarrow> ipv4 \<Rightarrow> nat \<Rightarrow> ('p4, 'p6) parsing_rules \<Rightarrow> ('p4, 'p6) parsing_rules" where
  "add_ipv4_rule A ip n pr = pr\<lparr>pr_ipv4 := range_add (range4 A) (ip, n) (pr_ipv4 pr)\<rparr>"

definition add_ipv6_rule :: "('p4, 'p6, 'r) acl_ops \<Rightarrow> ipv6 \<Rightarrow> nat \<Rightarrow> ('p4, 'p6) parsing_rules \<Rightarrow> ('p4, 'p6) parsing_rules" where
  "add_ipv6_rule A ip n pr = pr\<lparr>pr_ipv6 := range_add (range6 A) (ip, n) (pr_ipv6 pr)\<rparr>"

definition check_is_ascii :: "rstring \<Rightarrow> rstring \<Rightarrow> (rstring, io_error) res" where
  "check_is_ascii name s =
     (if is_ascii s then Ok (trim_end_dots s)
      else Err (Io_Error OtherKind (name @ str '' parsing error: Unicode not allowed here `'' @ s @ str ''`'')))"

definition add_set_rule :: "rstring \<Rightarrow> ('p4, 'p6) parsing_rules \<Rightarrow> (('p4, 'p6) parsing_rules, io_error) res" where
  "add_set_rule rule pr =
     bind_res (check_is_ascii (pr_name pr) rule) (\<lambda>s. Ok (pr\<lparr>rules_set := List.insert (to_ascii_lowercase s) (rules_set pr)\<rparr>))"

definition add_tree_rule :: "rstring \<Rightarrow> ('p4, 'p6) parsing_rules \<Rightarrow> (('p4, 'p6) parsing_rules, io_error) res" where
  "add_tree_rule rule pr =
     bind_res (check_is_ascii (pr_name pr) rule) (\<lambda>s. Ok (pr\<lparr>rules_tree := tree_insert s (rules_tree pr)\<rparr>))"

text \<open>\<open>replace\<close> of an escaped dot by a dot.\<close>

fun unescape_dots :: "rstring \<Rightarrow> rstring" where
  "unescape_dots (a # b # s) = (if a = 0x5C \<and> b = dot then dot # unescape_dots s else a # unescape_dots (b # s))"
| "unescape_dots s = s"

definition push_regex :: "rstring \<Rightarrow> ('p4, 'p6) parsing_rules \<Rightarrow> ('p4, 'p6) parsing_rules" where
  "push_regex rule pr = pr\<lparr>rules_regex := rules_regex pr @ [to_ascii_lowercase rule]\<rparr>"

definition add_regex_rule :: "('p4, 'p6, 'r) acl_ops \<Rightarrow> rstring \<Rightarrow> ('p4, 'p6) parsing_rules \<Rightarrow> ('p4, 'p6) parsing_rules" where
  "add_regex_rule A rule pr =
     (case rx_equiv A rule of
        Some (Some tree_rule, _) \<Rightarrow>
          if valid_utf8 tree_rule
          then (case add_tree_rule (unescape_dots tree_rule) pr of Ok pr \<Rightarrow> pr | _ \<Rightarrow> push_regex rule pr)
          else push_regex rule pr
      | Some (None, Some set_rule) \<Rightarrow>
          if valid_utf8 set_rule
          then (case add_set_rule (unescape_dots set_rule) pr of Ok pr \<Rightarrow> pr | _ \<Rightarrow> push_regex rule pr)
          else push_regex rule pr
      | _ \<Rightarrow> push_regex rule pr)"

definition into_rules :: "('p4, 'p6, 'r) acl_ops \<Rightarrow> ('p4, 'p6) parsing_rules \<Rightarrow> (('p4, 'p6, 'r) rules, io_error) res" where
  "into_rules A pr =
     (case rx_compile A (rules_regex pr) of
        Ok rx \<Rightarrow> Ok (rules_new A (pr_ipv4 pr) (pr_ipv6 pr) rx (rules_set pr) (rules_tree pr))
      | Err e \<Rightarrow> Err (Io_Error OtherKind (pr_name pr @ str '' regex error: '' @ e))
      | Panic \<Rightarrow> Panic)"

section \<open>Reading a file\<close>

datatype acl_section = OutboundBlock | OutboundAllow | BypassList | ProxyList

record ('p4, 'p6) acl_parser =
  ap_mode :: acl_mode
  ap_outbound_mode :: acl_mode
  ap_lists :: "acl_section \<Rightarrow> ('p4, 'p6) parsing_rules"
  ap_cur :: acl_section

definition acl_parser_new :: "('p4, 'p6, 'r) acl_ops \<Rightarrow> ('p4, 'p6) acl_parser" where
  "acl_parser_new A =
     \<lparr>ap_mode = BlackList, ap_outbound_mode = BlackList,
      ap_lists = (\<lambda>l. parsing_rules_new A (case l of
         OutboundBlock \<Rightarrow> str ''[outbound_block_list]''
       | OutboundAllow \<Rightarrow> str ''[outbound_allow_list]''
       | BypassList \<Rightarrow> str ''[black_list] or [bypass_list]''
       | ProxyList \<Rightarrow> str ''[white_list] or [proxy_list]'')),
      ap_cur = BypassList\<rparr>"

definition update_cur ::
  "(('p4, 'p6) parsing_rules \<Rightarrow> ('p4, 'p6) parsing_rules) \<Rightarrow> ('p4, 'p6) acl_parser \<Rightarrow> ('p4, 'p6) acl_parser" where
  "update_cur f st = st\<lparr>ap_lists := (ap_lists st)(ap_cur st := f (ap_lists st (ap_cur st)))\<rparr>"

definition try_cur ::
  "(('p4, 'p6) parsing_rules \<Rightarrow> (('p4, 'p6) parsing_rules, io_error) res) \<Rightarrow> ('p4, 'p6) acl_parser
     \<Rightarrow> (('p4, 'p6) acl_parser, io_error) res" where
  "try_cur f st = bind_res (f (ap_lists st (ap_cur st))) (\<lambda>pr. Ok (update_cur (\<lambda>_. pr) st))"

text \<open>What the section lines do to the parser.\<close>

definition section_line :: "rstring \<Rightarrow> (('p4, 'p6) acl_parser \<Rightarrow> ('p4, 'p6) acl_parser) option" where
  "section_line line =
     (if line = str ''[reject_all]'' \<or> line = str ''[bypass_all]'' then Some (\<lambda>st. st\<lparr>ap_mode := WhiteList\<rparr>)
      else if line = str ''[accept_all]'' \<or> line = str ''[proxy_all]'' then Some (\<lambda>st. st\<lparr>ap_mode := BlackList\<rparr>)
      else if line = str ''[outbound_block_all]'' then Some (\<lambda>st. st\<lparr>ap_outbound_mode := WhiteList\<rparr>)
      else if line = str ''[outbound_allow_all]'' then Some (\<lambda>st. st\<lparr>ap_outbound_mode := BlackList\<rparr>)
      else if line = str ''[outbound_block_list]'' then Some (\<lambda>st. st\<lparr>ap_cur := OutboundBlock\<rparr>)
      else if line = str ''[outbound_allow_list]'' then Some (\<lambda>st. st\<lparr>ap_cur := OutboundAllow\<rparr>)
      else if line = str ''[black_list]'' \<or> line = str ''[bypass_list]'' then Some (\<lambda>st. st\<lparr>ap_cur := BypassList\<rparr>)
      else if line = str ''[white_list]'' \<or> line = str ''[proxy_list]'' then Some (\<lambda>st. st\<lparr>ap_cur := ProxyList\<rparr>)
      else None)"

definition address_line :: "('p4, 'p6, 'r) acl_ops \<Rightarrow> rstring \<Rightarrow> ('p4, 'p6) acl_parser \<Rightarrow> ('p4, 'p6) acl_parser" where
  "address_line A line st =
     (case parse_net A line of
        Some (Net4 v4 n) \<Rightarrow> update_cur (add_ipv4_rule A v4 n) st
      | Some (Net6 v6 n) \<Rightarrow> update_cur (add_ipv6_rule A v6 n) st
      | None \<Rightarrow>
          (case parse_ip A line of
             Some (IpV4 v4) \<Rightarrow> update_cur (add_ipv4_rule A v4 32) st
           | Some (IpV6 v6) \<Rightarrow> update_cur (add_ipv6_rule A v6 128) st
           | None \<Rightarrow> update_cur (add_regex_rule A line) st))"

definition acl_line ::
  "('p4, 'p6, 'r) acl_ops \<Rightarrow> rstring \<Rightarrow> ('p4, 'p6) acl_parser \<Rightarrow> (('p4, 'p6) acl_parser, io_error) res" where
  "acl_line A line st =
     (if line = [] then Ok st
      else if take 1 line = str ''#'' then Ok st
      else
        let line = str_trim line in
        if \<not> is_ascii line then Ok st
        else (case strip_prefix (str ''||'') line of
                Some rule \<Rightarrow> try_cur (add_tree_rule rule) st
              | None \<Rightarrow>
                  (case strip_prefix (str ''|'') line of
                     Some rule \<Rightarrow> try_cur (add_set_rule rule) st
                   | None \<Rightarrow>
                       (case section_line line of
                          Some f \<Rightarrow> Ok (f st)
                        | None \<Rightarrow> Ok (address_line A line st)))))"

fun acl_lines ::
  "('p4, 'p6, 'r) acl_ops \<Rightarrow> (rstring, io_error) res list \<Rightarrow> ('p4, 'p6) acl_parser \<Rightarrow> (('p4, 'p6) acl_parser, io_error) res" where
  "acl_lines A [] st = Ok st"
| "acl_lines A (l # ls) st = bind_res l (\<lambda>line. bind_res (acl_line A line st) (acl_lines A ls))"

record ('p4, 'p6, 'r) access_control =
  outbound_block :: "('p4, 'p6, 'r) rules"
  outbound_allow :: "('p4, 'p6, 'r) rules"
  black_list :: "('p4, 'p6, 'r) rules"
  white_list :: "('p4, 'p6, 'r) rules"
  ac_mode :: acl_mode
  ac_outbound_mode :: acl_mode
  ac_file_path :: rstring

definition load_from_lines ::
  "('p4, 'p6, 'r) acl_ops \<Rightarrow> rstring \<Rightarrow> (rstring, io_error) res list \<Rightarrow> (('p4, 'p6, 'r) access_control, io_error) res" where
  "load_from_lines A path ls =
     bind_res (acl_lines A ls (acl_parser_new A)) (\<lambda>st.
     bind_res (into_rules A (ap_lists st OutboundBlock)) (\<lambda>ob.
     bind_res (into_rules A (ap_lists st OutboundAllow)) (\<lambda>oa.
     bind_res (into_rules A (ap_lists st BypassList)) (\<lambda>bl.
     bind_res (into_rules A (ap_lists st ProxyList)) (\<lambda>wl.
     Ok \<lparr>outbound_block = ob, outbound_allow = oa, black_list = bl, white_list = wl,
         ac_mode = ap_mode st, ac_outbound_mode = ap_outbound_mode st, ac_file_path = path\<rparr>)))))"

section \<open>Decisions\<close>

definition convert_to_ascii :: "('p4, 'p6, 'r) acl_ops \<Rightarrow> rstring \<Rightarrow> rstring" where
  "convert_to_ascii A host = (case domain_to_ascii A host of Some h \<Rightarrow> h | None \<Rightarrow> host)"

definition check_ascii_host_in_proxy_list ::
  "('p4, 'p6, 'r) acl_ops \<Rightarrow> ('p4, 'p6, 'r) access_control \<Rightarrow> rstring \<Rightarrow> bool option" where
  "check_ascii_host_in_proxy_list A acl host =
     (if check_host_matched A (white_list acl) host then Some True
      else if check_host_matched A (black_list acl) host then Some False
      else None)"

definition check_host_in_proxy_list ::
  "('p4, 'p6, 'r) acl_ops \<Rightarrow> ('p4, 'p6, 'r) access_control \<Rightarrow> rstring \<Rightarrow> bool option" where
  "check_host_in_proxy_list A acl host = check_ascii_host_in_proxy_list A acl (convert_to_ascii A host)"

definition acl_is_ip_empty :: "('p4, 'p6, 'r) acl_ops \<Rightarrow> ('p4, 'p6, 'r) access_control \<Rightarrow> bool" where
  "acl_is_ip_empty A acl \<longleftrightarrow> rules_is_ip_empty A (black_list acl) \<and> rules_is_ip_empty A (white_list acl)"

definition acl_is_host_empty :: "('p4, 'p6, 'r) acl_ops \<Rightarrow> ('p4, 'p6, 'r) access_control \<Rightarrow> bool" where
  "acl_is_host_empty A acl \<longleftrightarrow> rules_is_host_empty A (black_list acl) \<and> rules_is_host_empty A (white_list acl)"

definition is_default_in_proxy_list :: "('p4, 'p6, 'r) access_control \<Rightarrow> bool" where
  "is_default_in_proxy_list acl = (case ac_mode acl of BlackList \<Rightarrow> True | WhiteList \<Rightarrow> False)"

definition check_ip_in_proxy_list :: "('p4, 'p6, 'r) acl_ops \<Rightarrow> ('p4, 'p6, 'r) access_control \<Rightarrow> ip_addr \<Rightarrow> bool" where
  "check_ip_in_proxy_list A acl ip =
     (if check_ip_matched A (black_list acl) ip then False
      else if check_ip_matched A (white_list acl) ip then True
      else is_default_in_proxy_list acl)"

text \<open>\<open>resolve\<close> is \<open>dns_resolve\<close>, \<open>None\<close> when it fails.\<close>

fun check_target_bypassed ::
  "('p4, 'p6, 'r) acl_ops \<Rightarrow> (rstring \<Rightarrow> u16 \<Rightarrow> socket_addr list option) \<Rightarrow> ('p4, 'p6, 'r) access_control \<Rightarrow> address \<Rightarrow> bool" where
  "check_target_bypassed A resolve acl (SocketAddress addr) = (\<not> check_ip_in_proxy_list A acl (sock_ip addr))"
| "check_target_bypassed A resolve acl (DomainNameAddress host port) =
     (case check_host_in_proxy_list A acl host of
        Some v \<Rightarrow> \<not> v
      | None \<Rightarrow>
          let (check_list, bypass_if_matched) =
            (case ac_mode acl of BlackList \<Rightarrow> (black_list acl, True) | WhiteList \<Rightarrow> (white_list acl, False)) in
          if rules_is_ip_empty A check_list then \<not> is_default_in_proxy_list acl
          else (case resolve host port of
                  Some vaddr \<Rightarrow>
                    if list_ex (\<lambda>addr. check_ip_matched A check_list (sock_ip addr)) vaddr then bypass_if_matched
                    else \<not> is_default_in_proxy_list acl
                | None \<Rightarrow> \<not> is_default_in_proxy_list acl))"

definition check_client_blocked :: "('p4, 'p6, 'r) acl_ops \<Rightarrow> ('p4, 'p6, 'r) access_control \<Rightarrow> socket_addr \<Rightarrow> bool" where
  "check_client_blocked A acl addr =
     (case ac_mode acl of
        BlackList \<Rightarrow> check_ip_matched A (black_list acl) (sock_ip addr)
      | WhiteList \<Rightarrow> \<not> check_ip_matched A (white_list acl) (sock_ip addr))"

definition is_outbound_default_blocked :: "('p4, 'p6, 'r) access_control \<Rightarrow> bool" where
  "is_outbound_default_blocked acl = (case ac_outbound_mode acl of BlackList \<Rightarrow> False | WhiteList \<Rightarrow> True)"

definition check_outbound_ip_blocked :: "('p4, 'p6, 'r) acl_ops \<Rightarrow> ('p4, 'p6, 'r) access_control \<Rightarrow> ip_addr \<Rightarrow> bool" where
  "check_outbound_ip_blocked A acl ip =
     (if check_ip_matched A (outbound_block acl) ip then True
      else if check_ip_matched A (outbound_allow acl) ip then False
      else is_outbound_default_blocked acl)"

fun check_outbound_blocked ::
  "('p4, 'p6, 'r) acl_ops \<Rightarrow> (rstring \<Rightarrow> u16 \<Rightarrow> socket_addr list option) \<Rightarrow> ('p4, 'p6, 'r) access_control \<Rightarrow> address \<Rightarrow> bool" where
  "check_outbound_blocked A resolve acl (SocketAddress saddr) = check_outbound_ip_blocked A acl (sock_ip saddr)"
| "check_outbound_blocked A resolve acl (DomainNameAddress host port) =
     (let ascii_host = convert_to_ascii A host in
      if check_host_matched A (outbound_block acl) ascii_host then True
      else if check_host_matched A (outbound_allow acl) ascii_host then False
      else
        let (check_rule, block_if_matched) =
          (case ac_outbound_mode acl of BlackList \<Rightarrow> (outbound_block acl, True) | WhiteList \<Rightarrow> (outbound_allow acl, False)) in
        if rules_is_ip_empty A check_rule then is_outbound_default_blocked acl
        else (case resolve host port of
                Some vaddr \<Rightarrow>
                  if list_ex (\<lambda>addr. check_ip_matched A check_rule (sock_ip addr)) vaddr then block_if_matched
                  else is_outbound_default_blocked acl
              | None \<Rightarrow> is_outbound_default_blocked acl))"

section \<open>The lists follow the file\<close>

text \<open>An ACL file as a list of rules, each with the list it belongs to.\<close>

datatype acl_rule = TreeRule rstring | SetRule rstring | RegexRule rstring | NetRule (un_NetRule: ip_net)

definition regex_rule :: "('p4, 'p6, 'r) acl_ops \<Rightarrow> rstring \<Rightarrow> acl_rule" where
  "regex_rule A line =
     (case rx_equiv A line of
        Some (Some t, _) \<Rightarrow> if valid_utf8 t \<and> is_ascii (unescape_dots t) then TreeRule (unescape_dots t) else RegexRule line
      | Some (None, Some t) \<Rightarrow> if valid_utf8 t \<and> is_ascii (unescape_dots t) then SetRule (unescape_dots t) else RegexRule line
      | _ \<Rightarrow> RegexRule line)"

definition line_rule :: "('p4, 'p6, 'r) acl_ops \<Rightarrow> rstring \<Rightarrow> acl_rule" where
  "line_rule A line =
     (case parse_net A line of
        Some n \<Rightarrow> NetRule n
      | None \<Rightarrow>
          (case parse_ip A line of
             Some (IpV4 v4) \<Rightarrow> NetRule (Net4 v4 32)
           | Some (IpV6 v6) \<Rightarrow> NetRule (Net6 v6 128)
           | None \<Rightarrow> regex_rule A line))"

definition section_after :: "rstring \<Rightarrow> acl_section \<Rightarrow> acl_section" where
  "section_after line cur =
     (if line = str ''[outbound_block_list]'' then OutboundBlock
      else if line = str ''[outbound_allow_list]'' then OutboundAllow
      else if line = str ''[black_list]'' \<or> line = str ''[bypass_list]'' then BypassList
      else if line = str ''[white_list]'' \<or> line = str ''[proxy_list]'' then ProxyList
      else cur)"

text \<open>The lines that switch mode or list, the only ones in brackets.\<close>

definition is_section :: "rstring \<Rightarrow> bool" where
  "is_section line \<longleftrightarrow>
     line \<in> str ` {''[reject_all]'', ''[bypass_all]'', ''[accept_all]'', ''[proxy_all]'', ''[outbound_block_all]'', ''[outbound_allow_all]'',
       ''[outbound_block_list]'', ''[outbound_allow_list]'', ''[black_list]'', ''[bypass_list]'', ''[white_list]'', ''[proxy_list]''}"

definition rule_of_line :: "('p4, 'p6, 'r) acl_ops \<Rightarrow> rstring \<Rightarrow> acl_rule option" where
  "rule_of_line A line =
     (if line = [] \<or> take 1 line = str ''#'' \<or> \<not> is_ascii (str_trim line) then None
      else (case strip_prefix (str ''||'') (str_trim line) of
              Some r \<Rightarrow> Some (TreeRule r)
            | None \<Rightarrow>
                (case strip_prefix (str ''|'') (str_trim line) of
                   Some r \<Rightarrow> Some (SetRule r)
                 | None \<Rightarrow> if is_section (str_trim line) then None else Some (line_rule A (str_trim line)))))"

definition switch :: "rstring \<Rightarrow> acl_section \<Rightarrow> acl_section" where
  "switch line cur = (if line = [] \<or> take 1 line = str ''#'' then cur else section_after (str_trim line) cur)"

fun file_rules :: "('p4, 'p6, 'r) acl_ops \<Rightarrow> rstring list \<Rightarrow> acl_section \<Rightarrow> (acl_section \<times> acl_rule) list" where
  "file_rules A [] cur = []"
| "file_rules A (line # ls) cur =
     (case rule_of_line A line of
        Some r \<Rightarrow> (cur, r) # file_rules A ls cur
      | None \<Rightarrow> file_rules A ls (switch line cur))"

text \<open>The laws of the external operations: a range contains what one of its networks contains, and a set of
  expressions matches what one of them matches.\<close>

definition acl_laws ::
  "('p4, 'p6, 'r) acl_ops \<Rightarrow> (ipv4 \<times> nat \<Rightarrow> ipv4 \<Rightarrow> bool) \<Rightarrow> (ipv6 \<times> nat \<Rightarrow> ipv6 \<Rightarrow> bool) \<Rightarrow> (rstring \<Rightarrow> byte list \<Rightarrow> bool) \<Rightarrow> bool" where
  "acl_laws A in4 in6 rx \<longleftrightarrow>
     (\<forall>nets ip. range_contains (range4 A) (range_simplify (range4 A) (fold (range_add (range4 A)) nets (range_new (range4 A)))) ip
        = list_ex (\<lambda>n. in4 n ip) nets)
     \<and> (\<forall>nets ip. range_contains (range6 A) (range_simplify (range6 A) (fold (range_add (range6 A)) nets (range_new (range6 A)))) ip
        = list_ex (\<lambda>n. in6 n ip) nets)
     \<and> (\<forall>ps r s. rx_compile A ps = Ok r \<longrightarrow> rx_is_match A r s = list_ex (\<lambda>p. rx p s) ps)"

fun rule_matches_ip :: "(ipv4 \<times> nat \<Rightarrow> ipv4 \<Rightarrow> bool) \<Rightarrow> (ipv6 \<times> nat \<Rightarrow> ipv6 \<Rightarrow> bool) \<Rightarrow> acl_rule \<Rightarrow> ip_addr \<Rightarrow> bool" where
  "rule_matches_ip in4 in6 (NetRule (Net4 a n)) (IpV4 ip) = in4 (a, n) ip"
| "rule_matches_ip in4 in6 (NetRule (Net4 a n)) (IpV6 ip) = (case to_ipv4_mapped ip of Some m \<Rightarrow> in4 (a, n) m | None \<Rightarrow> False)"
| "rule_matches_ip in4 in6 (NetRule (Net6 a n)) (IpV4 ip) = in6 (a, n) (to_ipv6_mapped ip)"
| "rule_matches_ip in4 in6 (NetRule (Net6 a n)) (IpV6 ip) = in6 (a, n) ip"
| "rule_matches_ip in4 in6 _ ip = False"

fun rule_matches_host :: "(rstring \<Rightarrow> byte list \<Rightarrow> bool) \<Rightarrow> acl_rule \<Rightarrow> rstring \<Rightarrow> bool" where
  "rule_matches_host rx (TreeRule d) host = below host (trim_end_dots d)"
| "rule_matches_host rx (SetRule d) host = (host = to_ascii_lowercase (trim_end_dots d))"
| "rule_matches_host rx (RegexRule p) host = rx (to_ascii_lowercase p) host"
| "rule_matches_host rx (NetRule n) host = False"

fun rule_matches ::
  "(ipv4 \<times> nat \<Rightarrow> ipv4 \<Rightarrow> bool) \<Rightarrow> (ipv6 \<times> nat \<Rightarrow> ipv6 \<Rightarrow> bool) \<Rightarrow> (rstring \<Rightarrow> byte list \<Rightarrow> bool) \<Rightarrow> acl_rule \<Rightarrow> address \<Rightarrow> bool" where
  "rule_matches in4 in6 rx r (SocketAddress sa) = rule_matches_ip in4 in6 r (sock_ip sa)"
| "rule_matches in4 in6 rx r (DomainNameAddress host port) = rule_matches_host rx r (trim_end_dots host)"

fun acl_list :: "('p4, 'p6, 'r) access_control \<Rightarrow> acl_section \<Rightarrow> ('p4, 'p6, 'r) rules" where
  "acl_list acl OutboundBlock = outbound_block acl"
| "acl_list acl OutboundAllow = outbound_allow acl"
| "acl_list acl BypassList = black_list acl"
| "acl_list acl ProxyList = white_list acl"

text \<open>The rules that a list under construction holds.\<close>

fun net4_of :: "acl_rule \<Rightarrow> (ipv4 \<times> nat) list" where
  "net4_of (NetRule (Net4 a n)) = [(a, n)]"
| "net4_of _ = []"

fun net6_of :: "acl_rule \<Rightarrow> (ipv6 \<times> nat) list" where
  "net6_of (NetRule (Net6 a n)) = [(a, n)]"
| "net6_of _ = []"

fun regex_of :: "acl_rule \<Rightarrow> rstring list" where
  "regex_of (RegexRule p) = [to_ascii_lowercase p]"
| "regex_of _ = []"

definition holds_rules :: "('p4, 'p6, 'r) acl_ops \<Rightarrow> acl_rule list \<Rightarrow> ('p4, 'p6) parsing_rules \<Rightarrow> bool" where
  "holds_rules A rs pr \<longleftrightarrow>
     pr_ipv4 pr = fold (range_add (range4 A)) (concat (map net4_of rs)) (range_new (range4 A))
     \<and> pr_ipv6 pr = fold (range_add (range6 A)) (concat (map net6_of rs)) (range_new (range6 A))
     \<and> rules_regex pr = concat (map regex_of rs)
     \<and> (\<forall>host. host \<in> set (rules_set pr) \<longleftrightarrow> (\<exists>d. SetRule d \<in> set rs \<and> host = to_ascii_lowercase (trim_end_dots d)))
     \<and> (\<forall>host. tree_contains host (rules_tree pr) \<longleftrightarrow> (\<exists>d. TreeRule d \<in> set rs \<and> below host (trim_end_dots d)))"

lemma holds_rules_new: "holds_rules A [] (parsing_rules_new A name)"
  by (simp add: holds_rules_def parsing_rules_new_def)

lemma holds_tree_rule: "add_tree_rule rule pr = Ok pr' \<Longrightarrow> holds_rules A rs pr \<Longrightarrow> holds_rules A (rs @ [TreeRule rule]) pr'"
  by (auto simp: add_tree_rule_def check_is_ascii_def holds_rules_def tree_contains_insert split: if_splits)

lemma holds_set_rule: "add_set_rule rule pr = Ok pr' \<Longrightarrow> holds_rules A rs pr \<Longrightarrow> holds_rules A (rs @ [SetRule rule]) pr'"
  by (auto simp: add_set_rule_def check_is_ascii_def holds_rules_def split: if_splits)

lemma holds_push_regex: "holds_rules A rs pr \<Longrightarrow> holds_rules A (rs @ [RegexRule rule]) (push_regex rule pr)"
  by (auto simp: push_regex_def holds_rules_def)

lemma add_rule_is_ascii:
  "(\<exists>pr'. add_tree_rule rule pr = Ok pr') \<longleftrightarrow> is_ascii rule" "(\<exists>pr'. add_set_rule rule pr = Ok pr') \<longleftrightarrow> is_ascii rule"
  by (auto simp: add_tree_rule_def add_set_rule_def check_is_ascii_def)

lemma holds_regex_rule: "holds_rules A rs pr \<Longrightarrow> holds_rules A (rs @ [regex_rule A line]) (add_regex_rule A line pr)"
  using add_rule_is_ascii [of _ pr]
  by (auto simp: add_regex_rule_def regex_rule_def holds_push_regex split: option.splits res.splits prod.splits
      intro: holds_tree_rule holds_set_rule) (metis res.distinct)+

lemma holds_ip_rule:
  "holds_rules A rs pr \<Longrightarrow> holds_rules A (rs @ [NetRule (Net4 a n)]) (add_ipv4_rule A a n pr)"
  "holds_rules A rs pr \<Longrightarrow> holds_rules A (rs @ [NetRule (Net6 b n)]) (add_ipv6_rule A b n pr)"
  by (auto simp: add_ipv4_rule_def add_ipv6_rule_def holds_rules_def)

text \<open>One line of the file.\<close>

lemma str_eq_iff: "str a = str b \<longleftrightarrow> a = b"
proof -
  have "inj (of_char :: char \<Rightarrow> byte)"
  proof (rule injI)
    fix c d assume "(of_char c :: byte) = of_char d"
    then have "(of_nat (of_char c) :: byte) = of_nat (of_char d)" unfolding of_nat_of_char .
    then have "of_char c mod 256 = (of_char d mod 256 :: nat)" by (simp add: word_of_nat_eq_iff take_bit_eq_mod)
    then show "c = d" by simp
  qed
  then show ?thesis unfolding str_def by (rule inj_map_eq_map)
qed

lemma section_line_None: "section_line line = None \<longleftrightarrow> \<not> is_section line"
  unfolding section_line_def is_section_def by simp

lemma section_line_Some:
  assumes "section_line line = Some f"
  shows "ap_cur (f st) = section_after line (ap_cur st) \<and> ap_lists (f st) = ap_lists st"
proof -
  have "is_section line" using section_line_None assms by (metis option.distinct(1))
  then show ?thesis using assms unfolding is_section_def
    by (elim imageE insertE emptyE) (simp_all add: section_line_def section_after_def str_eq_iff, auto)
qed

lemma section_after_other: "\<not> is_section line \<Longrightarrow> section_after line cur = cur"
  unfolding section_after_def is_section_def by simp

lemma is_section_ascii: "is_section line \<Longrightarrow> is_ascii line"
  unfolding is_section_def by (elim imageE insertE emptyE) (simp_all add: is_ascii_def str_def)

lemma try_cur_holds:
  assumes "try_cur f st = Ok st'" "\<And>pr. f (ap_lists st (ap_cur st)) = Ok pr \<Longrightarrow> holds_rules A (R (ap_cur st) @ [r]) pr"
    and "\<forall>l. holds_rules A (R l) (ap_lists st l)"
  shows "ap_cur st' = ap_cur st \<and> (\<forall>l. holds_rules A (R l @ (if l = ap_cur st then [r] else [])) (ap_lists st' l))"
  using assms by (cases "f (ap_lists st (ap_cur st))") (auto simp: try_cur_def update_cur_def)

lemma update_cur_holds:
  assumes "holds_rules A (R (ap_cur st) @ [r]) (f (ap_lists st (ap_cur st)))" "\<forall>l. holds_rules A (R l) (ap_lists st l)"
  shows "ap_cur (update_cur f st) = ap_cur st
    \<and> (\<forall>l. holds_rules A (R l @ (if l = ap_cur st then [r] else [])) (ap_lists (update_cur f st) l))"
  using assms by (simp add: update_cur_def)

lemma address_line_holds:
  fixes A :: "('p4, 'p6, 'r) acl_ops" and st :: "('p4, 'p6) acl_parser"
  assumes "\<forall>l. holds_rules A (R l) (ap_lists st l)"
  shows "ap_cur (address_line A line st) = ap_cur st
    \<and> (\<forall>l. holds_rules A (R l @ (if l = ap_cur st then [line_rule A line] else [])) (ap_lists (address_line A line st) l))"
proof -
  define P where "P st' r \<longleftrightarrow> ap_cur st' = ap_cur st
    \<and> (\<forall>l. holds_rules A (R l @ (if l = ap_cur st then [r] else [])) (ap_lists st' l))" for st' :: "('p4, 'p6) acl_parser" and r
  note h = assms [THEN spec, of "ap_cur st"]
  have "P (update_cur (add_ipv4_rule A a n) st) (NetRule (Net4 a n))" for a n
    unfolding P_def using holds_ip_rule(1) [OF h] by (intro update_cur_holds assms)
  moreover have "P (update_cur (add_ipv6_rule A a n) st) (NetRule (Net6 a n))" for a n
    unfolding P_def using holds_ip_rule(2) [OF h] by (intro update_cur_holds assms)
  moreover have "P (update_cur (add_regex_rule A line) st) (regex_rule A line)"
    unfolding P_def using holds_regex_rule [OF h] by (intro update_cur_holds assms)
  ultimately show ?thesis unfolding P_def [symmetric] address_line_def line_rule_def
    by (auto split: option.splits ip_net.splits ip_addr.splits)
qed

lemma acl_line_holds:
  fixes A :: "('p4, 'p6, 'r) acl_ops"
  assumes "acl_line A line st = Ok st'" "\<forall>l. holds_rules A (R l) (ap_lists st l)"
  shows "case rule_of_line A line of
      Some r \<Rightarrow> ap_cur st' = ap_cur st \<and> (\<forall>l. holds_rules A (R l @ (if l = ap_cur st then [r] else [])) (ap_lists st' l))
    | None \<Rightarrow> ap_cur st' = switch line (ap_cur st) \<and> ap_lists st' = ap_lists st"
proof (cases "line = [] \<or> take 1 line = str ''#'' \<or> \<not> is_ascii (str_trim line)")
  case True
  then show ?thesis using assms(1)
    by (auto simp: acl_line_def rule_of_line_def switch_def section_after_other [OF contrapos_nn [OF _ is_section_ascii]] Let_def split: if_splits)
next
  case False
  note h = assms(2) [THEN spec, of "ap_cur st"]
  show ?thesis
  proof (cases "strip_prefix (str ''||'') (str_trim line)")
    case (Some rule)
    then have "try_cur (add_tree_rule rule) st = Ok st'" using assms(1) False by (simp add: acl_line_def Let_def)
    from try_cur_holds [OF this _ assms(2), of "TreeRule rule"] holds_tree_rule [OF _ h] Some False
    show ?thesis by (simp add: rule_of_line_def)
  next
    case n1: None
    show ?thesis
    proof (cases "strip_prefix (str ''|'') (str_trim line)")
      case (Some rule)
      then have "try_cur (add_set_rule rule) st = Ok st'" using assms(1) False n1 by (simp add: acl_line_def Let_def)
      from try_cur_holds [OF this _ assms(2), of "SetRule rule"] holds_set_rule [OF _ h] Some n1 False
      show ?thesis by (simp add: rule_of_line_def)
    next
      case n2: None
      show ?thesis
      proof (cases "is_section (str_trim line)")
        case True
        then obtain f :: "('p4, 'p6) acl_parser \<Rightarrow> ('p4, 'p6) acl_parser" where f: "section_line (str_trim line) = Some f"
          using section_line_None [of "str_trim line"] by fastforce
        then have "st' = f st" using assms(1) False n1 n2 by (simp add: acl_line_def Let_def)
        then show ?thesis using section_line_Some [OF f, of st] True False n1 n2 by (simp add: rule_of_line_def switch_def)
      next
        case s: False
        then have "(section_line (str_trim line) :: (('p4, 'p6) acl_parser \<Rightarrow> ('p4, 'p6) acl_parser) option) = None"
          by (simp add: section_line_None)
        then have "st' = address_line A (str_trim line) st"
          using assms(1) False n1 n2 by (simp add: acl_line_def Let_def)
        then show ?thesis using address_line_holds [OF assms(2), of "str_trim line"] s False n1 n2 by (simp add: rule_of_line_def)
      qed
    qed
  qed
qed

lemma acl_lines_hold:
  assumes "acl_lines A (map Ok ls) st = Ok st'" "\<forall>l. holds_rules A (R l) (ap_lists st l)"
  shows "holds_rules A (R l @ map snd (filter (\<lambda>(s, r). s = l) (file_rules A ls (ap_cur st)))) (ap_lists st' l)"
  using assms
proof (induction ls arbitrary: st R)
  case (Cons line ls)
  obtain st1 where st1: "acl_line A line st = Ok st1" "acl_lines A (map Ok ls) st1 = Ok st'"
    using Cons.prems(1) by (cases "acl_line A line st") auto
  note step = acl_line_holds [OF st1(1) Cons.prems(2)]
  show ?case
  proof (cases "rule_of_line A line")
    case None
    then show ?thesis using step Cons.IH [OF st1(2), of R] Cons.prems(2) by simp
  next
    case (Some r)
    then show ?thesis
      using step Cons.IH [OF st1(2), of "\<lambda>l. R l @ (if l = ap_cur st then [r] else [])"] by (simp split: if_splits)
  qed
qed simp

text \<open>A finished list matches what one of its rules matches.\<close>

lemma bind_res_Ok: "bind_res m f = Ok b \<longleftrightarrow> (\<exists>a. m = Ok a \<and> f a = Ok b)"
  by (cases m) auto

lemma concat_ex: "list_ex P (concat (map f xs)) \<longleftrightarrow> (\<exists>x \<in> set xs. list_ex P (f x))"
  by (induction xs) auto

lemma rule_matches_ip_nets:
  "rule_matches_ip in4 in6 r (IpV4 v4) \<longleftrightarrow> list_ex (\<lambda>n. in4 n v4) (net4_of r) \<or> list_ex (\<lambda>n. in6 n (to_ipv6_mapped v4)) (net6_of r)"
  "rule_matches_ip in4 in6 r (IpV6 v6) \<longleftrightarrow> list_ex (\<lambda>n. in6 n v6) (net6_of r)
     \<or> (\<exists>m. to_ipv4_mapped v6 = Some m \<and> list_ex (\<lambda>n. in4 n m) (net4_of r))"
  by (cases r; simp; cases "un_NetRule r"; auto split: option.splits)+

lemma rule_matches_host_cases:
  "rule_matches_host rx r host \<longleftrightarrow> (\<exists>d. r = SetRule d \<and> host = to_ascii_lowercase (trim_end_dots d))
     \<or> (\<exists>d. r = TreeRule d \<and> below host (trim_end_dots d)) \<or> list_ex (\<lambda>p. rx p host) (regex_of r)"
  by (cases r) auto

lemma rules_match:
  assumes "acl_laws A in4 in6 rx" "holds_rules A rs pr" "into_rules A pr = Ok ru"
  shows "check_address_matched A ru addr \<longleftrightarrow> (\<exists>r \<in> set rs. rule_matches in4 in6 rx r addr)"
proof -
  obtain re where re: "rx_compile A (concat (map regex_of rs)) = Ok re"
    and ru: "ru = rules_new A (pr_ipv4 pr) (pr_ipv6 pr) re (rules_set pr) (rules_tree pr)"
    using assms(2,3) by (auto simp: into_rules_def holds_rules_def split: res.splits)
  have nets: "range_contains (range4 A) (ru_ipv4 ru) v4 \<longleftrightarrow> (\<exists>r \<in> set rs. list_ex (\<lambda>n. in4 n v4) (net4_of r))"
    "range_contains (range6 A) (ru_ipv6 ru) v6 \<longleftrightarrow> (\<exists>r \<in> set rs. list_ex (\<lambda>n. in6 n v6) (net6_of r))" for v4 v6
    using assms(1,2) by (simp_all add: ru rules_new_def holds_rules_def acl_laws_def concat_ex)
  have regex: "rx_is_match A (rule_regex ru) host \<longleftrightarrow> (\<exists>r \<in> set rs. list_ex (\<lambda>p. rx p host) (regex_of r))" for host
    using assms(1) re by (simp add: ru rules_new_def acl_laws_def concat_ex)
  have names: "host \<in> set (rule_set ru) \<longleftrightarrow> (\<exists>d. SetRule d \<in> set rs \<and> host = to_ascii_lowercase (trim_end_dots d))"
    "tree_contains host (rule_tree ru) \<longleftrightarrow> (\<exists>d. TreeRule d \<in> set rs \<and> below host (trim_end_dots d))" for host
    using assms(2) by (simp_all add: ru rules_new_def holds_rules_def)
  show ?thesis
  proof (cases addr)
    case (SocketAddress sa)
    then show ?thesis
      by (cases "sock_ip sa") (auto simp: nets rule_matches_ip_nets split: option.splits)
  next
    case (DomainNameAddress host port)
    then show ?thesis
      by (auto simp: check_host_matched_def Let_def names regex rule_matches_host_cases)
  qed
qed

lemma acl_list_rules:
  assumes "acl_laws A in4 in6 rx" "load_from_lines A path (map Ok lines) = Ok acl"
  shows "check_address_matched A (acl_list acl l) addr \<longleftrightarrow>
    (\<exists>r. (l, r) \<in> set (file_rules A lines BypassList) \<and> rule_matches in4 in6 rx r addr)"
proof -
  obtain st where st: "acl_lines A (map Ok lines) (acl_parser_new A) = Ok st" "into_rules A (ap_lists st l) = Ok (acl_list acl l)"
    using assms(2) by (cases l) (auto simp: load_from_lines_def bind_res_Ok)
  have "holds_rules A [] (ap_lists (acl_parser_new A) l)" for l by (simp add: acl_parser_new_def holds_rules_new)
  then have "holds_rules A ([] @ map snd (filter (\<lambda>(s, r). s = l) (file_rules A lines (ap_cur (acl_parser_new A))))) (ap_lists st l)"
    by (intro acl_lines_hold [OF st(1)]) simp
  from rules_match [OF assms(1) this st(2)] show ?thesis by (force simp: acl_parser_new_def)
qed



text \<open>
  C24: An IPv4 address and its IPv4-mapped form get the same decision, whichever family the rules are written
  in: as a target of the client, as a client of the server and as an outbound target of the server.
\<close>

theorem acl_mapped_address_same:
  "check_target_bypassed A resolve acl (SocketAddress (V6 (to_ipv6_mapped ip) port f s)) = check_target_bypassed A resolve acl (SocketAddress (V4 ip port))
   \<and> check_client_blocked A acl (V6 (to_ipv6_mapped ip) port f s) = check_client_blocked A acl (V4 ip port)
   \<and> check_outbound_blocked A resolve acl (SocketAddress (V6 (to_ipv6_mapped ip) port f s)) = check_outbound_blocked A resolve acl (SocketAddress (V4 ip port))"
proof -
  have same: "check_ip_matched A ru (IpV6 (to_ipv6_mapped ip)) = check_ip_matched A ru (IpV4 ip)" for ru by auto
  show ?thesis
    by (simp add: check_ip_in_proxy_list_def check_client_blocked_def check_outbound_ip_blocked_def same
        del: check_ip_matched.simps split: acl_mode.splits)
qed

section \<open>Instances\<close>

definition demo_in :: "nat \<Rightarrow> ('a::len word \<times> nat) \<Rightarrow> 'a word \<Rightarrow> bool" where
  "demo_in w net ip \<longleftrightarrow> drop_bit (w - snd net) (fst net) = drop_bit (w - snd net) ip"

definition demo_range :: "nat \<Rightarrow> (('a::len word \<times> nat) list, 'a word) range_ops" where
  "demo_range w = \<lparr>range_new = [], range_add = (\<lambda>n p. n # p), range_simplify = (\<lambda>p. p),
     range_contains = (\<lambda>p ip. list_ex (\<lambda>n. demo_in w n ip) p), range_is_empty = (\<lambda>p. p = [])\<rparr>"

definition demo_rx :: "rstring \<Rightarrow> byte list \<Rightarrow> bool" where
  "demo_rx p s \<longleftrightarrow> take (length p) s = p"

definition demo_acl :: "((ipv4 \<times> nat) list, (ipv6 \<times> nat) list, rstring list) acl_ops" where
  "demo_acl = \<lparr>range4 = demo_range 32, range6 = demo_range 128, parse_net = (\<lambda>s. None),
     parse_ip = (\<lambda>s. if s = str ''::1'' then Some (IpV6 1) else None), rx_equiv = (\<lambda>s. None), rx_compile = Ok,
     rx_is_match = (\<lambda>ps s. list_ex (\<lambda>p. demo_rx p s) ps), rx_is_empty = (\<lambda>ps. ps = []), domain_to_ascii = Some\<rparr>"

lemma demo_acl_laws: "acl_laws demo_acl (demo_in 32) (demo_in 128) demo_rx"
proof -
  have "list_ex P (rev xs) = list_ex P xs" for P and xs :: "'x list" by (induction xs) auto
  then show ?thesis by (auto simp: acl_laws_def demo_acl_def demo_range_def fold_Cons_rev)
qed

abbreviation "demo_acl_lines \<equiv> [str ''# rules'', str ''||b'', str ''  '', str ''[proxy_list]'', str ''|x'']"

lemma demo_acl_loaded: "\<exists>acl. load_from_lines demo_acl [] (map Ok demo_acl_lines) = Ok acl"
proof -
  have "is_ok (load_from_lines demo_acl [] (map Ok demo_acl_lines))" by code_simp
  then show ?thesis by (cases "load_from_lines demo_acl [] (map Ok demo_acl_lines)") simp_all
qed

lemma demo_file_rules:
  "file_rules demo_acl demo_acl_lines BypassList
     = [(BypassList, TreeRule (str ''b'')), (BypassList, RegexRule []), (ProxyList, SetRule (str ''x''))]"
  by code_simp



end
