(* ===== verification/Dns_Lookup.thy ===== *)
theory Dns_Lookup
  imports Net_Addr
begin

text \<open>
  Trying the addresses of a name, \<open>lookup_then!\<close> of \<open>shadowsocks/src/dns_resolver/mod.rs\<close>. The body of the macro is
  an action on a state; the resolved addresses are an argument.
\<close>

text \<open>The addresses of one family, in order, until one succeeds; \<open>None\<close> when there is none.\<close>

fun lookup_each ::
  "(socket_addr \<Rightarrow> 's \<Rightarrow> ('r, io_error) res \<times> 's) \<Rightarrow> socket_addr list \<Rightarrow> 's \<Rightarrow> (socket_addr \<times> 'r, io_error) res option \<times> 's" where
  "lookup_each body [] s = (None, s)"
| "lookup_each body (addr # addrs) s =
     (case body addr s of
        (Ok r, s) \<Rightarrow> (Some (Ok (addr, r)), s)
      | (Panic, s) \<Rightarrow> (Some Panic, s)
      | (Err e, s) \<Rightarrow>
          (case lookup_each body addrs s of
             (None, s) \<Rightarrow> (Some (Err e), s)
           | (Some out, s) \<Rightarrow> (Some out, s)))"

definition lookup_family ::
  "(socket_addr \<Rightarrow> 's \<Rightarrow> ('r, io_error) res \<times> 's) \<Rightarrow> socket_addr list \<Rightarrow> 's \<Rightarrow> (socket_addr \<times> 'r, io_error) res \<times> 's" where
  "lookup_family body addrs s =
     (case lookup_each body addrs s of (None, s) \<Rightarrow> (Panic, s) | (Some out, s) \<Rightarrow> (out, s))"

definition lookup_then ::
  "bool \<Rightarrow> (socket_addr list, io_error) res \<Rightarrow> (socket_addr \<Rightarrow> 's \<Rightarrow> ('r, io_error) res \<times> 's) \<Rightarrow> 's
     \<Rightarrow> (socket_addr \<times> 'r, io_error) res \<times> 's" where
  "lookup_then ipv6_first resolved body s =
     (case resolved of
        Err e \<Rightarrow> (Err e, s)
      | Panic \<Rightarrow> (Panic, s)
      | Ok addrs \<Rightarrow>
          let v4_addrs = filter (\<lambda>a. \<not> is_ipv6 a) addrs; v6_addrs = filter is_ipv6 addrs in
          if v4_addrs = [] \<and> v6_addrs = [] then (Panic, s)
          else if v4_addrs = [] then lookup_family body v6_addrs s
          else if v6_addrs = [] then lookup_family body v4_addrs s
          else if ipv6_first then
            (case lookup_family body v6_addrs s of
               (Err _, s) \<Rightarrow> lookup_family body v4_addrs s
             | out \<Rightarrow> out)
          else
            (case lookup_family body v4_addrs s of
               (Err _, s) \<Rightarrow> lookup_family body v6_addrs s
             | out \<Rightarrow> out))"

section \<open>One pass over the preferred order\<close>

definition lookup_order :: "bool \<Rightarrow> socket_addr list \<Rightarrow> socket_addr list" where
  "lookup_order ipv6_first addrs =
     (let v4_addrs = filter (\<lambda>a. \<not> is_ipv6 a) addrs; v6_addrs = filter is_ipv6 addrs
      in if ipv6_first then v6_addrs @ v4_addrs else v4_addrs @ v6_addrs)"

lemma set_lookup_order [simp]: "set (lookup_order b addrs) = set addrs"
  by (auto simp: lookup_order_def Let_def)

lemma lookup_order_Nil_iff [simp]: "lookup_order b addrs = [] \<longleftrightarrow> addrs = []"
  using set_lookup_order [of b addrs] by (metis set_empty)

lemma lookup_each_append:
  "lookup_each body (xs @ ys) s =
     (case lookup_each body xs s of
        (None, s) \<Rightarrow> lookup_each body ys s
      | (Some (Err e), s) \<Rightarrow> (case lookup_each body ys s of (None, s) \<Rightarrow> (Some (Err e), s) | (Some out, s) \<Rightarrow> (Some out, s))
      | out \<Rightarrow> out)"
  by (induction xs arbitrary: s) (auto split: prod.splits option.splits res.splits)

lemma lookup_each_None_iff: "fst (lookup_each body addrs s) = None \<longleftrightarrow> addrs = []"
  by (cases addrs) (auto split: prod.splits option.splits res.splits)

text \<open>The two passes over the families are one pass over all addresses, the preferred family first.\<close>

lemma lookup_family_append:
  assumes "ys \<noteq> []"
  shows "(case lookup_family body xs s of (Err e, s) \<Rightarrow> lookup_family body ys s | out \<Rightarrow> out)
    = (if xs = [] then (Panic, s) else lookup_family body (xs @ ys) s)"
proof (cases "lookup_each body xs s")
  case (Pair out s')
  show ?thesis
  proof (cases out)
    case None
    then have "xs = []" using Pair lookup_each_None_iff [of body xs s] by simp
    then show ?thesis by (simp add: lookup_family_def)
  next
    case (Some r)
    then have "xs \<noteq> []" using Pair by auto
    moreover have "fst (lookup_each body ys s') \<noteq> None" using assms by (simp add: lookup_each_None_iff)
    ultimately show ?thesis using Some Pair
      by (cases r) (auto simp: lookup_family_def lookup_each_append split: prod.splits option.splits)
  qed
qed

lemma lookup_then_order:
  "lookup_then ipv6_first (Ok addrs) body s = lookup_family body (lookup_order ipv6_first addrs) s"
  using lookup_family_append [of "filter is_ipv6 addrs" body "filter (\<lambda>a. \<not> is_ipv6 a) addrs" s]
    lookup_family_append [of "filter (\<lambda>a. \<not> is_ipv6 a) addrs" body "filter is_ipv6 addrs" s]
  by (auto simp: lookup_then_def lookup_order_def Let_def lookup_family_def split: prod.splits res.splits)

section \<open>What an attempt leaves behind\<close>

text \<open>
  A body whose success relates the states by \<open>succ\<close> and whose failure by \<open>fail\<close>, where failures compose. A
  whole lookup then succeeds at one resolved address, or fails.
\<close>

locale attempts =
  fixes body :: "socket_addr \<Rightarrow> 's \<Rightarrow> ('r, io_error) res \<times> 's"
    and succ :: "socket_addr \<Rightarrow> 's \<Rightarrow> 's \<Rightarrow> bool"
    and fail :: "'s \<Rightarrow> 's \<Rightarrow> bool"
  assumes body_Ok: "body a s = (Ok r, s') \<Longrightarrow> succ a s s'"
    and body_fails: "body a s = (out, s') \<Longrightarrow> \<not> is_ok out \<Longrightarrow> fail s s'"
    and fail_refl: "fail s s"
    and fail_trans: "fail s s' \<Longrightarrow> fail s' s'' \<Longrightarrow> fail s s''"
    and fail_succ: "fail s s' \<Longrightarrow> succ a s' s'' \<Longrightarrow> succ a s s''"
begin

lemma each_outcome:
  assumes "lookup_each body addrs s = (out, s')"
  shows "case out of Some (Ok (a, r)) \<Rightarrow> a \<in> set addrs \<and> succ a s s' | _ \<Rightarrow> fail s s'"
  using assms
proof (induction addrs arbitrary: s out s')
  case Nil
  then show ?case by (auto simp: fail_refl)
next
  case (Cons addr addrs)
  obtain o1 s1 where b: "body addr s = (o1, s1)" by fastforce
  obtain o2 s2 where l: "lookup_each body addrs s1 = (o2, s2)" by fastforce
  from Cons.IH [OF l] show ?case using Cons.prems b l body_Ok [of addr s] body_fails [of addr s o1 s1]
    by (cases o1) (auto split: option.splits res.splits intro: fail_trans fail_succ)
qed

lemma lookup_outcome:
  assumes "lookup_then ipv6_first resolved body s = (out, s')"
  shows "case out of Ok (a, r) \<Rightarrow> (\<exists>addrs. resolved = Ok addrs \<and> a \<in> set addrs) \<and> succ a s s' | _ \<Rightarrow> fail s s'"
proof (cases resolved)
  case (Ok addrs)
  obtain out' where "lookup_each body (lookup_order ipv6_first addrs) s = (out', s')"
    using assms Ok by (auto simp: lookup_then_order lookup_family_def split: prod.splits option.splits)
  from each_outcome [OF this] this show ?thesis using assms Ok
    by (auto simp: lookup_then_order lookup_family_def split: option.splits res.splits)
qed (use assms in \<open>auto simp: lookup_then_def fail_refl\<close>)

end

end
