(* ===== verification/Udp_Server.thy ===== *)
theory Udp_Server
  imports Udp_Socket Packet_Window Acl Dns_Lookup "HOL-Library.Sublist"
begin

text \<open>
  The UDP server of \<open>shadowsocks-service/src/server/udprelay.rs\<close>: associations that relay the packets of one client
  or session to their targets and the answers back, and the server that routes received packets to them. What
  the operating system and the resolver answer are functions of the number of calls made so far; an association
  keeps a log of its calls and of the replies it sent. Built with the AEAD-2022 feature.
\<close>

section \<open>Access control\<close>

definition context_check_outbound_blocked ::
  "('p4, 'p6, 'r) acl_ops \<Rightarrow> (rstring \<Rightarrow> u16 \<Rightarrow> socket_addr list option) \<Rightarrow> ('p4, 'p6, 'r) access_control option \<Rightarrow> address \<Rightarrow> bool" where
  "context_check_outbound_blocked A resolve acl addr =
     (case acl of None \<Rightarrow> False | Some acl \<Rightarrow> check_outbound_blocked A resolve acl addr)"

definition context_check_client_blocked ::
  "('p4, 'p6, 'r) acl_ops \<Rightarrow> ('p4, 'p6, 'r) access_control option \<Rightarrow> socket_addr \<Rightarrow> bool" where
  "context_check_client_blocked A acl addr = (case acl of None \<Rightarrow> False | Some acl \<Rightarrow> check_client_blocked A acl addr)"

section \<open>Associations\<close>

record ip_stack_capabilities =
  support_ipv4 :: bool
  support_ipv6 :: bool
  support_ipv4_mapped_ipv6 :: bool

datatype addr_family = FamilyV4 | FamilyV6

text \<open>Calls on the outbound sockets: creating one, and a datagram with whether \<open>send_to\<close> succeeded.\<close>

datatype out_call = OutConnect addr_family | OutSend socket_addr "byte list" bool

record reply =
  rp_to :: socket_addr
  rp_addr :: address
  rp_control :: udp_control
  rp_data :: "byte list"
  rp_datagram :: "byte list"

text \<open>What sending a reply draws: the clock, random bytes, the padding and the answer of the socket.\<close>

record reply_draw =
  dr_now :: u64
  dr_rnd :: "byte list"
  dr_drawn :: nat
  dr_mem :: "byte list"
  dr_send :: "byte list \<Rightarrow> socket_addr \<Rightarrow> nat io_wait"

record outside =
  connect_any :: "nat \<Rightarrow> addr_family \<Rightarrow> (unit, io_error) res"
  outbound_send :: "nat \<Rightarrow> (nat, io_error) res"
  resolve_name :: "nat \<Rightarrow> rstring \<Rightarrow> u16 \<Rightarrow> (socket_addr list, io_error) res"
  resolve_acl :: "nat \<Rightarrow> rstring \<Rightarrow> u16 \<Rightarrow> socket_addr list option"
  reply_with :: "nat \<Rightarrow> reply_draw"

record ('c, 'u, 'p4, 'p6, 'r) server_env =
  se_cipher :: "'c cipher_ops"
  se_udp :: "'u udp_cipher_ops"
  se_hash :: hash_ops
  se_acl_ops :: "('p4, 'p6, 'r) acl_ops"
  se_acl :: "('p4, 'p6, 'r) access_control option"
  se_ipv6_first :: bool
  se_caps :: ip_stack_capabilities
  se_listener :: proxy_socket
  se_outside :: outside

record client_session =
  sess_id :: u64
  sess_window :: packet_window_filter
  sess_user :: "server_user option"

definition client_session_new :: "u64 \<Rightarrow> client_session" where
  "client_session_new session_id = \<lparr>sess_id = session_id, sess_window = window_new, sess_user = None\<rparr>"

record association =
  ua_peer_addr :: socket_addr
  ua_ipv4_socket :: bool
  ua_ipv6_socket :: bool
  ua_keepalive_flag :: bool
  ua_client_session :: "client_session option"
  ua_server_session_id :: u64
  ua_server_packet_id :: u64
  ua_calls :: "out_call list"
  ua_replies :: "reply list"

text \<open>The first draw that is not zero; \<open>None\<close> while there is none.\<close>

definition generate_session_id :: "u64 list \<Rightarrow> u64 option" where
  "generate_session_id draws = List.find (\<lambda>id. id \<noteq> 0) draws"

definition assoc_create :: "socket_addr \<Rightarrow> u64 option \<Rightarrow> u64 \<Rightarrow> association" where
  "assoc_create peer_addr session_id own_id =
     \<lparr>ua_peer_addr = peer_addr, ua_ipv4_socket = False, ua_ipv6_socket = False, ua_keepalive_flag = False,
      ua_client_session = map_option client_session_new session_id, ua_server_session_id = own_id,
      ua_server_packet_id = 0, ua_calls = [], ua_replies = []\<rparr>"

subsection \<open>Towards the target\<close>

definition outbound_target :: "ip_stack_capabilities \<Rightarrow> socket_addr \<Rightarrow> socket_addr" where
  "outbound_target caps addr =
     (case addr of
        V4 ip port \<Rightarrow> if support_ipv4_mapped_ipv6 caps then sock_new (IpV6 (to_ipv6_mapped ip)) port else addr
      | V6 ip port f s \<Rightarrow>
          if \<not> support_ipv6 caps \<or> \<not> support_ipv4_mapped_ipv6 caps
          then (case to_ipv4_mapped ip of Some v4 \<Rightarrow> sock_new (IpV4 v4) port | None \<Rightarrow> addr)
          else addr)"

definition open_outbound :: "outside \<Rightarrow> addr_family \<Rightarrow> association \<Rightarrow> (unit, io_error) res \<times> association" where
  "open_outbound out fam a =
     (if (case fam of FamilyV4 \<Rightarrow> ua_ipv4_socket a | FamilyV6 \<Rightarrow> ua_ipv6_socket a) then (Ok (), a)
      else
        let r = connect_any out (length (ua_calls a)) fam;
            a = a\<lparr>ua_calls := ua_calls a @ [OutConnect fam]\<rparr>
        in (r, if is_ok r then (case fam of FamilyV4 \<Rightarrow> a\<lparr>ua_ipv4_socket := True\<rparr> | FamilyV6 \<Rightarrow> a\<lparr>ua_ipv6_socket := True\<rparr>)
               else a))"

definition send_received_outbound_packet ::
  "('c, 'u, 'p4, 'p6, 'r) server_env \<Rightarrow> byte list \<Rightarrow> socket_addr \<Rightarrow> association \<Rightarrow> (unit, io_error) res \<times> association" where
  "send_received_outbound_packet E data original_target_addr a =
     (let target_addr = outbound_target (se_caps E) original_target_addr in
      case open_outbound (se_outside E) (if is_ipv6 target_addr then FamilyV6 else FamilyV4) a of
        (Ok u, a) \<Rightarrow>
          let r = outbound_send (se_outside E) (length (ua_calls a));
              a = a\<lparr>ua_calls := ua_calls a @ [OutSend target_addr data (is_ok r)]\<rparr>
          in (bind_res r (\<lambda>_. Ok ()), a)
      | out \<Rightarrow> out)"

definition dispatch_received_outbound_packet ::
  "('c, 'u, 'p4, 'p6, 'r) server_env \<Rightarrow> address \<Rightarrow> byte list \<Rightarrow> association \<Rightarrow> (unit, io_error) res \<times> association" where
  "dispatch_received_outbound_packet E target_addr data a =
     (case target_addr of
        SocketAddress sa \<Rightarrow> send_received_outbound_packet E data sa a
      | DomainNameAddress dname port \<Rightarrow>
          (case lookup_then (se_ipv6_first E) (resolve_name (se_outside E) (length (ua_calls a)) dname port)
                  (send_received_outbound_packet E data) a of
             (r, a) \<Rightarrow> (bind_res r (\<lambda>_. Ok ()), a)))"

text \<open>The packet window of the session, and the user of its latest packet.\<close>

definition session_admits :: "udp_control option \<Rightarrow> association \<Rightarrow> bool \<times> association" where
  "session_admits control a =
     (case control of
        None \<Rightarrow> (True, a)
      | Some c \<Rightarrow>
          let s = (case ua_client_session a of Some s \<Rightarrow> s | None \<Rightarrow> client_session_new (client_session_id c));
              (valid, w) = validate_packet_id (sess_window s) (packet_id c) 0xFFFFFFFFFFFFFFFF;
              s = s\<lparr>sess_window := w\<rparr>
          in (valid, a\<lparr>ua_client_session := Some (if valid then s\<lparr>sess_user := ctl_user c\<rparr> else s)\<rparr>))"

definition dispatch_received_packet ::
  "('c, 'u, 'p4, 'p6, 'r) server_env \<Rightarrow> socket_addr \<Rightarrow> address \<Rightarrow> byte list \<Rightarrow> udp_control option \<Rightarrow> association
     \<Rightarrow> (unit, io_error) res \<times> association" where
  "dispatch_received_packet E peer_addr target_addr data control a =
     (let a = (case ua_client_session a of
                 Some s \<Rightarrow> if peer_addr \<noteq> ua_peer_addr a then a\<lparr>ua_peer_addr := peer_addr\<rparr> else a
               | None \<Rightarrow> a)
      in if context_check_outbound_blocked (se_acl_ops E) (resolve_acl (se_outside E) (length (ua_calls a))) (se_acl E) target_addr
         then (Ok (), a)
         else
           (case session_admits control a of
              (False, a) \<Rightarrow> (Ok (), a)
            | (True, a) \<Rightarrow>
                (case dispatch_received_outbound_packet E target_addr data a of
                   (Panic, a) \<Rightarrow> (Panic, a)
                 | (r, a) \<Rightarrow> (Ok (), a))))"

subsection \<open>Back to the client\<close>

fun unmap_address :: "address \<Rightarrow> address" where
  "unmap_address (SocketAddress (V6 ip port f s)) =
     (case to_ipv4_mapped ip of
        Some v4 \<Rightarrow> SocketAddress (sock_new (IpV4 v4) port)
      | None \<Rightarrow> SocketAddress (V6 ip port f s))"
| "unmap_address addr = addr"

text \<open>\<open>None\<close> is a send that never completes.\<close>

definition send_reply ::
  "('c, 'u, 'p4, 'p6, 'r) server_env \<Rightarrow> address \<Rightarrow> udp_control \<Rightarrow> byte list \<Rightarrow> association
     \<Rightarrow> ((unit, io_error) res \<times> association) option" where
  "send_reply E addr control data a =
     (let d = reply_with (se_outside E) (length (ua_replies a)) in
      case send_to_with_ctrl (se_cipher E) (se_udp E) (se_hash E) (dr_now d) (dr_rnd d) (dr_drawn d) (dr_mem d)
             (se_listener E) (dr_send d) (ua_peer_addr a) addr control data of
        (None, _) \<Rightarrow> None
      | (Some r, None) \<Rightarrow> Some (Panic, a)
      | (Some r, Some (datagram, to)) \<Rightarrow>
          Some (if r = Panic then Panic else Ok (),
                a\<lparr>ua_replies := ua_replies a @ [\<lparr>rp_to = to, rp_addr = addr, rp_control = control, rp_data = data,
                                                rp_datagram = datagram\<rparr>]\<rparr>))"

definition send_received_respond_packet ::
  "('c, 'u, 'p4, 'p6, 'r) server_env \<Rightarrow> address \<Rightarrow> byte list \<Rightarrow> association \<Rightarrow> ((unit, io_error) res \<times> association) option" where
  "send_received_respond_packet E addr data a =
     (let a = a\<lparr>ua_keepalive_flag := True\<rparr>;
          addr = unmap_address addr
      in case ua_client_session a of
           None \<Rightarrow> send_reply E addr default_control data a
         | Some s \<Rightarrow>
             if ua_server_packet_id a = 0xFFFFFFFFFFFFFFFF then Some (Ok (), a)
             else
               let a = a\<lparr>ua_server_packet_id := ua_server_packet_id a + 1\<rparr>;
                   control = default_control\<lparr>client_session_id := sess_id s, server_session_id := ua_server_session_id a,
                                             packet_id := ua_server_packet_id a, ctl_user := sess_user s\<rparr>
               in send_reply E addr control data a)"

definition MAXIMUM_UDP_PAYLOAD_SIZE :: nat where
  "MAXIMUM_UDP_PAYLOAD_SIZE = 65536"

text \<open>A datagram from an outbound socket, or its failure, which drops the socket.\<close>

definition receive_from_outbound ::
  "('c, 'u, 'p4, 'p6, 'r) server_env \<Rightarrow> addr_family \<Rightarrow> (byte list \<times> socket_addr, io_error) res \<Rightarrow> association
     \<Rightarrow> ((unit, io_error) res \<times> association) option" where
  "receive_from_outbound E fam received a =
     (case received of
        Ok (datagram, addr) \<Rightarrow>
          send_received_respond_packet E (SocketAddress addr) (take MAXIMUM_UDP_PAYLOAD_SIZE datagram) a
      | Err e \<Rightarrow> Some (Ok (), case fam of FamilyV4 \<Rightarrow> a\<lparr>ua_ipv4_socket := False\<rparr> | FamilyV6 \<Rightarrow> a\<lparr>ua_ipv6_socket := False\<rparr>)
      | Panic \<Rightarrow> Some (Panic, a))"

datatype nat_key = PeerAddr socket_addr | SessionId u64

definition assoc_key :: "association \<Rightarrow> nat_key" where
  "assoc_key a = (case ua_client_session a of None \<Rightarrow> PeerAddr (ua_peer_addr a) | Some s \<Rightarrow> SessionId (sess_id s))"

text \<open>The timer of an association: the key it sends, if the channel has room.\<close>

definition keepalive_tick :: "bool \<Rightarrow> association \<Rightarrow> nat_key option \<times> association" where
  "keepalive_tick has_room a =
     (if ua_keepalive_flag a \<and> has_room then (Some (assoc_key a), a\<lparr>ua_keepalive_flag := False\<rparr>) else (None, a))"

subsection \<open>The loop of an association\<close>

type_synonym packet = "socket_addr \<times> address \<times> byte list \<times> udp_control option"

datatype assoc_event = Packet packet
  | FromOutbound addr_family "(byte list \<times> socket_addr, io_error) res"
  | Tick bool

definition has_socket :: "addr_family \<Rightarrow> association \<Rightarrow> bool" where
  "has_socket fam a = (case fam of FamilyV4 \<Rightarrow> ua_ipv4_socket a | FamilyV6 \<Rightarrow> ua_ipv6_socket a)"

text \<open>One branch of \<open>select!\<close>. The branch of a socket that does not exist is disabled.\<close>

fun assoc_step ::
  "('c, 'u, 'p4, 'p6, 'r) server_env \<Rightarrow> assoc_event \<Rightarrow> association \<Rightarrow> ((unit, io_error) res \<times> association) option" where
  "assoc_step E (Packet (peer_addr, target_addr, data, control)) a =
     Some (dispatch_received_packet E peer_addr target_addr data control a)"
| "assoc_step E (FromOutbound fam received) a =
     (if has_socket fam a then receive_from_outbound E fam received a else Some (Ok (), a))"
| "assoc_step E (Tick has_room) a = Some (Ok (), snd (keepalive_tick has_room a))"

text \<open>The loop ends with a panic or in a send that never completes.\<close>

fun dispatch_packet :: "('c, 'u, 'p4, 'p6, 'r) server_env \<Rightarrow> assoc_event list \<Rightarrow> association \<Rightarrow> association" where
  "dispatch_packet E [] a = a"
| "dispatch_packet E (ev # evs) a =
     (case assoc_step E ev a of
        None \<Rightarrow> a
      | Some (Ok u, a) \<Rightarrow> dispatch_packet E evs a
      | Some (r, a) \<Rightarrow> a)"

section \<open>The server\<close>

type_synonym message = packet

definition UDP_ASSOCIATION_SEND_CHANNEL_SIZE :: nat where
  "UDP_ASSOCIATION_SEND_CHANNEL_SIZE = 1024"

definition UDP_ASSOCIATION_KEEP_ALIVE_CHANNEL_SIZE :: nat where
  "UDP_ASSOCIATION_KEEP_ALIVE_CHANNEL_SIZE = 64"

text \<open>
  An association as the server holds it: its task with the channel of packets to it. After a panic the channel
  is closed.
\<close>

record task =
  tk_assoc :: association
  tk_queue :: "message list"
  tk_open :: bool

definition try_send :: "message \<Rightarrow> task \<Rightarrow> task option" where
  "try_send msg t =
     (if tk_open t \<and> length (tk_queue t) < UDP_ASSOCIATION_SEND_CHANNEL_SIZE then Some (t\<lparr>tk_queue := tk_queue t @ [msg]\<rparr>) else None)"

text \<open>
  \<open>LruCache\<close> of \<open>lru_time_cache\<close> as operations on its contents, at a time. It holds associations by number;
  \<open>lc_view\<close> is what it holds.
\<close>

record 'm lru_cache =
  lc_get :: "nat \<Rightarrow> nat_key \<Rightarrow> 'm \<Rightarrow> nat option \<times> 'm"
  lc_insert :: "nat \<Rightarrow> nat_key \<Rightarrow> nat \<Rightarrow> 'm \<Rightarrow> 'm"
  lc_iter :: "nat \<Rightarrow> 'm \<Rightarrow> 'm"
  lc_holds :: "'m \<Rightarrow> nat \<Rightarrow> bool"
  lc_view :: "'m \<Rightarrow> nat_key \<Rightarrow> nat option"

datatype 'm nat_map = Association (nm_cache: 'm) | Session (nm_cache: 'm)

record 'm udp_server =
  sv_map :: "'m nat_map"
  sv_tasks :: "nat \<Rightarrow> task option"
  sv_next :: nat
  sv_keepalive :: "nat_key list"
  sv_received :: "message list"

definition udp_server_new :: "'m \<Rightarrow> cipher_kind \<Rightarrow> 'm udp_server" where
  "udp_server_new cache kind =
     \<lparr>sv_map = (case category kind of CatAead2022 \<Rightarrow> Session cache | _ \<Rightarrow> Association cache),
      sv_tasks = (\<lambda>i. None), sv_next = 0, sv_keepalive = [], sv_received = []\<rparr>"

text \<open>The contents of the map change; the task of an association that was dropped is aborted.\<close>

definition set_cache :: "'m lru_cache \<Rightarrow> 'm \<Rightarrow> 'm udp_server \<Rightarrow> 'm udp_server" where
  "set_cache L m sv =
     sv\<lparr>sv_map := (case sv_map sv of Association _ \<Rightarrow> Association m | Session _ \<Rightarrow> Session m),
        sv_tasks := (\<lambda>i. if lc_holds L m i then sv_tasks sv i else None)\<rparr>"

definition cleanup_expired :: "'m lru_cache \<Rightarrow> nat \<Rightarrow> 'm udp_server \<Rightarrow> 'm udp_server" where
  "cleanup_expired L time sv = set_cache L (lc_iter L time (nm_cache (sv_map sv))) sv"

definition keep_alive :: "'m lru_cache \<Rightarrow> nat \<Rightarrow> nat_key \<Rightarrow> 'm udp_server \<Rightarrow> (unit, io_error) res \<times> 'm udp_server" where
  "keep_alive L time key sv =
     (case (sv_map sv, key) of
        (Association m, PeerAddr _) \<Rightarrow> (Ok (), set_cache L (snd (lc_get L time key m)) sv)
      | (Session m, SessionId _) \<Rightarrow> (Ok (), set_cache L (snd (lc_get L time key m)) sv)
      | _ \<Rightarrow> (Panic, sv))"

text \<open>Receiving a packet; \<open>None\<close> is still waiting, \<open>Ok None\<close> a packet that is dropped.\<close>

definition recv_one_packet ::
  "('c, 'u, 'p4, 'p6, 'r) server_env \<Rightarrow> u64 \<Rightarrow> nat \<Rightarrow> (byte list \<times> socket_addr) io_wait \<Rightarrow> (message option, io_error) res option" where
  "recv_one_packet E now call recv_io =
     map_option (\<lambda>r. case r of
         Err e \<Rightarrow> Ok None
       | Panic \<Rightarrow> Panic
       | Ok (data, peer_addr, target_addr, n, control) \<Rightarrow>
           if data = [] then Ok None
           else if context_check_client_blocked (se_acl_ops E) (se_acl E) peer_addr then Ok None
           else if context_check_outbound_blocked (se_acl_ops E) (resolve_acl (se_outside E) call) (se_acl E) target_addr then Ok None
           else Ok (Some (peer_addr, target_addr, data, control)))
       (recv_from_with_ctrl (se_cipher E) (se_udp E) (se_hash E) now (se_listener E) MAXIMUM_UDP_PAYLOAD_SIZE recv_io)"

text \<open>The association of a key gets the message; a new association is made when there is none.\<close>

definition send_to_key ::
  "'m lru_cache \<Rightarrow> nat \<Rightarrow> u64 \<Rightarrow> nat_key \<Rightarrow> u64 option \<Rightarrow> message \<Rightarrow> 'm udp_server \<Rightarrow> (unit, io_error) res \<times> 'm udp_server" where
  "send_to_key L time fresh_id key session_id msg sv =
     (case lc_get L time key (nm_cache (sv_map sv)) of
        (found, m) \<Rightarrow>
          let sv = set_cache L m sv in
          (case found of
             Some i \<Rightarrow>
               (case Option.bind (sv_tasks sv i) (try_send msg) of
                  Some t \<Rightarrow> (Ok (), sv\<lparr>sv_tasks := (sv_tasks sv)(i \<mapsto> t)\<rparr>)
                | None \<Rightarrow> (Err (io_other ''udp relay channel full''), sv))
           | None \<Rightarrow>
               (case try_send msg \<lparr>tk_assoc = assoc_create (fst msg) session_id fresh_id, tk_queue = [], tk_open = True\<rparr> of
                  None \<Rightarrow> (Err (io_other ''udp relay channel full''), sv)
                | Some t \<Rightarrow>
                    let i = sv_next sv;
                        sv = sv\<lparr>sv_tasks := (sv_tasks sv)(i \<mapsto> t), sv_next := Suc i\<rparr>
                    in (Ok (), set_cache L (lc_insert L time key i (nm_cache (sv_map sv))) sv))))"

definition send_packet ::
  "'m lru_cache \<Rightarrow> nat \<Rightarrow> u64 \<Rightarrow> message \<Rightarrow> 'm udp_server \<Rightarrow> (unit, io_error) res \<times> 'm udp_server" where
  "send_packet L time fresh_id msg sv =
     (case msg of (peer_addr, target_addr, data, control) \<Rightarrow>
      case sv_map sv of
        Association m \<Rightarrow> send_to_key L time fresh_id (PeerAddr peer_addr) None msg sv
      | Session m \<Rightarrow>
          (case control of
             None \<Rightarrow> (Err (io_other ''control data missing in packet''), sv)
           | Some c \<Rightarrow> send_to_key L time fresh_id (SessionId (client_session_id c)) (Some (client_session_id c)) msg sv))"

text \<open>
  The steps of the server and of the tasks of its associations, in any order: the branches of \<open>select!\<close> in \<open>run\<close>, a
  further worker that receives a packet, and the branches of \<open>select!\<close> in \<open>dispatch_packet\<close>.
\<close>

inductive server_step ::
  "'m lru_cache \<Rightarrow> ('c, 'u, 'p4, 'p6, 'r) server_env \<Rightarrow> 'm udp_server \<Rightarrow> 'm udp_server \<Rightarrow> bool"
  for L :: "'m lru_cache" and E :: "('c, 'u, 'p4, 'p6, 'r) server_env" where
  expired: "server_step L E sv (cleanup_expired L time sv)"
| alive: "sv_keepalive sv = key # keys \<Longrightarrow> keep_alive L time key (sv\<lparr>sv_keepalive := keys\<rparr>) = (r, sv')
    \<Longrightarrow> server_step L E sv sv'"
| recv: "recv_one_packet E now call recv_io = Some (Ok (Some msg)) \<Longrightarrow> generate_session_id draws = Some fresh_id
    \<Longrightarrow> send_packet L time fresh_id msg sv = (r, sv') \<Longrightarrow> server_step L E sv sv'"
| worker: "recv_one_packet E now call recv_io = Some (Ok (Some msg))
    \<Longrightarrow> server_step L E sv (sv\<lparr>sv_received := sv_received sv @ [msg]\<rparr>)"
| multicore: "sv_received sv = msg # msgs \<Longrightarrow> generate_session_id draws = Some fresh_id
    \<Longrightarrow> send_packet L time fresh_id msg (sv\<lparr>sv_received := msgs\<rparr>) = (r, sv') \<Longrightarrow> server_step L E sv sv'"
| packet: "sv_tasks sv i = Some t \<Longrightarrow> tk_open t \<Longrightarrow> tk_queue t = msg # msgs
    \<Longrightarrow> assoc_step (E\<lparr>se_outside := out\<rparr>) (Packet msg) (tk_assoc t) = Some (r, a)
    \<Longrightarrow> server_step L E sv (sv\<lparr>sv_tasks := (sv_tasks sv)(i \<mapsto> \<lparr>tk_assoc = a, tk_queue = msgs, tk_open = is_ok r\<rparr>)\<rparr>)"
| outbound: "sv_tasks sv i = Some t \<Longrightarrow> tk_open t
    \<Longrightarrow> assoc_step (E\<lparr>se_outside := out\<rparr>) (FromOutbound fam received) (tk_assoc t) = Some (r, a)
    \<Longrightarrow> server_step L E sv (sv\<lparr>sv_tasks := (sv_tasks sv)(i \<mapsto> t\<lparr>tk_assoc := a, tk_open := is_ok r\<rparr>)\<rparr>)"
| tick: "sv_tasks sv i = Some t \<Longrightarrow> tk_open t
    \<Longrightarrow> keepalive_tick (length (sv_keepalive sv) < UDP_ASSOCIATION_KEEP_ALIVE_CHANNEL_SIZE) (tk_assoc t) = (key, a)
    \<Longrightarrow> server_step L E sv (sv\<lparr>sv_tasks := (sv_tasks sv)(i \<mapsto> t\<lparr>tk_assoc := a\<rparr>),
          sv_keepalive := sv_keepalive sv @ (case key of Some k \<Rightarrow> [k] | None \<Rightarrow> [])\<rparr>)"

section \<open>What a packet does to an association\<close>

fun ok_sends :: "out_call list \<Rightarrow> (socket_addr \<times> byte list) list" where
  "ok_sends [] = []"
| "ok_sends (OutSend addr data ok # cs) = (if ok then [(addr, data)] else []) @ ok_sends cs"
| "ok_sends (OutConnect fam # cs) = ok_sends cs"

lemma ok_sends_append [simp]: "ok_sends (xs @ ys) = ok_sends xs @ ok_sends ys"
  by (induction xs rule: ok_sends.induct) auto

text \<open>Only sockets and calls differ, and the calls add the successful sends \<open>sent\<close>.\<close>

definition adds_sends :: "(socket_addr \<times> byte list) list \<Rightarrow> association \<Rightarrow> association \<Rightarrow> bool" where
  "adds_sends sent a a' \<longleftrightarrow> ok_sends (ua_calls a') = ok_sends (ua_calls a) @ sent
     \<and> ua_peer_addr a' = ua_peer_addr a \<and> ua_client_session a' = ua_client_session a
     \<and> ua_server_session_id a' = ua_server_session_id a \<and> ua_server_packet_id a' = ua_server_packet_id a
     \<and> ua_replies a' = ua_replies a"

lemma adds_sends_trans: "adds_sends xs a b \<Longrightarrow> adds_sends ys b c \<Longrightarrow> adds_sends (xs @ ys) a c"
  by (simp add: adds_sends_def)

lemma open_outbound_adds: "open_outbound out fam a = (r, a') \<Longrightarrow> adds_sends [] a a'"
  by (auto simp: open_outbound_def adds_sends_def Let_def split: if_splits addr_family.splits)

lemma send_outbound_adds:
  assumes "send_received_outbound_packet E data sa a = (r, a')"
  shows "adds_sends (if is_ok r then [(outbound_target (se_caps E) sa, data)] else []) a a'"
proof -
  let ?fam = "if is_ipv6 (outbound_target (se_caps E) sa) then FamilyV6 else FamilyV4"
  obtain r1 a1 where o: "open_outbound (se_outside E) ?fam a = (r1, a1)" by fastforce
  show ?thesis
  proof (cases r1)
    case (Ok u)
    then have "adds_sends (if is_ok r then [(outbound_target (se_caps E) sa, data)] else []) a1 a'"
      using assms o by (cases "outbound_send (se_outside E) (length (ua_calls a1))")
        (auto simp: send_received_outbound_packet_def Let_def adds_sends_def)
    with open_outbound_adds [OF o] show ?thesis using adds_sends_trans by fastforce
  qed (use assms o open_outbound_adds [OF o] in \<open>auto simp: send_received_outbound_packet_def Let_def\<close>)
qed

interpretation outbound: attempts "send_received_outbound_packet E data"
  "\<lambda>sa. adds_sends [(outbound_target (se_caps E) sa, data)]" "adds_sends []" for E data
proof unfold_locales
  fix a s s' and r :: "unit" and out
  show "send_received_outbound_packet E data a s = (Ok r, s') \<Longrightarrow> adds_sends [(outbound_target (se_caps E) a, data)] s s'"
    using send_outbound_adds [of E data a s "Ok r" s'] by simp
  show "send_received_outbound_packet E data a s = (out, s') \<Longrightarrow> \<not> is_ok out \<Longrightarrow> adds_sends [] s s'"
    using send_outbound_adds [of E data a s out s'] by simp
qed (auto simp: adds_sends_def)

text \<open>The addresses a target stands for.\<close>

definition resolves_to :: "outside \<Rightarrow> address \<Rightarrow> socket_addr \<Rightarrow> bool" where
  "resolves_to out target sa \<longleftrightarrow>
     (case target of
        SocketAddress addr \<Rightarrow> sa = addr
      | DomainNameAddress dname port \<Rightarrow> \<exists>n addrs. resolve_name out n dname port = Ok addrs \<and> sa \<in> set addrs)"

lemma dispatch_outbound_adds:
  assumes "dispatch_received_outbound_packet E target data a = (r, a')"
  shows "\<exists>sent. adds_sends sent a a' \<and> (sent = [] \<or> (\<exists>sa. resolves_to (se_outside E) target sa \<and> sent = [(outbound_target (se_caps E) sa, data)]))"
proof (cases target)
  case (SocketAddress sa)
  then have "adds_sends (if is_ok r then [(outbound_target (se_caps E) sa, data)] else []) a a'"
    using assms send_outbound_adds [of E data sa a r a'] by (simp add: dispatch_received_outbound_packet_def)
  then show ?thesis using SocketAddress by (cases "is_ok r") (auto simp: resolves_to_def)
next
  case (DomainNameAddress dname port)
  obtain out where "lookup_then (se_ipv6_first E) (resolve_name (se_outside E) (length (ua_calls a)) dname port)
      (send_received_outbound_packet E data) a = (out, a')"
    using assms DomainNameAddress by (auto simp: dispatch_received_outbound_packet_def split: prod.splits)
  from outbound.lookup_outcome [OF this] show ?thesis
    using DomainNameAddress by (cases out) (auto simp: resolves_to_def split: prod.splits)
qed

text \<open>The window an association checks packets against.\<close>

definition assoc_window :: "association \<Rightarrow> packet_window_filter" where
  "assoc_window a = (case ua_client_session a of Some s \<Rightarrow> sess_window s | None \<Rightarrow> window_new)"

definition not_blocked :: "('c, 'u, 'p4, 'p6, 'r) server_env \<Rightarrow> address \<Rightarrow> bool" where
  "not_blocked E target \<longleftrightarrow> (\<exists>n. \<not> context_check_outbound_blocked (se_acl_ops E) (resolve_acl (se_outside E) n) (se_acl E) target)"

text \<open>A successful send serves a packet.\<close>

fun serves :: "('c, 'u, 'p4, 'p6, 'r) server_env \<Rightarrow> socket_addr \<times> byte list \<Rightarrow> packet \<Rightarrow> bool" where
  "serves E (dest, payload) (peer, target, data, control) \<longleftrightarrow>
     payload = data \<and> not_blocked E target \<and> (\<exists>sa. resolves_to (se_outside E) target sa \<and> dest = outbound_target (se_caps E) sa)"

lemma dispatch_packet_adds:
  assumes "dispatch_received_packet E peer target data control a = (r, a')"
  shows "\<exists>sent. ok_sends (ua_calls a') = ok_sends (ua_calls a) @ sent
     \<and> (sent = [] \<or> (\<exists>x. sent = [x] \<and> serves E x (peer, target, data, control)
            \<and> (\<forall>c. control = Some c \<longrightarrow> fst (validate_packet_id (assoc_window a) (packet_id c) 0xFFFFFFFFFFFFFFFF))))
     \<and> (assoc_window a' = assoc_window a \<and> sent = []
        \<or> assoc_window a' = (case control of None \<Rightarrow> assoc_window a
             | Some c \<Rightarrow> snd (validate_packet_id (assoc_window a) (packet_id c) 0xFFFFFFFFFFFFFFFF)))"
proof -
  define b where "b = (case ua_client_session a of
      Some s \<Rightarrow> if peer \<noteq> ua_peer_addr a then a\<lparr>ua_peer_addr := peer\<rparr> else a | None \<Rightarrow> a)"
  have b: "ua_calls b = ua_calls a" "ua_client_session b = ua_client_session a" "assoc_window b = assoc_window a"
    by (auto simp: b_def assoc_window_def split: option.splits)
  have eq: "dispatch_received_packet E peer target data control a =
      (if context_check_outbound_blocked (se_acl_ops E) (resolve_acl (se_outside E) (length (ua_calls b))) (se_acl E) target
       then (Ok (), b)
       else case session_admits control b of (False, a) \<Rightarrow> (Ok (), a)
         | (True, a) \<Rightarrow> (case dispatch_received_outbound_packet E target data a of (Panic, a) \<Rightarrow> (Panic, a) | (r, a) \<Rightarrow> (Ok (), a)))"
    unfolding dispatch_received_packet_def b_def by (simp add: Let_def)
  show ?thesis
  proof (cases "context_check_outbound_blocked (se_acl_ops E) (resolve_acl (se_outside E) (length (ua_calls b))) (se_acl E) target")
    case True
    then show ?thesis using assms b by (simp add: eq)
  next
    case False
    then have free: "not_blocked E target" by (auto simp: not_blocked_def)
    obtain valid c where s: "session_admits control b = (valid, c)" by fastforce
    have c: "ua_calls c = ua_calls a"
      "assoc_window c = (case control of None \<Rightarrow> assoc_window a
         | Some c \<Rightarrow> snd (validate_packet_id (assoc_window a) (packet_id c) 0xFFFFFFFFFFFFFFFF))"
      "\<forall>c. control = Some c \<longrightarrow> valid = fst (validate_packet_id (assoc_window a) (packet_id c) 0xFFFFFFFFFFFFFFFF)"
      using s b by (auto simp: session_admits_def assoc_window_def client_session_new_def Let_def split: option.splits prod.splits)
    show ?thesis
    proof (cases valid)
      case True
      obtain r1 where d: "dispatch_received_outbound_packet E target data c = (r1, a')"
        using assms False s True by (cases "fst (dispatch_received_outbound_packet E target data c)")
          (auto simp: eq split: prod.splits res.splits)
      obtain sent where sent: "adds_sends sent c a'"
        "sent = [] \<or> (\<exists>sa. resolves_to (se_outside E) target sa \<and> sent = [(outbound_target (se_caps E) sa, data)])"
        using dispatch_outbound_adds [OF d] by blast
      then have "assoc_window a' = assoc_window c" by (simp add: adds_sends_def assoc_window_def)
      with sent c True free show ?thesis by (intro exI [of _ sent]) (auto simp: adds_sends_def)
    next
      case False
      then show ?thesis using assms \<open>\<not> context_check_outbound_blocked _ _ _ _\<close> s c by (auto simp: eq)
    qed
  qed
qed

section \<open>Every packet is served at most once\<close>

fun packets_of :: "assoc_event list \<Rightarrow> packet list" where
  "packets_of [] = []"
| "packets_of (Packet p # evs) = p # packets_of evs"
| "packets_of (FromOutbound fam received # evs) = packets_of evs"
| "packets_of (Tick has_room # evs) = packets_of evs"

definition packet_ids :: "packet list \<Rightarrow> u64 list" where
  "packet_ids ps = List.map_filter (\<lambda>(peer, target, data, control). map_option packet_id control) ps"

lemma packet_ids_simps [simp]:
  "packet_ids [] = []"
  "packet_ids ((peer, target, data, control) # ps) = (case control of None \<Rightarrow> [] | Some c \<Rightarrow> [packet_id c]) @ packet_ids ps"
  by (auto simp: packet_ids_def List.map_filter_def split: option.splits)

text \<open>The other branches of the loop neither send to a target nor touch the session.\<close>

lemma send_reply_keeps:
  assumes "send_reply E addr control data a = Some (r, a')"
  shows "ua_calls a' = ua_calls a \<and> ua_client_session a' = ua_client_session a \<and> ua_peer_addr a' = ua_peer_addr a
    \<and> ua_server_session_id a' = ua_server_session_id a \<and> ua_server_packet_id a' = ua_server_packet_id a
    \<and> (\<exists>new. ua_replies a' = ua_replies a @ new
          \<and> (new = [] \<or> (\<exists>x. new = [x] \<and> rp_to x = ua_peer_addr a \<and> rp_control x = control)))"
  using assms by (auto simp: send_reply_def send_to_with_ctrl_def Let_def split: option.splits prod.splits if_splits)

lemma respond_keeps:
  assumes "send_received_respond_packet E addr data a = Some (r, a')"
  shows "ua_calls a' = ua_calls a \<and> ua_client_session a' = ua_client_session a \<and> ua_peer_addr a' = ua_peer_addr a"
  using assms send_reply_keeps [of E _ _ data _ r a']
  by (auto simp: send_received_respond_packet_def Let_def split: option.splits if_splits dest!: send_reply_keeps)

lemma other_step_keeps:
  assumes "assoc_step E ev a = Some (r, a')" "\<forall>p. ev \<noteq> Packet p"
  shows "ua_calls a' = ua_calls a \<and> ua_client_session a' = ua_client_session a \<and> ua_peer_addr a' = ua_peer_addr a"
  using assms
  by (cases "(E, ev, a)" rule: assoc_step.cases)
    (auto simp: receive_from_outbound_def keepalive_tick_def split: if_splits res.splits addr_family.splits dest: respond_keeps)

lemma window_step:
  assumes "represents w seen"
  shows "\<exists>seen'. represents (snd (validate_packet_id w p l)) seen' \<and> accepted seen \<subseteq> accepted seen'
    \<and> (fst (validate_packet_id w p l) \<longrightarrow> unat p \<notin> accepted seen \<and> unat p \<in> accepted seen')"
  using validate_refines [OF assms, of p l] by (auto simp: seen_step_def seen_admits_def)

lemma dispatch_packet_step:
  assumes "assoc_step E ev a = Some (r, b)"
  shows "\<exists>evs'. (evs' = evs \<or> evs' = []) \<and> dispatch_packet E (ev # evs) a = dispatch_packet E evs' b"
  using assms by (cases r) auto

definition served_by ::
  "('c, 'u, 'p4, 'p6, 'r) server_env \<Rightarrow> packet list \<Rightarrow> seen_ids \<Rightarrow> association \<Rightarrow> association \<Rightarrow> bool" where
  "served_by E ps seen a a' \<longleftrightarrow>
     (\<exists>served sent. subseq served ps \<and> distinct (packet_ids served) \<and> unat ` set (packet_ids served) \<inter> accepted seen = {}
        \<and> ok_sends (ua_calls a') = ok_sends (ua_calls a) @ sent \<and> list_all2 (serves E) sent served)"

lemma served_by_refl: "served_by E ps seen a a"
  unfolding served_by_def by (intro exI [of _ "[]"]) simp

lemma served_by_skip:
  assumes "served_by E ps seen' b a'" "ok_sends (ua_calls b) = ok_sends (ua_calls a)"
    and "accepted seen \<subseteq> accepted seen'"
  shows "served_by E ps seen a a'" "served_by E (p # ps) seen a a'"
proof -
  obtain served sent where s: "subseq served ps" "distinct (packet_ids served)" "unat ` set (packet_ids served) \<inter> accepted seen' = {}"
    "ok_sends (ua_calls a') = ok_sends (ua_calls b) @ sent" "list_all2 (serves E) sent served"
    using assms(1) unfolding served_by_def by blast
  have "unat ` set (packet_ids served) \<inter> accepted seen = {}" using s(3) assms(3) by blast
  with s assms(2) show "served_by E ps seen a a'" "served_by E (p # ps) seen a a'"
    unfolding served_by_def by (auto intro!: exI [of _ served] exI [of _ sent] list_emb_Cons)
qed

lemma served_by_more:
  assumes "served_by E ps seen' b a'" "ok_sends (ua_calls b) = ok_sends (ua_calls a) @ [x]" "serves E x p"
    and "accepted seen \<subseteq> accepted seen'"
    and "\<forall>i \<in> set (packet_ids [p]). unat i \<notin> accepted seen \<and> unat i \<in> accepted seen'"
  shows "served_by E (p # ps) seen a a'"
proof -
  obtain served sent where s: "subseq served ps" "distinct (packet_ids served)" "unat ` set (packet_ids served) \<inter> accepted seen' = {}"
    "ok_sends (ua_calls a') = ok_sends (ua_calls b) @ sent" "list_all2 (serves E) sent served"
    using assms(1) unfolding served_by_def by blast
  obtain peer target data control where p: "p = (peer, target, data, control)" by (metis prod_cases4)
  have "distinct (packet_ids (p # served))" "unat ` set (packet_ids (p # served)) \<inter> accepted seen = {}"
    using s(2,3) assms(4,5) by (auto simp: p split: option.splits)
  then show ?thesis unfolding served_by_def using s assms(2,3)
    by (intro exI [of _ "p # served"] exI [of _ "x # sent"]) simp
qed

lemma packet_seen:
  assumes "represents w seen"
    and "w' = w \<and> sent = [] \<or> w' = (case control of None \<Rightarrow> w | Some c \<Rightarrow> snd (validate_packet_id w (packet_id c) l))"
  shows "\<exists>seen'. represents w' seen' \<and> accepted seen \<subseteq> accepted seen'
    \<and> (sent \<noteq> [] \<longrightarrow> (\<forall>c. control = Some c \<longrightarrow> fst (validate_packet_id w (packet_id c) l))
       \<longrightarrow> (\<forall>i \<in> set (packet_ids [(peer, target, data, control)]). unat i \<notin> accepted seen \<and> unat i \<in> accepted seen'))"
proof (cases "control = None \<or> w' = w \<and> sent = []")
  case True
  then show ?thesis using assms by (intro exI [of _ seen]) auto
next
  case False
  then obtain c where c: "control = Some c" by auto
  from window_step [OF assms(1), of "packet_id c" l] show ?thesis using assms(2) c False by auto
qed

lemma run_serves:
  assumes "represents (assoc_window a) seen"
  shows "served_by E (packets_of evs) seen a (dispatch_packet E evs a)"
  using assms
proof (induction evs arbitrary: a seen)
  case Nil
  then show ?case by (simp add: served_by_refl)
next
  case (Cons ev evs)
  have rest: "served_by E (packets_of evs) seen' b (dispatch_packet E evs' b)"
    if "represents (assoc_window b) seen'" "evs' = evs \<or> evs' = []" for b seen' evs'
    using Cons.IH [OF that(1)] that(2) served_by_refl by auto
  show ?case
  proof (cases "assoc_step E ev a")
    case None
    then show ?thesis by (simp add: served_by_refl)
  next
    case (Some rb)
    obtain r b where st: "assoc_step E ev a = Some (r, b)" using Some by (cases rb) simp
    obtain evs' where run: "evs' = evs \<or> evs' = []" "dispatch_packet E (ev # evs) a = dispatch_packet E evs' b"
      using dispatch_packet_step [OF st] by blast
    show ?thesis
    proof (cases "\<exists>p. ev = Packet p")
      case True
      then obtain peer target data control where ev: "ev = Packet (peer, target, data, control)" by (metis prod_cases4)
      with st have d: "dispatch_received_packet E peer target data control a = (r, b)" by simp
      let ?v = "\<lambda>c. validate_packet_id (assoc_window a) (packet_id c) 0xFFFFFFFFFFFFFFFF"
      obtain sent where sent: "ok_sends (ua_calls b) = ok_sends (ua_calls a) @ sent"
        "sent = [] \<or> (\<exists>x. sent = [x] \<and> serves E x (peer, target, data, control) \<and> (\<forall>c. control = Some c \<longrightarrow> fst (?v c)))"
        "assoc_window b = assoc_window a \<and> sent = []
           \<or> assoc_window b = (case control of None \<Rightarrow> assoc_window a | Some c \<Rightarrow> snd (?v c))"
        using dispatch_packet_adds [OF d] by blast
      obtain seen' where seen': "represents (assoc_window b) seen'" "accepted seen \<subseteq> accepted seen'"
        "sent \<noteq> [] \<longrightarrow> (\<forall>i \<in> set (packet_ids [(peer, target, data, control)]). unat i \<notin> accepted seen \<and> unat i \<in> accepted seen')"
        using packet_seen [OF Cons.prems sent(3)] sent(2) by blast
      show ?thesis
      proof (cases "sent = []")
        case True
        then show ?thesis unfolding ev run(2) [unfolded ev] packets_of.simps
          using served_by_skip(2) [OF rest [OF seen'(1) run(1)] _ seen'(2)] sent(1) by simp
      next
        case False
        then show ?thesis unfolding ev run(2) [unfolded ev] packets_of.simps
          using served_by_more [OF rest [OF seen'(1) run(1)] _ _ seen'(2)] sent(1,2) seen'(3) by blast
      qed
    next
      case False
      then have keep: "ua_calls b = ua_calls a" "ua_client_session b = ua_client_session a" using other_step_keeps [OF st] by auto
      moreover have "packets_of (ev # evs) = packets_of evs" using False by (cases ev) auto
      moreover have "represents (assoc_window b) seen" using Cons.prems keep by (simp add: assoc_window_def)
      ultimately show ?thesis unfolding run(2) using served_by_skip(1) [OF rest [OF _ run(1)]] by simp
    qed
  qed
qed

end
