(* ===== verification/Udp_Routing.thy ===== *)
theory Udp_Routing
  imports Udp_Server
begin

text \<open>
  Properties of the UDP server of \<open>shadowsocks-service/src/server/udprelay.rs\<close>: what an association forwards and
  answers over any sequence of events, and how the server routes packets to associations in every reachable state.
\<close>

section \<open>Replies\<close>

text \<open>The replies of a session: counted packet ids, to the client's address of the time.\<close>

definition session_replies :: "u64 \<Rightarrow> u64 \<Rightarrow> u64 \<Rightarrow> socket_addr set \<Rightarrow> reply list \<Rightarrow> bool" where
  "session_replies own_id session lower peers rs \<longleftrightarrow>
     sorted_wrt (<) (lower # map (packet_id \<circ> rp_control) rs)
     \<and> (\<forall>x \<in> set rs. client_session_id (rp_control x) = session \<and> server_session_id (rp_control x) = own_id \<and> rp_to x \<in> peers)"

lemma word_less_succ: "x \<noteq> 0xFFFFFFFFFFFFFFFF \<Longrightarrow> x < x + (1 :: u64)"
  by unat_arith auto

lemma session_replies_mono:
  "session_replies own_id session lower' peers rs \<Longrightarrow> lower \<le> lower' \<Longrightarrow> peers \<subseteq> peers' \<Longrightarrow> session_replies own_id session lower peers' rs"
  unfolding session_replies_def by (auto 4 3 dest: order.strict_trans1)

lemma respond_replies:
  assumes "send_received_respond_packet E addr data a = Some (r, b)" "ua_client_session a = Some s"
  shows "ua_server_session_id b = ua_server_session_id a \<and> ua_server_packet_id a \<le> ua_server_packet_id b
    \<and> (\<exists>new. ua_replies b = ua_replies a @ new
         \<and> session_replies (ua_server_session_id a) (sess_id s) (ua_server_packet_id a) {ua_peer_addr a} new
         \<and> (\<forall>x \<in> set new. packet_id (rp_control x) = ua_server_packet_id b))"
proof (cases "ua_server_packet_id a = 0xFFFFFFFFFFFFFFFF")
  case True
  then show ?thesis using assms by (auto simp: send_received_respond_packet_def Let_def session_replies_def)
next
  case False
  define a1 where "a1 = a\<lparr>ua_keepalive_flag := True, ua_server_packet_id := ua_server_packet_id a + 1\<rparr>"
  obtain control where c: "control = default_control\<lparr>client_session_id := sess_id s, server_session_id := ua_server_session_id a,
      packet_id := ua_server_packet_id a + 1, ctl_user := sess_user s\<rparr>" by simp
  have "send_reply E (unmap_address addr) control data a1 = Some (r, b)"
    using assms False by (simp add: send_received_respond_packet_def Let_def a1_def c)
  from send_reply_keeps [OF this] show ?thesis using word_less_succ [OF False]
    by (auto simp: a1_def c session_replies_def default_control_def)
qed

lemma packet_keeps_replies:
  assumes "dispatch_received_packet E peer target data control a = (r, b)" "ua_client_session a = Some s"
  shows "ua_replies b = ua_replies a" "ua_server_session_id b = ua_server_session_id a"
    "ua_server_packet_id b = ua_server_packet_id a" "ua_peer_addr b = peer"
    "\<exists>s'. ua_client_session b = Some s' \<and> sess_id s' = sess_id s"
proof -
  define a1 where "a1 = a\<lparr>ua_peer_addr := peer\<rparr>"
  have a1: "(if peer \<noteq> ua_peer_addr a then a\<lparr>ua_peer_addr := peer\<rparr> else a) = a1" by (simp add: a1_def)
  obtain valid c where s: "session_admits control a1 = (valid, c)" by fastforce
  have c: "ua_replies c = ua_replies a" "ua_server_session_id c = ua_server_session_id a" "ua_server_packet_id c = ua_server_packet_id a"
    "ua_peer_addr c = peer" "\<exists>s'. ua_client_session c = Some s' \<and> sess_id s' = sess_id s"
    using s assms(2) by (auto simp: session_admits_def a1_def Let_def split: option.splits prod.splits)
  have "b = a1 \<or> b = c \<or> (\<exists>sent. adds_sends sent c b)"
    using assms(1) s dispatch_outbound_adds [of E target data c]
    by (auto simp: dispatch_received_packet_def Let_def assms(2) a1 split: if_splits prod.splits bool.splits res.splits)
  then show "ua_replies b = ua_replies a" "ua_server_session_id b = ua_server_session_id a"
    "ua_server_packet_id b = ua_server_packet_id a" "ua_peer_addr b = peer"
    "\<exists>s'. ua_client_session b = Some s' \<and> sess_id s' = sess_id s"
    using c assms(2) by (auto simp: a1_def adds_sends_def)
qed

lemma step_replies:
  assumes "assoc_step E ev a = Some (r, b)" "ua_client_session a = Some s"
  shows "\<exists>new s'. ua_replies b = ua_replies a @ new
     \<and> session_replies (ua_server_session_id a) (sess_id s) (ua_server_packet_id a) {ua_peer_addr a} new
     \<and> (\<forall>x \<in> set new. packet_id (rp_control x) = ua_server_packet_id b) \<and> ua_server_packet_id a \<le> ua_server_packet_id b
     \<and> ua_server_session_id b = ua_server_session_id a \<and> ua_client_session b = Some s' \<and> sess_id s' = sess_id s
     \<and> ua_peer_addr b \<in> insert (ua_peer_addr a) (fst ` set (packets_of [ev]))"
proof (cases ev)
  case (Packet p)
  then obtain peer target data control where "ev = Packet (peer, target, data, control)" by (metis prod_cases4)
  then show ?thesis using assms packet_keeps_replies [of E peer target data control a r b s]
    by (auto simp: session_replies_def)
next
  case (FromOutbound fam received)
  note keep = other_step_keeps [OF assms(1)]
  show ?thesis
  proof (cases "\<exists>d. received = Ok d \<and> has_socket fam a")
    case True
    then obtain datagram addr where "send_received_respond_packet E (SocketAddress addr) (take MAXIMUM_UDP_PAYLOAD_SIZE datagram) a = Some (r, b)"
      using assms(1) FromOutbound by (auto simp: receive_from_outbound_def)
    from respond_replies [OF this assms(2)] keep FromOutbound assms(2) show ?thesis by auto
  next
    case False
    then have "ua_replies b = ua_replies a \<and> ua_server_session_id b = ua_server_session_id a \<and> ua_server_packet_id b = ua_server_packet_id a"
      using assms(1) FromOutbound
      by (auto simp: receive_from_outbound_def split: if_splits res.splits addr_family.splits)
    with keep FromOutbound assms(2) show ?thesis by (auto simp: session_replies_def)
  qed
next
  case (Tick has_room)
  then show ?thesis using assms by (auto simp: keepalive_tick_def session_replies_def)
qed

lemma session_replies_append:
  assumes "session_replies own_id session lower peers xs" "\<forall>x \<in> set xs. packet_id (rp_control x) \<le> mid" "lower \<le> mid"
    and "session_replies own_id session mid peers ys"
  shows "session_replies own_id session lower peers (xs @ ys)"
  using assms unfolding session_replies_def by (auto simp: sorted_wrt_append intro: order.strict_trans1)

lemma run_replies:
  assumes "ua_client_session a = Some s"
  shows "\<exists>new. ua_replies (dispatch_packet E evs a) = ua_replies a @ new
     \<and> session_replies (ua_server_session_id a) (sess_id s) (ua_server_packet_id a)
          (insert (ua_peer_addr a) (fst ` set (packets_of evs))) new"
  using assms
proof (induction evs arbitrary: a s)
  case Nil
  then show ?case by (simp add: session_replies_def)
next
  case (Cons ev evs)
  show ?case
  proof (cases "assoc_step E ev a")
    case None
    then show ?thesis by (simp add: session_replies_def)
  next
    case (Some rb)
    obtain r b where st: "assoc_step E ev a = Some (r, b)" using Some by (cases rb) simp
    obtain evs' where run: "evs' = evs \<or> evs' = []" "dispatch_packet E (ev # evs) a = dispatch_packet E evs' b"
      using dispatch_packet_step [OF st] by blast
    obtain new s' where new: "ua_replies b = ua_replies a @ new"
      "session_replies (ua_server_session_id a) (sess_id s) (ua_server_packet_id a) {ua_peer_addr a} new"
      "\<forall>x \<in> set new. packet_id (rp_control x) = ua_server_packet_id b" "ua_server_packet_id a \<le> ua_server_packet_id b"
      "ua_server_session_id b = ua_server_session_id a" "ua_client_session b = Some s'" "sess_id s' = sess_id s"
      "ua_peer_addr b \<in> insert (ua_peer_addr a) (fst ` set (packets_of [ev]))"
      using step_replies [OF st Cons.prems] by blast
    let ?peers = "insert (ua_peer_addr a) (fst ` set (packets_of (ev # evs)))"
    have ev: "set (packets_of (ev # evs)) = set (packets_of [ev]) \<union> set (packets_of evs)" by (cases ev) auto
    have peers: "insert (ua_peer_addr b) (fst ` set (packets_of evs)) \<subseteq> ?peers" using new(8) ev by auto
    have "\<exists>more. ua_replies (dispatch_packet E evs' b) = ua_replies b @ more
        \<and> session_replies (ua_server_session_id b) (sess_id s') (ua_server_packet_id b) ?peers more"
      using run(1)
    proof
      assume "evs' = evs"
      then show ?thesis using Cons.IH [OF new(6)] session_replies_mono [OF _ order_refl peers] by blast
    qed (simp add: session_replies_def)
    then obtain more where more: "ua_replies (dispatch_packet E evs' b) = ua_replies b @ more"
      "session_replies (ua_server_session_id b) (sess_id s') (ua_server_packet_id b) ?peers more" by blast
    have "session_replies (ua_server_session_id a) (sess_id s) (ua_server_packet_id a) ?peers (new @ more)"
      by (rule session_replies_append [OF session_replies_mono [OF new(2)]]) (use new more in auto)
    then show ?thesis unfolding run(2) more(1) new(1) by auto
  qed
qed

section \<open>Routing\<close>

text \<open>What the code relies on of the cache: it holds only what was inserted and not replaced.\<close>

definition lru_cache_laws :: "'m lru_cache \<Rightarrow> 'm \<Rightarrow> bool" where
  "lru_cache_laws L cache \<longleftrightarrow>
     (\<forall>k. lc_view L cache k = None)
     \<and> (\<forall>t k m. lc_view L (snd (lc_get L t k m)) \<subseteq>\<^sub>m lc_view L m)
     \<and> (\<forall>t k m i. fst (lc_get L t k m) = Some i \<longrightarrow> lc_view L (snd (lc_get L t k m)) k = Some i)
     \<and> (\<forall>t k i m. lc_view L (lc_insert L t k i m) \<subseteq>\<^sub>m (lc_view L m)(k \<mapsto> i))
     \<and> (\<forall>t m. lc_view L (lc_iter L t m) \<subseteq>\<^sub>m lc_view L m)
     \<and> (\<forall>m i. lc_holds L m i \<longleftrightarrow> (\<exists>k. lc_view L m k = Some i))"

text \<open>The key under which the server looks for the association of a message.\<close>

fun message_key :: "'m nat_map \<Rightarrow> message \<Rightarrow> nat_key option" where
  "message_key (Association m) (peer, target, data, control) = (if control = None then Some (PeerAddr peer) else None)"
| "message_key (Session m) (peer, target, data, control) = map_option (\<lambda>c. SessionId (client_session_id c)) control"

fun key_fits :: "'m nat_map \<Rightarrow> nat_key \<Rightarrow> bool" where
  "key_fits (Association m) (PeerAddr p) = True"
| "key_fits (Session m) (SessionId s) = True"
| "key_fits _ _ = False"

definition task_fits :: "'m nat_map \<Rightarrow> task \<Rightarrow> bool" where
  "task_fits nm t \<longleftrightarrow> key_fits nm (assoc_key (tk_assoc t)) \<and> (\<forall>msg \<in> set (tk_queue t). message_key nm msg = Some (assoc_key (tk_assoc t)))"

definition server_inv :: "'m lru_cache \<Rightarrow> 'm udp_server \<Rightarrow> bool" where
  "server_inv L sv \<longleftrightarrow>
     (\<forall>i t. sv_tasks sv i = Some t \<longrightarrow> i < sv_next sv \<and> task_fits (sv_map sv) t)
     \<and> (\<forall>k i. lc_view L (nm_cache (sv_map sv)) k = Some i \<longrightarrow> (\<exists>t. sv_tasks sv i = Some t \<and> assoc_key (tk_assoc t) = k))
     \<and> (\<forall>k \<in> set (sv_keepalive sv). key_fits (sv_map sv) k)
     \<and> (\<forall>msg \<in> set (sv_received sv). message_key (sv_map sv) msg \<noteq> None)"

lemma lru_cache_lawsD:
  assumes "lru_cache_laws L cache"
  shows "lc_view L cache k = None" "lc_view L (snd (lc_get L t k m)) \<subseteq>\<^sub>m lc_view L m"
    "fst (lc_get L t k m) = Some i \<Longrightarrow> lc_view L (snd (lc_get L t k m)) k = Some i"
    "lc_view L (lc_insert L t k i m) \<subseteq>\<^sub>m (lc_view L m)(k \<mapsto> i)" "lc_view L (lc_iter L t m) \<subseteq>\<^sub>m lc_view L m"
    "lc_holds L m i \<longleftrightarrow> (\<exists>k. lc_view L m k = Some i)"
  using assms by (auto simp: lru_cache_laws_def)

lemma map_le_SomeD: "f \<subseteq>\<^sub>m g \<Longrightarrow> f k = Some v \<Longrightarrow> g k = Some v"
  by (auto simp: map_le_def dom_def)

abbreviation with_cache :: "'m \<Rightarrow> 'm nat_map \<Rightarrow> 'm nat_map" where
  "with_cache m nm \<equiv> (case nm of Association _ \<Rightarrow> Association m | Session _ \<Rightarrow> Session m)"

lemma with_cache_simps [simp]:
  "message_key (with_cache m nm) msg = message_key nm msg" "key_fits (with_cache m nm) k = key_fits nm k"
  "nm_cache (with_cache m nm) = m" "task_fits (with_cache m nm) t = task_fits nm t"
proof -
  show k: "message_key (with_cache m nm) msg = message_key nm msg" for msg by (cases nm; cases msg) auto
  show f: "key_fits (with_cache m nm) k = key_fits nm k" for k by (cases nm; cases k) auto
  show "nm_cache (with_cache m nm) = m" by (cases nm) auto
  show "task_fits (with_cache m nm) t = task_fits nm t" by (simp add: task_fits_def k f)
qed

lemma set_cache_inv:
  assumes "lru_cache_laws L cache"
    and "\<forall>i t. sv_tasks sv i = Some t \<longrightarrow> i < sv_next sv \<and> task_fits (sv_map sv) t"
    and "\<forall>k i. lc_view L m k = Some i \<longrightarrow> (\<exists>t. sv_tasks sv i = Some t \<and> assoc_key (tk_assoc t) = k)"
    and "\<forall>k \<in> set (sv_keepalive sv). key_fits (sv_map sv) k" "\<forall>msg \<in> set (sv_received sv). message_key (sv_map sv) msg \<noteq> None"
  shows "server_inv L (set_cache L m sv)"
  using assms lru_cache_lawsD(6) [OF assms(1)] by (auto simp: server_inv_def set_cache_def)

lemma set_cache_smaller:
  assumes "lru_cache_laws L cache" "server_inv L sv" "lc_view L m \<subseteq>\<^sub>m lc_view L (nm_cache (sv_map sv))"
  shows "server_inv L (set_cache L m sv)"
  using assms(2) map_le_SomeD [OF assms(3)] by (intro set_cache_inv [OF assms(1)]) (auto simp: server_inv_def)

lemma set_cache_fields [simp]:
  "sv_map (set_cache L m sv) = with_cache m (sv_map sv)" "sv_next (set_cache L m sv) = sv_next sv"
  "sv_keepalive (set_cache L m sv) = sv_keepalive sv" "sv_received (set_cache L m sv) = sv_received sv"
  by (simp_all add: set_cache_def)

lemma task_update_inv:
  assumes "server_inv L sv" "sv_tasks sv i = Some t" "task_fits (sv_map sv) t'" "assoc_key (tk_assoc t') = assoc_key (tk_assoc t)"
  shows "server_inv L (sv\<lparr>sv_tasks := (sv_tasks sv)(i \<mapsto> t')\<rparr>)"
  using assms unfolding server_inv_def by (auto, (metis option.inject)+)

lemma try_send_fits:
  assumes "try_send msg t = Some t'" "task_fits nm t" "message_key nm msg = Some (assoc_key (tk_assoc t))"
  shows "task_fits nm t' \<and> tk_assoc t' = tk_assoc t"
  using assms by (auto simp: try_send_def task_fits_def split: if_splits)

lemma send_to_key_inv:
  assumes laws: "lru_cache_laws L cache" and inv: "server_inv L sv"
    and key: "key_fits (sv_map sv) key" "message_key (sv_map sv) msg = Some key"
    and made: "assoc_key (assoc_create (fst msg) session_id fresh_id) = key"
    and sent: "send_to_key L time fresh_id key session_id msg sv = (r, sv')"
  shows "server_inv L sv'"
proof -
  obtain found m where g: "lc_get L time key (nm_cache (sv_map sv)) = (found, m)" by fastforce
  define sv1 where "sv1 = set_cache L m sv"
  have inv1: "server_inv L sv1" unfolding sv1_def
    by (rule set_cache_smaller [OF laws inv]) (use lru_cache_lawsD(2) [OF laws, of time key "nm_cache (sv_map sv)"] g in simp)
  have map1: "sv_map sv1 = with_cache m (sv_map sv)" by (simp add: sv1_def)
  show ?thesis
  proof (cases found)
    case (Some i)
    have "lc_view L m key = Some i" using lru_cache_lawsD(3) [OF laws, of time key "nm_cache (sv_map sv)" i] g Some by simp
    then have "\<exists>t. sv_tasks sv1 i = Some t \<and> assoc_key (tk_assoc t) = key" using inv1 map1 by (simp add: server_inv_def)
    then obtain t where t: "sv_tasks sv1 i = Some t" "assoc_key (tk_assoc t) = key" "task_fits (sv_map sv1) t"
      using inv1 by (auto simp: server_inv_def)
    show ?thesis
    proof (cases "try_send msg t")
      case None
      then show ?thesis using sent g Some t(1) inv1 by (simp add: send_to_key_def sv1_def)
    next
      case (Some t')
      from try_send_fits [OF Some t(3)] have t': "task_fits (sv_map sv1) t'" "tk_assoc t' = tk_assoc t" using t(2) key(2) map1 by simp_all
      have "sv' = sv1\<lparr>sv_tasks := (sv_tasks sv1)(i \<mapsto> t')\<rparr>"
        using sent g \<open>found = Some i\<close> t(1) Some by (simp add: send_to_key_def sv1_def Let_def)
      with task_update_inv [OF inv1 t(1) t'(1)] t'(2) show ?thesis by simp
    qed
  next
    case None
    let ?t0 = "\<lparr>tk_assoc = assoc_create (fst msg) session_id fresh_id, tk_queue = [], tk_open = True\<rparr>"
    obtain t where t: "try_send msg ?t0 = Some t" by (simp add: try_send_def UDP_ASSOCIATION_SEND_CHANNEL_SIZE_def)
    have fits: "task_fits (sv_map sv1) t" "assoc_key (tk_assoc t) = key"
      using try_send_fits [OF t, of "sv_map sv1"] key made map1 by (simp_all add: task_fits_def)
    define i where "i = sv_next sv1"
    define sv2 where "sv2 = sv1\<lparr>sv_tasks := (sv_tasks sv1)(i \<mapsto> t), sv_next := Suc i\<rparr>"
    have "sv' = set_cache L (lc_insert L time key i (nm_cache (sv_map sv1))) sv2"
      using sent g None t by (simp add: send_to_key_def sv1_def sv2_def i_def Let_def)
    moreover have "server_inv L (set_cache L (lc_insert L time key i (nm_cache (sv_map sv1))) sv2)"
    proof (rule set_cache_inv [OF laws])
      have old: "sv_tasks sv1 j = Some t' \<Longrightarrow> j < i \<and> task_fits (sv_map sv1) t'" for j t' using inv1 by (auto simp: server_inv_def i_def)
      have "j < sv_next sv2 \<and> task_fits (sv_map sv2) t'" if "sv_tasks sv2 j = Some t'" for j t'
        using that old [of j t'] fits(1) by (cases "j = i") (auto simp: sv2_def)
      then show "\<forall>j t'. sv_tasks sv2 j = Some t' \<longrightarrow> j < sv_next sv2 \<and> task_fits (sv_map sv2) t'" by blast
      show "\<forall>k j. lc_view L (lc_insert L time key i (nm_cache (sv_map sv1))) k = Some j
          \<longrightarrow> (\<exists>t'. sv_tasks sv2 j = Some t' \<and> assoc_key (tk_assoc t') = k)"
      proof (intro allI impI)
        fix k j assume "lc_view L (lc_insert L time key i (nm_cache (sv_map sv1))) k = Some j"
        then have "((lc_view L (nm_cache (sv_map sv1)))(key \<mapsto> i)) k = Some j" by (rule map_le_SomeD [OF lru_cache_lawsD(4) [OF laws]])
        then consider "k = key" "j = i" | "lc_view L (nm_cache (sv_map sv1)) k = Some j" by (cases "k = key") auto
        then show "\<exists>t'. sv_tasks sv2 j = Some t' \<and> assoc_key (tk_assoc t') = k"
        proof cases
          case 2
          then obtain t' where "sv_tasks sv1 j = Some t'" "assoc_key (tk_assoc t') = k" using inv1 unfolding server_inv_def by blast
          moreover from this(1) have "j \<noteq> i" using old [of j t'] by auto
          ultimately show ?thesis by (simp add: sv2_def)
        qed (use fits in \<open>simp add: sv2_def\<close>)
      qed
    qed (use inv1 in \<open>auto simp: server_inv_def sv2_def\<close>)
    ultimately show ?thesis by simp
  qed
qed

text \<open>Received packets fit the kind of the map.\<close>

definition fits_kind :: "'m nat_map \<Rightarrow> cipher_kind \<Rightarrow> bool" where
  "fits_kind nm kind \<longleftrightarrow> (case nm of Session _ \<Rightarrow> category kind = CatAead2022 | Association _ \<Rightarrow> category kind \<noteq> CatAead2022)"

lemma fits_kind_with_cache [simp]: "fits_kind (with_cache m nm) kind = fits_kind nm kind"
  by (cases nm) (auto simp: fits_kind_def)

lemma map_err_Ok_iff [simp]: "map_err f r = Ok x \<longleftrightarrow> r = Ok x"
  by (cases r) auto

lemma decrypt_control:
  assumes "decrypt_recv_buffer C U H now ps buf = Ok (n, addr, control)"
  shows "control = None \<longleftrightarrow> category (ps_method ps) \<noteq> CatAead2022"
  using assms
  by (cases "category (ps_method ps)"; cases "ps_type ps")
    (auto simp: decrypt_recv_buffer_def decrypt_client_payload_def decrypt_server_payload_def decrypt_plain_def
      without_control_def with_control_def bind_res_Ok_iff split: res.splits)

lemma recv_message_key:
  assumes "recv_one_packet E now call recv_io = Some (Ok (Some msg))" "fits_kind nm (ps_method (se_listener E))"
  shows "message_key nm msg \<noteq> None"
proof -
  obtain x where x: "recv_from_with_ctrl (se_cipher E) (se_udp E) (se_hash E) now (se_listener E) MAXIMUM_UDP_PAYLOAD_SIZE recv_io
       = Some x" using assms(1) by (auto simp: recv_one_packet_def)
  obtain data peer target n control where "x = Ok (data, peer, target, n, control)" and msg: "msg = (peer, target, data, control)"
    using assms(1) x by (cases x) (auto simp: recv_one_packet_def split: if_splits)
  with x have "control = None \<longleftrightarrow> category (ps_method (se_listener E)) \<noteq> CatAead2022"
    by (auto simp: recv_from_with_ctrl_def bind_res_Ok_iff Let_def dest: decrypt_control)
  then show ?thesis using assms(2) by (cases nm) (auto simp: fits_kind_def msg)
qed

lemma packet_keeps_key:
  assumes "dispatch_received_packet E peer target data control a = (r, b)"
    and "message_key nm (peer, target, data, control) = Some (assoc_key a)"
  shows "assoc_key b = assoc_key a"
proof (cases "ua_client_session a")
  case (Some s)
  then show ?thesis using packet_keeps_replies(5) [OF assms(1)] by (auto simp: assoc_key_def)
next
  case None
  with assms(2) have "control = None" by (cases nm) (auto simp: assoc_key_def split: if_splits)
  then show ?thesis using assms(1) None dispatch_outbound_adds [of E target data a]
    by (auto simp: dispatch_received_packet_def session_admits_def assoc_key_def adds_sends_def
        split: if_splits prod.splits res.splits)
qed

lemma send_packet_inv:
  assumes "lru_cache_laws L cache" "server_inv L sv" "message_key (sv_map sv) msg \<noteq> None" "send_packet L time fresh_id msg sv = (r, sv')"
  shows "server_inv L sv'"
proof -
  obtain peer target data control where msg: "msg = (peer, target, data, control)" by (metis prod_cases4)
  show ?thesis
  proof (cases "sv_map sv")
    case (Association m)
    then show ?thesis using assms(3,4)
      by (intro send_to_key_inv [OF assms(1,2), of "PeerAddr peer" msg None fresh_id])
        (auto simp: msg send_packet_def assoc_key_def assoc_create_def split: if_splits)
  next
    case (Session m)
    then obtain c where "control = Some c" using assms(3) by (auto simp: msg)
    then show ?thesis using assms(3,4) Session
      by (intro send_to_key_inv [OF assms(1,2), of "SessionId (client_session_id c)" msg "Some (client_session_id c)" fresh_id])
        (auto simp: msg send_packet_def assoc_key_def assoc_create_def client_session_new_def)
  qed
qed

lemma send_packet_map: "send_packet L time fresh_id msg sv = (r, sv') \<Longrightarrow> \<exists>m. sv_map sv' = with_cache m (sv_map sv)"
  by (auto simp: send_packet_def send_to_key_def Let_def split: prod.splits nat_map.splits option.splits)

lemma task_fits_step:
  assumes "task_fits nm t" "assoc_key a = assoc_key (tk_assoc t)" "set (tk_queue t') \<subseteq> set (tk_queue t)" "tk_assoc t' = a"
  shows "task_fits nm t'"
  using assms by (auto simp: task_fits_def)

lemma server_step_inv:
  assumes "server_step L E sv sv'" "lru_cache_laws L cache" "server_inv L sv" "fits_kind (sv_map sv) (ps_method (se_listener E))"
  shows "server_inv L sv' \<and> fits_kind (sv_map sv') (ps_method (se_listener E))"
  using assms
proof (induction rule: server_step.induct)
  case (expired sv time)
  then show ?case using set_cache_smaller [OF expired(1,2) lru_cache_lawsD(5) [OF expired(1)]] by (simp add: cleanup_expired_def)
next
  case (alive sv key keys time r sv')
  let ?sv = "sv\<lparr>sv_keepalive := keys\<rparr>"
  have inv: "server_inv L ?sv" using alive.prems(2) alive.hyps(1) by (auto simp: server_inv_def)
  have "sv' = set_cache L (snd (lc_get L time key (nm_cache (sv_map ?sv)))) ?sv \<or> sv' = ?sv"
    using alive.hyps(2) by (auto simp: keep_alive_def split: nat_map.splits nat_key.splits)
  with set_cache_smaller [OF alive.prems(1) inv lru_cache_lawsD(2) [OF alive.prems(1)]] inv alive.prems(3) show ?case by auto
next
  case (recv now call recv_io msg draws fresh_id time sv r sv')
  then show ?case using send_packet_inv [OF recv.prems(1,2) recv_message_key [OF recv.hyps(1) recv.prems(3)] recv.hyps(3)]
    send_packet_map [OF recv.hyps(3)] by auto
next
  case (worker now call recv_io msg sv)
  then show ?case using recv_message_key [OF worker.hyps(1) worker.prems(3)] by (auto simp: server_inv_def)
next
  case (multicore sv msg msgs draws fresh_id time r sv')
  let ?sv = "sv\<lparr>sv_received := msgs\<rparr>"
  have inv: "server_inv L ?sv" "message_key (sv_map ?sv) msg \<noteq> None" using multicore.prems(2) multicore.hyps(1) by (auto simp: server_inv_def)
  show ?case using send_packet_inv [OF multicore.prems(1) inv multicore.hyps(3)] send_packet_map [OF multicore.hyps(3)] multicore.prems(3) by auto
next
  case (packet sv i t msg msgs out r a)
  have fits: "task_fits (sv_map sv) t" using packet.prems(2) packet.hyps(1) by (auto simp: server_inv_def)
  obtain peer target data control where msg: "msg = (peer, target, data, control)" by (metis prod_cases4)
  have "assoc_key a = assoc_key (tk_assoc t)"
    by (rule packet_keeps_key [of "E\<lparr>se_outside := out\<rparr>" peer target data control "tk_assoc t" r a "sv_map sv"])
      (use packet.hyps fits msg in \<open>auto simp: task_fits_def\<close>)
  then show ?case
    using task_update_inv [OF packet.prems(2) packet.hyps(1), of "\<lparr>tk_assoc = a, tk_queue = msgs, tk_open = is_ok r\<rparr>"]
      task_fits_step [OF fits, of a "\<lparr>tk_assoc = a, tk_queue = msgs, tk_open = is_ok r\<rparr>"] packet by auto
next
  case (outbound sv i t out fam received r a)
  have fits: "task_fits (sv_map sv) t" using outbound.prems(2) outbound.hyps(1) by (auto simp: server_inv_def)
  have "assoc_key a = assoc_key (tk_assoc t)"
    using other_step_keeps [OF outbound.hyps(3)] by (auto simp: assoc_key_def split: option.splits)
  then show ?case
    using task_update_inv [OF outbound.prems(2) outbound.hyps(1), of "t\<lparr>tk_assoc := a, tk_open := is_ok r\<rparr>"]
      task_fits_step [OF fits, of a "t\<lparr>tk_assoc := a, tk_open := is_ok r\<rparr>"] outbound by auto
next
  case (tick sv i t key a)
  have fits: "task_fits (sv_map sv) t" using tick.prems(2) tick.hyps(1) by (auto simp: server_inv_def)
  have k: "assoc_key a = assoc_key (tk_assoc t)" "key = None \<or> key = Some (assoc_key (tk_assoc t))"
    using tick.hyps(3) by (auto simp: keepalive_tick_def assoc_key_def split: if_splits option.splits)
  have "server_inv L (sv\<lparr>sv_tasks := (sv_tasks sv)(i \<mapsto> t\<lparr>tk_assoc := a\<rparr>)\<rparr>)"
    using task_update_inv [OF tick.prems(2) tick.hyps(1), of "t\<lparr>tk_assoc := a\<rparr>"] task_fits_step [OF fits k(1), of "t\<lparr>tk_assoc := a\<rparr>"] k(1) by auto
  moreover have "key_fits (sv_map sv) (assoc_key (tk_assoc t))" using fits by (simp add: task_fits_def)
  ultimately show ?case using k(2) tick.prems(3) by (auto simp: server_inv_def)
qed

lemma server_reachable_inv:
  assumes "(server_step L E)\<^sup>*\<^sup>* sv sv'" "lru_cache_laws L cache" "server_inv L sv" "fits_kind (sv_map sv) (ps_method (se_listener E))"
  shows "server_inv L sv' \<and> fits_kind (sv_map sv') (ps_method (se_listener E))"
  using assms(1)
proof (induction rule: rtranclp_induct)
  case base
  show ?case using assms(3,4) by simp
next
  case (step y z)
  then show ?case using server_step_inv [OF step(2) assms(2)] by blast
qed

lemma server_new_inv:
  assumes "lru_cache_laws L cache"
  shows "server_inv L (udp_server_new cache kind)" "fits_kind (sv_map (udp_server_new cache kind)) kind"
  using lru_cache_lawsD(1) [OF assms]
  by (auto simp: server_inv_def udp_server_new_def fits_kind_def split: cipher_category.splits)

section \<open>Properties\<close>

text \<open>
  C7: A UDP association forwards every packet at most once. Over any sequence of received packets, answers and timer
  ticks, and whatever the sockets and the resolver answer, the successful sends of a new association serve, in
  order, a subsequence of the received packets in which no packet id occurs twice. A send serves a packet when it
  carries its payload, the access control list let the target pass, and its destination is the target, or one of the addresses the
  target resolved to, in the form the sockets of the system take.
\<close>

theorem udp_packets_served_once:
  "\<exists>served. subseq served (packets_of evs) \<and> distinct (packet_ids served)
     \<and> list_all2 (serves E) (ok_sends (ua_calls (dispatch_packet E evs (assoc_create peer session own_id)))) served"
proof -
  have "assoc_window (assoc_create peer session own_id) = window_new"
    by (auto simp: assoc_window_def assoc_create_def client_session_new_def split: option.splits)
  then have "represents (assoc_window (assoc_create peer session own_id)) seen_empty" using represents_new by simp
  from run_serves [OF this, of E evs] show ?thesis unfolding served_by_def by (auto simp: assoc_create_def)
qed

text \<open>
  C21: The replies of a session are counted. Over any sequence of events the replies a session's association sends carry
  its own session id, the client's session id and strictly increasing packet ids from 1 on, so that no pair of session
  and packet id, from which key and nonce are made, is used twice; and they go to the address the association was
  made for or to one a packet of the session came from.
\<close>

theorem udp_replies_counted:
  "let replies = ua_replies (dispatch_packet E evs (assoc_create peer (Some session) own_id)) in
     sorted_wrt (<) (0 # map (packet_id \<circ> rp_control) replies)
     \<and> list_all (\<lambda>x. client_session_id (rp_control x) = session \<and> server_session_id (rp_control x) = own_id
          \<and> rp_to x \<in> insert peer (fst ` set (packets_of evs))) replies"
proof -
  have "ua_client_session (assoc_create peer (Some session) own_id) = Some (client_session_new session)" by (simp add: assoc_create_def)
  from run_replies [OF this, of E evs] show ?thesis
    by (auto simp: assoc_create_def client_session_new_def session_replies_def list_all_iff Let_def)
qed

text \<open>
  C34: A replayed packet moves the session. The association takes over the sender's address before it checks the packet
  id: a packet whose id the window refuses, a copy of an earlier one for instance, is not forwarded, but from then on
  the replies of the session go to the address the copy came from.
\<close>

theorem udp_replay_moves_peer:
  assumes "ua_client_session a = Some s" "\<not> fst (validate_packet_id (sess_window s) (packet_id c) 0xFFFFFFFFFFFFFFFF)"
  shows "\<exists>b. dispatch_received_packet E peer target data (Some c) a = (Ok (), b) \<and> ua_calls b = ua_calls a
     \<and> ua_peer_addr b = peer
     \<and> (\<forall>addr answer r b'. send_received_respond_packet E addr answer b = Some (r, b')
          \<longrightarrow> (\<exists>new. ua_replies b' = ua_replies a @ new \<and> list_all (\<lambda>x. rp_to x = peer) new))"
proof -
  define a1 where "a1 = a\<lparr>ua_peer_addr := peer\<rparr>"
  have a1: "(if peer \<noteq> ua_peer_addr a then a\<lparr>ua_peer_addr := peer\<rparr> else a) = a1" by (simp add: a1_def)
  obtain b1 where "session_admits (Some c) a1 = (False, b1)" "ua_calls b1 = ua_calls a"
    using assms by (cases "validate_packet_id (sess_window s) (packet_id c) 0xFFFFFFFFFFFFFFFF") (auto simp: session_admits_def a1_def)
  then have "\<exists>b. dispatch_received_packet E peer target data (Some c) a = (Ok (), b) \<and> ua_calls b = ua_calls a"
    by (simp add: dispatch_received_packet_def assms(1) a1 Let_def) (simp add: a1_def)
  then obtain b where b: "dispatch_received_packet E peer target data (Some c) a = (Ok (), b)" "ua_calls b = ua_calls a" by blast
  note keep = packet_keeps_replies [OF b(1) assms(1)]
  obtain s' where s': "ua_client_session b = Some s'" using keep(5) by blast
  have "\<exists>new. ua_replies b' = ua_replies a @ new \<and> list_all (\<lambda>x. rp_to x = peer) new"
    if "send_received_respond_packet E addr answer b = Some (r, b')" for addr answer r b'
    using respond_replies [OF that s'] keep(1,4) by (auto simp: session_replies_def list_all_iff)
  with b keep(4) show ?thesis by blast
qed

text \<open>
  C8: The server routes packets to their session. In every state reachable from a new server, in any interleaving of
  receiving, expiry, keep-alive messages and the tasks of the associations: a key in the map belongs to a live
  association of that key, and all packets waiting for it have that key, the session id for an AEAD-2022 method and
  the client's address otherwise. So packets of two sessions never meet in one association, and the keep-alive
  messages never reach the \<open>unreachable!\<close> of \<open>keep_alive\<close>.
\<close>

theorem udp_server_routes:
  assumes "lru_cache_laws L cache" "(server_step L E)\<^sup>*\<^sup>* (udp_server_new cache (ps_method (se_listener E))) sv"
  shows "(\<forall>k i. lc_view L (nm_cache (sv_map sv)) k = Some i \<longrightarrow>
       (\<exists>t. sv_tasks sv i = Some t \<and> assoc_key (tk_assoc t) = k \<and> (\<forall>msg \<in> set (tk_queue t). message_key (sv_map sv) msg = Some k)))
     \<and> (\<forall>key keys time. sv_keepalive sv = key # keys \<longrightarrow> fst (keep_alive L time key sv) = Ok ())"
proof -
  have inv: "server_inv L sv" using server_reachable_inv [OF assms(2,1) server_new_inv [OF assms(1)]] by blast
  have "fst (keep_alive L time key sv) = Ok ()" if "sv_keepalive sv = key # keys" for key keys time
  proof -
    have "key_fits (sv_map sv) key" using inv that by (simp add: server_inv_def)
    then show ?thesis by (cases "sv_map sv"; cases key) (auto simp: keep_alive_def)
  qed
  moreover have "\<exists>t. sv_tasks sv i = Some t \<and> assoc_key (tk_assoc t) = k \<and> (\<forall>msg \<in> set (tk_queue t). message_key (sv_map sv) msg = Some k)"
    if "lc_view L (nm_cache (sv_map sv)) k = Some i" for k i
    using inv that unfolding server_inv_def task_fits_def by blast
  ultimately show ?thesis by blast
qed

section \<open>Witnesses\<close>

definition demo_outside :: outside where
  "demo_outside = \<lparr>connect_any = (\<lambda>n fam. Ok ()), outbound_send = (\<lambda>n. Ok 1), resolve_name = (\<lambda>n h p. Ok [V4 9 p]),
     resolve_acl = (\<lambda>n h p. None),
     reply_with = (\<lambda>n. \<lparr>dr_now = 1000, dr_rnd = [], dr_drawn = 0, dr_mem = [], dr_send = (\<lambda>b to. Completed (Ok (length b)))\<rparr>)\<rparr>"

definition demo_env :: "cipher_kind \<Rightarrow> (nat, byte list \<times> u64, (ipv4 \<times> nat) list, (ipv6 \<times> nat) list, rstring list) server_env" where
  "demo_env kind = \<lparr>se_cipher = counter_cipher, se_udp = demo_udp, se_hash = demo_hash, se_acl_ops = demo_acl, se_acl = None,
     se_ipv6_first = False, se_caps = \<lparr>support_ipv4 = True, support_ipv6 = True, support_ipv4_mapped_ipv6 = True\<rparr>,
     se_listener = from_socket ServerSocket kind [1, 2] [] (Some demo_users), se_outside = demo_outside\<rparr>"

abbreviation "demo_control \<equiv> default_control\<lparr>client_session_id := 77, packet_id := 5\<rparr>"

theorem udp_replay_moves_peer_witness:
  "\<exists>a b. dispatch_received_packet (demo_env demo_kind) (V4 1 1) demo_dest [9] (Some demo_control) (assoc_create (V4 1 1) (Some 77) 3) = (Ok (), a)
     \<and> ok_sends (ua_calls a) = [(V6 (to_ipv6_mapped 9) 53 0 0, [9])]
     \<and> dispatch_received_packet (demo_env demo_kind) (V4 6 6) demo_dest [9] (Some demo_control) a = (Ok (), b)
     \<and> ua_calls b = ua_calls a \<and> ua_peer_addr b = V4 6 6"
proof -
  define w where "w = snd (validate_packet_id window_new 5 0xFFFFFFFFFFFFFFFF)"
  have w: "fst (validate_packet_id window_new 5 0xFFFFFFFFFFFFFFFF)" "\<not> fst (validate_packet_id w 5 0xFFFFFFFFFFFFFFFF)"
    unfolding w_def by code_simp+
  define a where "a = snd (dispatch_received_packet (demo_env demo_kind) (V4 1 1) demo_dest [9] (Some demo_control) (assoc_create (V4 1 1) (Some 77) 3))"
  have a: "dispatch_received_packet (demo_env demo_kind) (V4 1 1) demo_dest [9] (Some demo_control) (assoc_create (V4 1 1) (Some 77) 3) = (Ok (), a)
      \<and> ok_sends (ua_calls a) = [(V6 (to_ipv6_mapped 9) 53 0 0, [9])] \<and> ua_client_session a = Some \<lparr>sess_id = 77, sess_window = w, sess_user = None\<rparr>"
    using w(1) unfolding a_def w_def
    by (simp add: dispatch_received_packet_def assoc_create_def client_session_new_def session_admits_def case_prod_beta
        context_check_outbound_blocked_def demo_env_def demo_outside_def default_control_def dispatch_received_outbound_packet_def
        send_received_outbound_packet_def outbound_target_def open_outbound_def Let_def)
  from udp_replay_moves_peer [of a _ demo_control "demo_env demo_kind" "V4 6 6" demo_dest "[9]"] a w(2) show ?thesis by auto
qed

definition demo_lru :: "(nat_key \<rightharpoonup> nat) lru_cache" where
  "demo_lru = \<lparr>lc_get = (\<lambda>t k m. (m k, m)), lc_insert = (\<lambda>t k i m. m(k \<mapsto> i)), lc_iter = (\<lambda>t m. m),
     lc_holds = (\<lambda>m i. \<exists>k. m k = Some i), lc_view = (\<lambda>m. m)\<rparr>"

lemma demo_lru_laws: "lru_cache_laws demo_lru Map.empty"
  by (auto simp: lru_cache_laws_def demo_lru_def)

abbreviation "plain_kind \<equiv> demo_kind\<lparr>category := CatNone\<rparr>"

theorem udp_server_routes_witness:
  "\<exists>sv t. (server_step demo_lru (demo_env plain_kind))\<^sup>*\<^sup>* (udp_server_new Map.empty plain_kind) sv
     \<and> sv_tasks sv 0 = Some t \<and> assoc_key (tk_assoc t) = PeerAddr (V4 7 7)
     \<and> tk_queue t = [(V4 7 7, demo_dest, [8], None)]"
proof -
  let ?E = "demo_env plain_kind" and ?msg = "(V4 7 7, demo_dest, [8 :: byte], None :: udp_control option)"
  have "decrypt_plain ([1, 0, 0, 0, 9, 0, 53] @ [8]) = Ok ([8], demo_dest, None)"
    by (rule decrypt_plain_ok) code_simp+
  then have recv: "recv_one_packet ?E 0 0 (Completed (Ok ([1, 0, 0, 0, 9, 0, 53, 8], V4 7 7))) = Some (Ok (Some ?msg))"
    by (simp add: recv_one_packet_def recv_from_with_ctrl_def wait_io_def demo_env_def from_socket_def decrypt_recv_buffer_def
        decrypt_client_payload_def MAXIMUM_UDP_PAYLOAD_SIZE_def context_check_client_blocked_def context_check_outbound_blocked_def)
  obtain r sv where send: "send_packet demo_lru 0 3 ?msg (udp_server_new Map.empty plain_kind) = (r, sv)" by fastforce
  have reach: "(server_step demo_lru ?E)\<^sup>*\<^sup>* (udp_server_new Map.empty plain_kind) sv"
    by (rule r_into_rtranclp, rule server_step.recv [OF recv _ send, of "[3]"]) (simp add: generate_session_id_def)
  have sv: "lc_view demo_lru (nm_cache (sv_map sv)) (PeerAddr (V4 7 7)) = Some 0 \<and> (\<forall>t. sv_tasks sv 0 = Some t \<longrightarrow> tk_queue t = [?msg])"
    using send by (simp add: send_packet_def send_to_key_def udp_server_new_def demo_lru_def set_cache_def try_send_def
        UDP_ASSOCIATION_SEND_CHANNEL_SIZE_def Let_def cong: if_cong) (auto split: if_splits)
  have "se_listener ?E = from_socket ServerSocket plain_kind [1, 2] [] (Some demo_users)" by (simp add: demo_env_def)
  then have "ps_method (se_listener ?E) = plain_kind" by (simp add: from_socket_def)
  with udp_server_routes [OF demo_lru_laws, of ?E sv] reach sv show ?thesis by metis
qed

end
