(* ===== verification/Udp_Local.thy ===== *)
theory Udp_Local
  imports Udp_Routing
begin

text \<open>
  The client side of a UDP relay, \<open>shadowsocks-service/src/local/net/udp/association.rs\<close>: an association sends the
  packets of one application directly or through a proxied socket, and gives answers back to it. Which server the
  balancer picks and how its socket is opened are answers of the environment.
\<close>

section \<open>Associations\<close>

record sent_packet =
  sp_addr :: address
  sp_control :: udp_control
  sp_data :: "byte list"
  sp_datagram :: "byte list"

datatype local_call = BypassConnect addr_family | BypassSend socket_addr "byte list" bool
  | OpenProxied | ProxiedSend sent_packet

record client_draw =
  cd_now :: u64
  cd_rnd :: "byte list"
  cd_drawn :: nat
  cd_mem :: "byte list"
  cd_send :: "byte list \<Rightarrow> nat io_wait"

record local_outside =
  lo_connect_any :: "nat \<Rightarrow> addr_family \<Rightarrow> (unit, io_error) res"
  lo_send :: "nat \<Rightarrow> (nat, io_error) res"
  lo_resolve :: "nat \<Rightarrow> rstring \<Rightarrow> u16 \<Rightarrow> (socket_addr list, io_error) res"
  lo_resolve_acl :: "nat \<Rightarrow> rstring \<Rightarrow> u16 \<Rightarrow> socket_addr list option"
  lo_reverse :: "nat \<Rightarrow> ip_addr \<Rightarrow> bool option"
  lo_open_proxied :: "nat \<Rightarrow> (proxy_socket, io_error) res"
  lo_proxied_with :: "nat \<Rightarrow> client_draw"
  lo_new_session :: "nat \<Rightarrow> u64"

text \<open>The cache of server sessions, as operations on its contents at a time.\<close>

record 'm session_cache =
  sc_new :: 'm
  sc_get :: "nat \<Rightarrow> u64 \<Rightarrow> 'm \<Rightarrow> packet_window_filter option \<times> 'm"
  sc_put :: "nat \<Rightarrow> u64 \<Rightarrow> packet_window_filter \<Rightarrow> 'm \<Rightarrow> 'm"

record ('c, 'u, 'p4, 'p6, 'r, 'm) local_env =
  le_cipher :: "'c cipher_ops"
  le_udp :: "'u udp_cipher_ops"
  le_hash :: hash_ops
  le_acl_ops :: "('p4, 'p6, 'r) acl_ops"
  le_acl :: "('p4, 'p6, 'r) access_control option"
  le_balancer_empty :: bool
  le_ipv6_first :: bool
  le_dual_stack :: bool
  le_sessions :: "'m session_cache"
  le_outside :: local_outside

record 'm local_assoc =
  la_peer_addr :: socket_addr
  la_ipv4_socket :: bool
  la_ipv6_socket :: bool
  la_proxied :: "proxy_socket option"
  la_keepalive_flag :: bool
  la_session_id :: u64
  la_packet_id :: u64
  la_server_session :: "'m option"
  la_calls :: "local_call list"
  la_delivered :: "(socket_addr \<times> address \<times> byte list) list"

definition local_create :: "socket_addr \<Rightarrow> u64 \<Rightarrow> 'm local_assoc" where
  "local_create peer_addr session_id =
     \<lparr>la_peer_addr = peer_addr, la_ipv4_socket = False, la_ipv6_socket = False, la_proxied = None,
      la_keepalive_flag = False, la_session_id = session_id, la_packet_id = 0, la_server_session = None,
      la_calls = [], la_delivered = []\<rparr>"

text \<open>\<open>ServiceContext::check_target_bypassed\<close>; the reverse lookup cache says whether a known address is proxied.\<close>

definition local_check_target_bypassed ::
  "('p4, 'p6, 'r) acl_ops \<Rightarrow> (rstring \<Rightarrow> u16 \<Rightarrow> socket_addr list option) \<Rightarrow> (ip_addr \<Rightarrow> bool option)
     \<Rightarrow> ('p4, 'p6, 'r) access_control option \<Rightarrow> address \<Rightarrow> bool" where
  "local_check_target_bypassed A resolve reverse acl addr =
     (case acl of
        None \<Rightarrow> False
      | Some acl \<Rightarrow>
          (case (case addr of SocketAddress saddr \<Rightarrow> reverse (sock_ip saddr) | DomainNameAddress _ _ \<Rightarrow> None) of
             Some forward \<Rightarrow> \<not> forward
           | None \<Rightarrow> check_target_bypassed A resolve acl addr))"

subsection \<open>Bypassed packets\<close>

definition local_open :: "local_outside \<Rightarrow> addr_family \<Rightarrow> 'm local_assoc \<Rightarrow> (unit, io_error) res \<times> 'm local_assoc" where
  "local_open out fam a =
     (if (case fam of FamilyV4 \<Rightarrow> la_ipv4_socket a | FamilyV6 \<Rightarrow> la_ipv6_socket a) then (Ok (), a)
      else
        let r = lo_connect_any out (length (la_calls a)) fam;
            a = a\<lparr>la_calls := la_calls a @ [BypassConnect fam]\<rparr>
        in (r, if is_ok r then (case fam of FamilyV4 \<Rightarrow> a\<lparr>la_ipv4_socket := True\<rparr> | FamilyV6 \<Rightarrow> a\<lparr>la_ipv6_socket := True\<rparr>)
               else a))"

definition bypass_target :: "bool \<Rightarrow> socket_addr \<Rightarrow> socket_addr" where
  "bypass_target dual_stack addr =
     (case addr of
        V4 ip port \<Rightarrow> if dual_stack then V6 (to_ipv6_mapped ip) port 0 0 else addr
      | V6 ip port f s \<Rightarrow> addr)"

definition send_received_bypassed_packet ::
  "('c, 'u, 'p4, 'p6, 'r, 'm) local_env \<Rightarrow> byte list \<Rightarrow> socket_addr \<Rightarrow> 'm local_assoc \<Rightarrow> (unit, io_error) res \<times> 'm local_assoc" where
  "send_received_bypassed_packet E data target_addr a =
     (case local_open (le_outside E) (if le_dual_stack E \<or> is_ipv6 target_addr then FamilyV6 else FamilyV4) a of
        (Ok u, a) \<Rightarrow>
          let r = lo_send (le_outside E) (length (la_calls a));
              a = a\<lparr>la_calls := la_calls a @ [BypassSend (bypass_target (le_dual_stack E) target_addr) data (is_ok r)]\<rparr>
          in (bind_res r (\<lambda>_. Ok ()), a)
      | out \<Rightarrow> out)"

definition dispatch_received_bypassed_packet ::
  "('c, 'u, 'p4, 'p6, 'r, 'm) local_env \<Rightarrow> address \<Rightarrow> byte list \<Rightarrow> 'm local_assoc \<Rightarrow> (unit, io_error) res \<times> 'm local_assoc" where
  "dispatch_received_bypassed_packet E target_addr data a =
     (case target_addr of
        SocketAddress sa \<Rightarrow> send_received_bypassed_packet E data sa a
      | DomainNameAddress dname port \<Rightarrow>
          (case lookup_then (le_ipv6_first E) (lo_resolve (le_outside E) (length (la_calls a)) dname port)
                  (send_received_bypassed_packet E data) a of
             (r, a) \<Rightarrow> (bind_res r (\<lambda>_. Ok ()), a)))"

subsection \<open>Proxied packets\<close>

text \<open>The packet id counts up; when it would overflow a new session starts with a new socket.\<close>

definition next_packet_id :: "u64 \<Rightarrow> 'm local_assoc \<Rightarrow> 'm local_assoc" where
  "next_packet_id new_session_id a =
     (if la_packet_id a = 0xFFFFFFFFFFFFFFFF
      then a\<lparr>la_proxied := None, la_packet_id := 1, la_session_id := new_session_id\<rparr>
      else a\<lparr>la_packet_id := la_packet_id a + 1\<rparr>)"

definition open_proxied :: "local_outside \<Rightarrow> 'm local_assoc \<Rightarrow> (proxy_socket, io_error) res \<times> 'm local_assoc" where
  "open_proxied out a =
     (case la_proxied a of
        Some socket \<Rightarrow> (Ok socket, a)
      | None \<Rightarrow>
          let r = lo_open_proxied out (length (la_calls a));
              a = a\<lparr>la_calls := la_calls a @ [OpenProxied]\<rparr>
          in (r, case r of Ok socket \<Rightarrow> a\<lparr>la_proxied := Some socket\<rparr> | _ \<Rightarrow> a))"

text \<open>\<open>None\<close> is a send that never completes.\<close>

definition dispatch_received_proxied_packet ::
  "('c, 'u, 'p4, 'p6, 'r, 'm) local_env \<Rightarrow> address \<Rightarrow> byte list \<Rightarrow> 'm local_assoc
     \<Rightarrow> ((unit, io_error) res \<times> 'm local_assoc) option" where
  "dispatch_received_proxied_packet E target_addr data a =
     (let out = le_outside E in
      case open_proxied out (next_packet_id (lo_new_session out (length (la_calls a))) a) of
        (Err e, a) \<Rightarrow> Some (Err e, a)
      | (Panic, a) \<Rightarrow> Some (Panic, a)
      | (Ok socket, a) \<Rightarrow>
          let control = default_control\<lparr>client_session_id := la_session_id a, packet_id := la_packet_id a\<rparr>;
              d = lo_proxied_with out (length (la_calls a))
          in (case send_with_ctrl (le_cipher E) (le_udp E) (le_hash E) (cd_now d) (cd_rnd d) (cd_drawn d) (cd_mem d) socket
                     (cd_send d) target_addr control data of
                (None, _) \<Rightarrow> None
              | (Some r, None) \<Rightarrow> Some (Panic, a)
              | (Some r, Some datagram) \<Rightarrow>
                  let a = a\<lparr>la_calls := la_calls a @ [ProxiedSend \<lparr>sp_addr = target_addr, sp_control = control, sp_data = data,
                                                                sp_datagram = datagram\<rparr>]\<rparr>
                  in Some (if r = Panic then Panic else Ok (), if is_ok r then a else a\<lparr>la_proxied := None\<rparr>)))"

definition local_bypassed :: "('c, 'u, 'p4, 'p6, 'r, 'm) local_env \<Rightarrow> nat \<Rightarrow> address \<Rightarrow> bool" where
  "local_bypassed E n target_addr \<longleftrightarrow>
     le_balancer_empty E
     \<or> local_check_target_bypassed (le_acl_ops E) (lo_resolve_acl (le_outside E) n) (lo_reverse (le_outside E) n) (le_acl E) target_addr"

definition local_dispatch_received_packet ::
  "('c, 'u, 'p4, 'p6, 'r, 'm) local_env \<Rightarrow> address \<Rightarrow> byte list \<Rightarrow> 'm local_assoc
     \<Rightarrow> ((unit, io_error) res \<times> 'm local_assoc) option" where
  "local_dispatch_received_packet E target_addr data a =
     map_option (\<lambda>(r, a). (if r = Panic then Panic else Ok (), a))
       (if local_bypassed E (length (la_calls a)) target_addr then Some (dispatch_received_bypassed_packet E target_addr data a)
        else dispatch_received_proxied_packet E target_addr data a)"

subsection \<open>Answers\<close>

definition local_send_received_respond_packet :: "address \<Rightarrow> byte list \<Rightarrow> 'm local_assoc \<Rightarrow> 'm local_assoc" where
  "local_send_received_respond_packet addr data a =
     a\<lparr>la_keepalive_flag := True, la_delivered := la_delivered a @ [(la_peer_addr a, addr, data)]\<rparr>"

definition receive_from_bypassed ::
  "addr_family \<Rightarrow> (byte list \<times> socket_addr, io_error) res \<Rightarrow> 'm local_assoc \<Rightarrow> (unit, io_error) res \<times> 'm local_assoc" where
  "receive_from_bypassed fam received a =
     (case received of
        Ok (datagram, addr) \<Rightarrow>
          (Ok (), local_send_received_respond_packet (SocketAddress addr) (take MAXIMUM_UDP_PAYLOAD_SIZE datagram) a)
      | Err e \<Rightarrow> (Ok (), case fam of FamilyV4 \<Rightarrow> a\<lparr>la_ipv4_socket := False\<rparr> | FamilyV6 \<Rightarrow> a\<lparr>la_ipv6_socket := False\<rparr>)
      | Panic \<Rightarrow> (Panic, a))"

text \<open>The packet window of the server session that sent the packet.\<close>

definition server_session_admits :: "'m session_cache \<Rightarrow> nat \<Rightarrow> udp_control option \<Rightarrow> 'm local_assoc \<Rightarrow> bool \<times> 'm local_assoc" where
  "server_session_admits S time control a =
     (case control of
        None \<Rightarrow> (True, a)
      | Some c \<Rightarrow>
          let sessions = (case la_server_session a of Some m \<Rightarrow> m | None \<Rightarrow> sc_new S);
              (found, sessions) = sc_get S time (server_session_id c) sessions;
              (valid, w) = validate_packet_id (case found of Some w \<Rightarrow> w | None \<Rightarrow> window_new) (packet_id c) 0xFFFFFFFFFFFFFFFF
          in (valid, a\<lparr>la_server_session := Some (sc_put S time (server_session_id c) w sessions)\<rparr>))"

definition receive_from_proxied ::
  "('c, 'u, 'p4, 'p6, 'r, 'm) local_env \<Rightarrow> u64 \<Rightarrow> nat \<Rightarrow> proxy_socket \<Rightarrow> byte list io_wait \<Rightarrow> 'm local_assoc
     \<Rightarrow> ((unit, io_error) res \<times> 'm local_assoc) option" where
  "receive_from_proxied E now time socket recv_io a =
     map_option (\<lambda>r. case r of
         Ok (data, addr, n, control) \<Rightarrow>
           (case server_session_admits (le_sessions E) time control a of
              (False, a) \<Rightarrow> (Ok (), a)
            | (True, a) \<Rightarrow> (Ok (), local_send_received_respond_packet addr data a))
       | Err e \<Rightarrow> (Ok (), a\<lparr>la_proxied := None\<rparr>)
       | Panic \<Rightarrow> (Panic, a))
       (recv_with_ctrl (le_cipher E) (le_udp E) (le_hash E) now socket MAXIMUM_UDP_PAYLOAD_SIZE recv_io)"

datatype local_event = FromClient address "byte list"
  | FromBypassed addr_family "(byte list \<times> socket_addr, io_error) res"
  | FromProxied u64 nat "byte list io_wait"
  | LocalTick bool

text \<open>One branch of \<open>select!\<close>; one that is disabled or not ready does nothing.\<close>

fun local_step ::
  "('c, 'u, 'p4, 'p6, 'r, 'm) local_env \<Rightarrow> local_event \<Rightarrow> 'm local_assoc \<Rightarrow> ((unit, io_error) res \<times> 'm local_assoc) option" where
  "local_step E (FromClient target_addr data) a = local_dispatch_received_packet E target_addr data a"
| "local_step E (FromBypassed fam received) a =
     Some (if (case fam of FamilyV4 \<Rightarrow> la_ipv4_socket a | FamilyV6 \<Rightarrow> la_ipv6_socket a)
           then receive_from_bypassed fam received a else (Ok (), a))"
| "local_step E (FromProxied now time recv_io) a =
     Some (case Option.bind (la_proxied a) (\<lambda>socket. receive_from_proxied E now time socket recv_io a) of
             Some out \<Rightarrow> out
           | None \<Rightarrow> (Ok (), a))"
| "local_step E (LocalTick has_room) a =
     Some (Ok (), if la_keepalive_flag a \<and> has_room then a\<lparr>la_keepalive_flag := False\<rparr> else a)"

fun local_dispatch_packet ::
  "('c, 'u, 'p4, 'p6, 'r, 'm) local_env \<Rightarrow> local_event list \<Rightarrow> 'm local_assoc \<Rightarrow> 'm local_assoc" where
  "local_dispatch_packet E [] a = a"
| "local_dispatch_packet E (ev # evs) a =
     (case local_step E ev a of
        None \<Rightarrow> a
      | Some (Ok u, a) \<Rightarrow> local_dispatch_packet E evs a
      | Some (r, a) \<Rightarrow> a)"

section \<open>Where the packets of the application go\<close>

datatype outgoing = Direct socket_addr "byte list" | Proxied sent_packet

fun outputs :: "local_call list \<Rightarrow> outgoing list" where
  "outputs [] = []"
| "outputs (BypassConnect fam # cs) = outputs cs"
| "outputs (BypassSend addr data ok # cs) = (if ok then [Direct addr data] else []) @ outputs cs"
| "outputs (OpenProxied # cs) = outputs cs"
| "outputs (ProxiedSend p # cs) = Proxied p # outputs cs"

lemma outputs_append [simp]: "outputs (xs @ ys) = outputs xs @ outputs ys"
  by (induction xs rule: outputs.induct) auto

text \<open>Only the bypass sockets and the calls differ, and the calls add the outputs \<open>new\<close>.\<close>

definition adds_outputs :: "outgoing list \<Rightarrow> 'm local_assoc \<Rightarrow> 'm local_assoc \<Rightarrow> bool" where
  "adds_outputs new a b \<longleftrightarrow> outputs (la_calls b) = outputs (la_calls a) @ new \<and> la_proxied b = la_proxied a
     \<and> la_session_id b = la_session_id a \<and> la_packet_id b = la_packet_id a \<and> la_server_session b = la_server_session a
     \<and> la_delivered b = la_delivered a \<and> la_peer_addr b = la_peer_addr a"

lemma adds_outputs_trans: "adds_outputs xs a b \<Longrightarrow> adds_outputs ys b c \<Longrightarrow> adds_outputs (xs @ ys) a c"
  by (simp add: adds_outputs_def)

lemma local_open_adds: "local_open out fam a = (r, b) \<Longrightarrow> adds_outputs [] a b"
  by (auto simp: local_open_def adds_outputs_def Let_def split: if_splits addr_family.splits)

lemma send_bypassed_adds:
  assumes "send_received_bypassed_packet E data sa a = (r, b)"
  shows "adds_outputs (if is_ok r then [Direct (bypass_target (le_dual_stack E) sa) data] else []) a b"
proof -
  obtain r1 a1 where o: "local_open (le_outside E) (if le_dual_stack E \<or> is_ipv6 sa then FamilyV6 else FamilyV4) a = (r1, a1)" by fastforce
  show ?thesis
  proof (cases r1)
    case (Ok u)
    then have "adds_outputs (if is_ok r then [Direct (bypass_target (le_dual_stack E) sa) data] else []) a1 b"
      using assms o by (cases "lo_send (le_outside E) (length (la_calls a1))")
        (auto simp: send_received_bypassed_packet_def Let_def adds_outputs_def)
    with local_open_adds [OF o] show ?thesis using adds_outputs_trans by fastforce
  qed (use assms o local_open_adds [OF o] in \<open>auto simp: send_received_bypassed_packet_def Let_def\<close>)
qed

interpretation bypass: attempts "send_received_bypassed_packet E data"
  "\<lambda>sa. adds_outputs [Direct (bypass_target (le_dual_stack E) sa) data]" "adds_outputs []" for E data
proof unfold_locales
  fix a s s' and r :: "unit" and out
  show "send_received_bypassed_packet E data a s = (Ok r, s') \<Longrightarrow> adds_outputs [Direct (bypass_target (le_dual_stack E) a) data] s s'"
    using send_bypassed_adds [of E data a s "Ok r" s'] by simp
  show "send_received_bypassed_packet E data a s = (out, s') \<Longrightarrow> \<not> is_ok out \<Longrightarrow> adds_outputs [] s s'"
    using send_bypassed_adds [of E data a s out s'] by simp
qed (auto simp: adds_outputs_def)

definition local_resolves :: "local_outside \<Rightarrow> address \<Rightarrow> socket_addr \<Rightarrow> bool" where
  "local_resolves out target sa \<longleftrightarrow>
     (case target of
        SocketAddress addr \<Rightarrow> sa = addr
      | DomainNameAddress dname port \<Rightarrow> \<exists>n addrs. lo_resolve out n dname port = Ok addrs \<and> sa \<in> set addrs)"

lemma dispatch_bypassed_adds:
  assumes "dispatch_received_bypassed_packet E target data a = (r, b)"
  shows "\<exists>new. adds_outputs new a b \<and> (new = [] \<or> (\<exists>sa. local_resolves (le_outside E) target sa \<and> new = [Direct (bypass_target (le_dual_stack E) sa) data]))"
proof (cases target)
  case (SocketAddress sa)
  then have "adds_outputs (if is_ok r then [Direct (bypass_target (le_dual_stack E) sa) data] else []) a b"
    using assms send_bypassed_adds [of E data sa a r b] by (simp add: dispatch_received_bypassed_packet_def)
  then show ?thesis using SocketAddress by (cases "is_ok r") (auto simp: local_resolves_def)
next
  case (DomainNameAddress dname port)
  obtain out where "lookup_then (le_ipv6_first E) (lo_resolve (le_outside E) (length (la_calls a)) dname port)
      (send_received_bypassed_packet E data) a = (out, b)"
    using assms DomainNameAddress by (auto simp: dispatch_received_bypassed_packet_def split: prod.splits)
  from bypass.lookup_outcome [OF this] show ?thesis
    using DomainNameAddress by (cases out) (auto simp: local_resolves_def split: prod.splits)
qed

text \<open>The sockets an association may send through.\<close>

definition known_socket :: "('c, 'u, 'p4, 'p6, 'r, 'm) local_env \<Rightarrow> 'm local_assoc \<Rightarrow> proxy_socket \<Rightarrow> bool" where
  "known_socket E a socket \<longleftrightarrow> la_proxied a = Some socket \<or> (\<exists>n. lo_open_proxied (le_outside E) n = Ok socket)"

definition encrypted_with :: "('c, 'u, 'p4, 'p6, 'r, 'm) local_env \<Rightarrow> proxy_socket \<Rightarrow> sent_packet \<Rightarrow> bool" where
  "encrypted_with E socket p \<longleftrightarrow>
     (\<exists>n. encrypt_send_buffer (le_cipher E) (le_udp E) (le_hash E) (cd_now (lo_proxied_with (le_outside E) n))
            (cd_rnd (lo_proxied_with (le_outside E) n)) (cd_drawn (lo_proxied_with (le_outside E) n))
            (cd_mem (lo_proxied_with (le_outside E) n)) socket (sp_addr p) (sp_control p) (sp_data p) = Some (sp_datagram p))"

text \<open>What goes out carries a packet of the application, on the way the decision says.\<close>

fun carries :: "('c, 'u, 'p4, 'p6, 'r, 'm) local_env \<Rightarrow> (proxy_socket \<Rightarrow> bool) \<Rightarrow> outgoing \<Rightarrow> address \<times> byte list \<Rightarrow> bool" where
  "carries E known (Direct dest payload) (target, data) \<longleftrightarrow>
     payload = data \<and> (\<exists>n. local_bypassed E n target)
     \<and> (\<exists>sa. local_resolves (le_outside E) target sa \<and> dest = bypass_target (le_dual_stack E) sa)"
| "carries E known (Proxied p) (target, data) \<longleftrightarrow>
     sp_data p = data \<and> sp_addr p = target \<and> (\<exists>n. \<not> local_bypassed E n target) \<and> (\<exists>socket. known socket \<and> encrypted_with E socket p)"

definition control_of :: "'m local_assoc \<Rightarrow> udp_control" where
  "control_of a = default_control\<lparr>client_session_id := la_session_id a, packet_id := la_packet_id a\<rparr>"

lemma open_proxied_keeps:
  assumes "open_proxied out a = (r, b)"
  shows "outputs (la_calls b) = outputs (la_calls a) \<and> la_session_id b = la_session_id a \<and> la_packet_id b = la_packet_id a
     \<and> la_server_session b = la_server_session a \<and> la_delivered b = la_delivered a \<and> la_peer_addr b = la_peer_addr a
     \<and> (\<forall>socket. la_proxied b = Some socket \<longrightarrow> la_proxied a = Some socket \<or> (\<exists>n. lo_open_proxied out n = Ok socket))
     \<and> (\<forall>socket. r = Ok socket \<longrightarrow> la_proxied b = Some socket)"
  using assms by (auto simp: open_proxied_def Let_def split: option.splits res.splits)

lemma dispatch_proxied_adds:
  assumes "dispatch_received_proxied_packet E target data a = Some (r, b)"
  shows "\<exists>new. outputs (la_calls b) = outputs (la_calls a) @ new
     \<and> (new = [] \<or> (\<exists>p. new = [Proxied p] \<and> sp_data p = data \<and> sp_addr p = target \<and> sp_control p = control_of b
            \<and> (\<exists>socket. known_socket E a socket \<and> encrypted_with E socket p)))
     \<and> (la_packet_id a \<noteq> 0xFFFFFFFFFFFFFFFF \<longrightarrow> la_packet_id b = la_packet_id a + 1 \<and> la_session_id b = la_session_id a)
     \<and> la_server_session b = la_server_session a \<and> la_delivered b = la_delivered a \<and> la_peer_addr b = la_peer_addr a
     \<and> (\<forall>socket. la_proxied b = Some socket \<longrightarrow> known_socket E a socket)"
proof -
  let ?out = "le_outside E"
  define a1 where "a1 = next_packet_id (lo_new_session ?out (length (la_calls a))) a"
  have a1: "outputs (la_calls a1) = outputs (la_calls a)" "la_server_session a1 = la_server_session a" "la_delivered a1 = la_delivered a"
    "la_peer_addr a1 = la_peer_addr a" "\<forall>socket. la_proxied a1 = Some socket \<longrightarrow> la_proxied a = Some socket"
    "la_packet_id a \<noteq> 0xFFFFFFFFFFFFFFFF \<longrightarrow> la_packet_id a1 = la_packet_id a + 1 \<and> la_session_id a1 = la_session_id a"
    by (auto simp: a1_def next_packet_id_def)
  obtain r2 a2 where o: "open_proxied ?out a1 = (r2, a2)" by fastforce
  note a2 = open_proxied_keeps [OF o]
  have known: "known_socket E a socket" if "la_proxied a2 = Some socket" for socket
    using that a1(5) a2 by (auto simp: known_socket_def)
  show ?thesis
  proof (cases r2)
    case (Ok socket)
    let ?d = "lo_proxied_with ?out (length (la_calls a2))"
    let ?send = "send_with_ctrl (le_cipher E) (le_udp E) (le_hash E) (cd_now ?d) (cd_rnd ?d) (cd_drawn ?d) (cd_mem ?d) socket
        (cd_send ?d) target (control_of a2) data"
    have eq: "dispatch_received_proxied_packet E target data a =
      (case ?send of (None, _) \<Rightarrow> None | (Some r, None) \<Rightarrow> Some (Panic, a2)
       | (Some r, Some datagram) \<Rightarrow>
           let c = a2\<lparr>la_calls := la_calls a2 @ [ProxiedSend \<lparr>sp_addr = target, sp_control = control_of a2, sp_data = data, sp_datagram = datagram\<rparr>]\<rparr>
           in Some (if r = Panic then Panic else Ok (), if is_ok r then c else c\<lparr>la_proxied := None\<rparr>))"
      using o Ok by (simp add: dispatch_received_proxied_packet_def a1_def Let_def control_of_def split: prod.split option.split)
    show ?thesis
    proof (cases "snd ?send")
      case None
      then show ?thesis using assms a1 a2 known by (cases ?send) (auto simp: eq split: option.splits)
    next
      case (Some datagram)
      define p where "p = \<lparr>sp_addr = target, sp_control = control_of a2, sp_data = data, sp_datagram = datagram\<rparr>"
      have "encrypted_with E socket p" using Some
        by (auto simp: encrypted_with_def p_def send_with_ctrl_def split: option.splits)
      moreover have "known_socket E a socket" using known a2 Ok by simp
      moreover have "b = a2\<lparr>la_calls := la_calls a2 @ [ProxiedSend p]\<rparr> \<or> b = a2\<lparr>la_calls := la_calls a2 @ [ProxiedSend p], la_proxied := None\<rparr>"
        using assms Some by (cases ?send) (auto simp: eq p_def Let_def split: option.splits if_splits)
      ultimately show ?thesis using a1 a2 known
        by (intro exI [of _ "[Proxied p]"]) (auto simp: p_def control_of_def)
    qed
  qed (use assms o a1 a2 known in \<open>auto simp: dispatch_received_proxied_packet_def a1_def Let_def\<close>)
qed

lemma server_session_admits_keeps:
  assumes "server_session_admits S time control a = (v, b)"
  shows "la_calls b = la_calls a \<and> la_session_id b = la_session_id a \<and> la_packet_id b = la_packet_id a \<and> la_proxied b = la_proxied a
     \<and> la_delivered b = la_delivered a \<and> la_peer_addr b = la_peer_addr a"
  using assms by (cases control) (auto simp: server_session_admits_def Let_def split: prod.splits)

text \<open>What receiving from the proxied socket comes to.\<close>

lemma from_proxied_cases:
  assumes "receive_from_proxied E now time socket recv_io a = Some (r, b)"
  obtains (failed) "b = a \<or> b = a\<lparr>la_proxied := None\<rparr>"
  | (received) data addr n control v c where
      "recv_with_ctrl (le_cipher E) (le_udp E) (le_hash E) now socket MAXIMUM_UDP_PAYLOAD_SIZE recv_io = Some (Ok (data, addr, n, control))"
      "server_session_admits (le_sessions E) time control a = (v, c)"
      "b = (if v then local_send_received_respond_packet addr data c else c)"
proof -
  obtain x where x: "recv_with_ctrl (le_cipher E) (le_udp E) (le_hash E) now socket MAXIMUM_UDP_PAYLOAD_SIZE recv_io = Some x"
    using assms by (auto simp: receive_from_proxied_def)
  show thesis
  proof (cases x)
    case (Ok y)
    obtain data addr n control where y: "y = (data, addr, n, control)" by (metis prod_cases4)
    obtain v c where v: "server_session_admits (le_sessions E) time control a = (v, c)" by fastforce
    show thesis using received [of data addr n control v c] assms x Ok y v by (cases v) (auto simp: receive_from_proxied_def)
  qed (use assms x failed in \<open>auto simp: receive_from_proxied_def\<close>)
qed

lemma from_proxied_keeps:
  assumes "receive_from_proxied E now time socket recv_io a = Some (r, b)"
  shows "la_calls b = la_calls a \<and> la_session_id b = la_session_id a \<and> la_packet_id b = la_packet_id a
     \<and> (la_proxied b = la_proxied a \<or> la_proxied b = None)"
  using assms by (cases rule: from_proxied_cases)
    (auto simp: local_send_received_respond_packet_def dest: server_session_admits_keeps)

lemma other_local_step_keeps:
  assumes "local_step E ev a = Some (r, b)" "\<forall>t d. ev \<noteq> FromClient t d"
  shows "la_calls b = la_calls a \<and> la_session_id b = la_session_id a \<and> la_packet_id b = la_packet_id a
     \<and> (la_proxied b = la_proxied a \<or> la_proxied b = None)"
  using assms
  by (cases "(E, ev, a)" rule: local_step.cases)
    (auto simp: receive_from_bypassed_def local_send_received_respond_packet_def Option.bind_eq_Some_conv
      split: if_splits res.splits addr_family.splits option.splits dest!: from_proxied_keeps)

lemma known_socket_step:
  assumes "\<forall>socket. la_proxied b = Some socket \<longrightarrow> known_socket E a socket" "known_socket E b socket"
  shows "known_socket E a socket"
  using assms by (auto simp: known_socket_def)

lemma local_step_outputs:
  assumes "local_step E ev a = Some (r, b)" "la_packet_id a \<noteq> 0xFFFFFFFFFFFFFFFF"
  shows "\<exists>new. outputs (la_calls b) = outputs (la_calls a) @ new
     \<and> (new = [] \<or> (\<exists>t d x. ev = FromClient t d \<and> new = [x] \<and> carries E (known_socket E a) x (t, d)))
     \<and> (\<forall>p. Proxied p \<in> set new \<longrightarrow> sp_control p = control_of b \<and> la_packet_id a < la_packet_id b)
     \<and> la_session_id b = la_session_id a
     \<and> (la_packet_id b = la_packet_id a \<or> la_packet_id b = la_packet_id a + 1)
     \<and> (\<forall>socket. la_proxied b = Some socket \<longrightarrow> known_socket E a socket)"
proof (cases "\<exists>t d. ev = FromClient t d")
  case False
  then show ?thesis using other_local_step_keeps [OF assms(1)] by (auto simp: known_socket_def)
next
  case True
  then obtain t d where ev: "ev = FromClient t d" by blast
  let ?bypassed = "local_bypassed E (length (la_calls a)) t"
  show ?thesis
  proof (cases ?bypassed)
    case True
    obtain r1 where "dispatch_received_bypassed_packet E t d a = (r1, b)"
      using assms(1) True ev by (auto simp: local_dispatch_received_packet_def split: prod.splits)
    from dispatch_bypassed_adds [OF this] obtain new where new: "adds_outputs new a b"
      "new = [] \<or> (\<exists>sa. local_resolves (le_outside E) t sa \<and> new = [Direct (bypass_target (le_dual_stack E) sa) d])" by blast
    then show ?thesis using True ev by (intro exI [of _ new]) (auto simp: adds_outputs_def known_socket_def)
  next
    case False
    obtain r1 where "dispatch_received_proxied_packet E t d a = Some (r1, b)"
      using assms(1) False ev by (auto simp: local_dispatch_received_packet_def split: prod.splits)
    from dispatch_proxied_adds [OF this] obtain new where new: "outputs (la_calls b) = outputs (la_calls a) @ new"
      "new = [] \<or> (\<exists>p. new = [Proxied p] \<and> sp_data p = d \<and> sp_addr p = t \<and> sp_control p = control_of b
            \<and> (\<exists>socket. known_socket E a socket \<and> encrypted_with E socket p))"
      "la_packet_id b = la_packet_id a + 1" "la_session_id b = la_session_id a"
      "\<forall>socket. la_proxied b = Some socket \<longrightarrow> known_socket E a socket" using assms(2) by blast
    moreover have "la_packet_id a < la_packet_id b" using word_less_succ [OF assms(2)] new(3) by simp
    ultimately show ?thesis using False ev by (intro exI [of _ new]) auto
  qed
qed

fun client_packets :: "local_event list \<Rightarrow> (address \<times> byte list) list" where
  "client_packets [] = []"
| "client_packets (FromClient t d # evs) = (t, d) # client_packets evs"
| "client_packets (FromBypassed fam received # evs) = client_packets evs"
| "client_packets (FromProxied now time recv_io # evs) = client_packets evs"
| "client_packets (LocalTick has_room # evs) = client_packets evs"

fun proxied :: "outgoing list \<Rightarrow> sent_packet list" where
  "proxied [] = []"
| "proxied (Direct addr data # os) = proxied os"
| "proxied (Proxied p # os) = p # proxied os"

lemma set_proxied: "set (proxied os) = {p. Proxied p \<in> set os}"
  by (induction os rule: proxied.induct) auto

lemma carries_mono: "carries E k x p \<Longrightarrow> (\<And>socket. k socket \<Longrightarrow> k' socket) \<Longrightarrow> carries E k' x p"
  by (cases "(E, k, x, p)" rule: carries.cases) auto

text \<open>The outputs of a run: each packet of the application at most once, numbered in order.\<close>

definition sent_by :: "('c, 'u, 'p4, 'p6, 'r, 'm) local_env \<Rightarrow> (address \<times> byte list) list \<Rightarrow> 'm local_assoc \<Rightarrow> outgoing list \<Rightarrow> bool" where
  "sent_by E ps a new \<longleftrightarrow>
     (\<exists>sent. subseq sent ps \<and> list_all2 (carries E (known_socket E a)) new sent)
     \<and> sorted_wrt (<) (la_packet_id a # map (packet_id \<circ> sp_control) (proxied new))
     \<and> (\<forall>p \<in> set (proxied new). sp_control p = default_control\<lparr>client_session_id := la_session_id a, packet_id := packet_id (sp_control p)\<rparr>)"

lemma sent_by_Nil: "sent_by E ps a []"
  unfolding sent_by_def by auto

lemma local_dispatch_step:
  assumes "local_step E ev a = Some (r, b)"
  shows "\<exists>evs'. (evs' = evs \<or> evs' = []) \<and> local_dispatch_packet E (ev # evs) a = local_dispatch_packet E evs' b"
  using assms by (cases r) auto

lemma sent_by_step:
  assumes step: "local_step E ev a = Some (r, b)" "la_packet_id a \<noteq> 0xFFFFFFFFFFFFFFFF"
    and rest: "sent_by E (client_packets evs) b later" and calls: "outputs (la_calls c) = outputs (la_calls b) @ later"
  shows "\<exists>new. outputs (la_calls c) = outputs (la_calls a) @ new \<and> sent_by E (client_packets (ev # evs)) a new"
proof -
  obtain new where new: "outputs (la_calls b) = outputs (la_calls a) @ new"
    "new = [] \<or> (\<exists>t d x. ev = FromClient t d \<and> new = [x] \<and> carries E (known_socket E a) x (t, d))"
    "\<forall>p. Proxied p \<in> set new \<longrightarrow> sp_control p = control_of b \<and> la_packet_id a < la_packet_id b"
    "la_session_id b = la_session_id a" "la_packet_id b = la_packet_id a \<or> la_packet_id b = la_packet_id a + 1"
    "\<forall>socket. la_proxied b = Some socket \<longrightarrow> known_socket E a socket"
    using local_step_outputs [OF step] by blast
  have up: "la_packet_id a \<le> la_packet_id b" using new(5) word_less_succ [OF step(2)] by auto
  obtain sent where sent: "subseq sent (client_packets evs)" "list_all2 (carries E (known_socket E b)) later sent"
    using rest unfolding sent_by_def by blast
  have later: "list_all2 (carries E (known_socket E a)) later sent"
    by (rule list_all2_mono [OF sent(2)]) (rule carries_mono, assumption, rule known_socket_step [OF new(6)])
  have "\<exists>sent'. subseq sent' (client_packets (ev # evs)) \<and> list_all2 (carries E (known_socket E a)) (new @ later) sent'"
  proof (cases "new = []")
    case True
    then show ?thesis using sent(1) later by (cases ev) (auto intro: list_emb_Cons)
  next
    case False
    then obtain t d x where "ev = FromClient t d" "new = [x]" "carries E (known_socket E a) x (t, d)" using new(2) by blast
    then show ?thesis using sent(1) later by (intro exI [of _ "(t, d) # sent"]) simp
  qed
  moreover have "proxied (new @ later) = proxied new @ proxied later" by (induction new rule: proxied.induct) auto
  moreover have "\<forall>p \<in> set (proxied new). sp_control p = control_of b \<and> la_packet_id a < la_packet_id b" using new(3) by (simp add: set_proxied)
  moreover have "length (proxied new) \<le> 1" using new(2) by (cases "(hd new)") auto
  ultimately show ?thesis using rest calls new(1,4) up unfolding sent_by_def
    by (intro exI [of _ "new @ later"]) (cases "proxied new", auto simp: control_of_def dest: order.strict_trans1)
qed

lemma local_run:
  assumes "unat (la_packet_id a) + length evs < 2 ^ 64"
  shows "\<exists>new. outputs (la_calls (local_dispatch_packet E evs a)) = outputs (la_calls a) @ new \<and> sent_by E (client_packets evs) a new"
  using assms
proof (induction evs arbitrary: a)
  case Nil
  then show ?case using sent_by_Nil by auto
next
  case (Cons ev evs)
  have low: "la_packet_id a \<noteq> 0xFFFFFFFFFFFFFFFF" using Cons.prems by auto
  show ?case
  proof (cases "local_step E ev a")
    case None
    then show ?thesis using sent_by_Nil by auto
  next
    case (Some rb)
    obtain r b where st: "local_step E ev a = Some (r, b)" using Some by (cases rb) simp
    obtain evs' where run: "evs' = evs \<or> evs' = []" "local_dispatch_packet E (ev # evs) a = local_dispatch_packet E evs' b"
      using local_dispatch_step [OF st] by blast
    have "la_packet_id b = la_packet_id a \<or> la_packet_id b = la_packet_id a + 1" using local_step_outputs [OF st low] by blast
    then have "unat (la_packet_id b) \<le> unat (la_packet_id a) + 1" by (auto simp: unat_word_ariths)
    then have "unat (la_packet_id b) + length evs < 2 ^ 64" using Cons.prems by simp
    from Cons.IH [OF this] run(1) obtain later where "outputs (la_calls (local_dispatch_packet E evs' b)) = outputs (la_calls b) @ later"
      "sent_by E (client_packets evs) b later" using sent_by_Nil by fastforce
    from sent_by_step [OF st low this(2,1)] show ?thesis unfolding run(2) .
  qed
qed

end
