(* ===== verification/Udp_Session.thy ===== *)
theory Udp_Session
  imports Udp_Local "HOL-Library.Multiset"
begin

text \<open>
  A UDP session end to end: the association of the client, \<open>local/net/udp/association.rs\<close>, the encrypted datagrams
  between the proxied sockets, and the association of the server, \<open>server/udprelay.rs\<close>, over a network that loses,
  reorders, delays and repeats datagrams and forges their source addresses.
\<close>

section \<open>A datagram means one packet\<close>

text \<open>The clock decides whether a packet is accepted, not what it says.\<close>

lemma bind_res_agree:
  assumes "bind_res m f = Ok x" "bind_res m g = Ok y" "\<And>a b. f (a, b) = Ok x \<Longrightarrow> g (a, b) = Ok y \<Longrightarrow> x = y"
  shows "x = y"
  using assms by (auto simp: bind_res_Ok_iff)

lemma read_client_body_clock:
  assumes "read_client_body now with_eih user data = Ok x" "read_client_body now' with_eih user data = Ok y"
  shows "x = y"
  using assms unfolding read_client_body_def
  by - ((erule (1) bind_res_agree, simp only: prod.case Let_def res.distinct res.inject if_False if_True simp_thms split: if_splits)+)

lemma decrypt_client_clock:
  assumes "decrypt_client_payload C U H now kind key bs um = Ok x" "decrypt_client_payload C U H now' kind key bs um = Ok y"
  shows "x = y"
  using assms
  by (cases "category kind")
    (auto simp: decrypt_client_payload_def with_control_def decrypt_client_payload_aead_2022_def bind_res_Ok_iff Let_def
      split: if_splits option.splits dest: read_client_body_clock)

definition client_draws_ok :: "local_outside \<Rightarrow> cipher_kind \<Rightarrow> bool" where
  "client_draws_ok out kind \<longleftrightarrow>
     (\<forall>n. length (cd_rnd (lo_proxied_with out n)) = rnd_len kind \<and> cd_drawn (lo_proxied_with out n) \<le> 900
          \<and> cd_drawn (lo_proxied_with out n) \<le> length (cd_mem (lo_proxied_with out n)))"

lemma sent_packet_means:
  assumes laws: "udp_laws C U H kind" "udp_keys_match H kind ids key skey um" "category kind = CatAead2022"
    and client: "le_cipher El = C" "le_udp El = U" "le_hash El = H" "client_draws_ok (le_outside El) kind"
    and server: "se_cipher Es = C" "se_udp Es = U" "se_hash Es = H" "se_listener Es = from_socket ServerSocket kind skey sids um"
    and sent: "encrypted_with El (from_socket ClientSocket kind key ids cum) p" "wf_address (sp_addr p)"
      "length (sp_datagram p) \<le> MAXIMUM_UDP_PAYLOAD_SIZE"
    and recv: "recv_one_packet Es now call (Completed (Ok (sp_datagram p, peer))) = Some (Ok (Some pkt))"
  shows "\<exists>c. pkt = (peer, sp_addr p, sp_data p, Some c) \<and> packet_id c = packet_id (sp_control p)
     \<and> client_session_id c = client_session_id (sp_control p)"
proof -
  obtain n where enc: "encrypt_client_payload C U H (cd_now (lo_proxied_with (le_outside El) n)) (cd_rnd (lo_proxied_with (le_outside El) n))
      (cd_drawn (lo_proxied_with (le_outside El) n)) (cd_mem (lo_proxied_with (le_outside El) n)) kind key (sp_addr p) (sp_control p) ids
      (sp_data p) = Some (sp_datagram p)"
    using sent(1) client by (auto simp: encrypted_with_def encrypt_send_buffer_def from_socket_def)
  have "abs_diff ts ts \<le> 30" for ts :: u64 by (simp add: abs_diff_def)
  from client_packet [OF laws(1) sent(2) _ laws(2) this, of "cd_rnd (lo_proxied_with (le_outside El) n)"
      "cd_drawn (lo_proxied_with (le_outside El) n)" "cd_mem (lo_proxied_with (le_outside El) n)"
      "cd_now (lo_proxied_with (le_outside El) n)" "sp_control p" "sp_data p"] enc client(4)
  have own: "decrypt_client_payload C U H (cd_now (lo_proxied_with (le_outside El) n)) kind skey (sp_datagram p) um
      = Ok (sp_data p, sp_addr p, received_control H kind key um (sp_control p))"
    by (auto simp: client_draws_ok_def)
  obtain x where "decrypt_client_payload C U H now kind skey (sp_datagram p) um = Ok x"
    "pkt = (peer, fst (snd x), fst x, snd (snd x))"
    using recv server sent(3)
    by (cases "decrypt_client_payload C U H now kind skey (sp_datagram p) um")
      (auto simp: recv_one_packet_def recv_from_with_ctrl_def wait_io_def from_socket_def decrypt_recv_buffer_def split: if_splits)
  moreover from decrypt_client_clock [OF this(1) own]
  have "x = (sp_data p, sp_addr p, received_control H kind key um (sp_control p))" .
  ultimately show ?thesis using laws(3) by (simp add: received_control_def)
qed

section \<open>At most once, end to end\<close>

definition packet_content :: "packet \<Rightarrow> address \<times> byte list" where
  "packet_content = (\<lambda>(peer, target, data, control). (target, data))"

text \<open>Every packet the server's association gets was received as a copy of a datagram of \<open>ps\<close>, at any time and from any address.\<close>

definition copies_of ::
  "('c, 'u, 'p4, 'p6, 'r) server_env \<Rightarrow> sent_packet list \<Rightarrow> packet list \<Rightarrow> bool" where
  "copies_of Es ps pkts \<longleftrightarrow>
     (\<forall>pkt \<in> set pkts. \<exists>p \<in> set ps. \<exists>now call peer.
        recv_one_packet Es now call (Completed (Ok (sp_datagram p, peer))) = Some (Ok (Some pkt)))"

lemma list_all2_proxied:
  assumes "list_all2 (carries E k) os sent"
  shows "subseq (map (\<lambda>p. (sp_addr p, sp_data p)) (proxied os)) sent"
  using assms
proof (induction os sent rule: list_all2_induct)
  case (Cons x xs y ys)
  then show ?case by (cases x; cases y) (auto intro: list_emb_Cons)
qed simp

lemma subseq_set: "subseq xs ys \<Longrightarrow> x \<in> set xs \<Longrightarrow> x \<in> set ys"
  by (induction rule: list_emb.induct) auto

lemma subseq_subset_mset: "subseq xs ys \<Longrightarrow> mset xs \<subseteq># mset ys"
  by (induction rule: list_emb.induct) (auto intro: subset_mset.order_trans)

text \<open>Packets with distinct ids that agree with a numbered list are contained in it.\<close>

lemma numbered_subset:
  assumes "distinct (packet_ids pkts)" "sorted_wrt (<) (map (packet_id \<circ> sp_control) ps)"
    and "\<forall>pkt \<in> set pkts. \<exists>p \<in> set ps. \<exists>peer c. pkt = (peer, sp_addr p, sp_data p, Some c) \<and> packet_id c = packet_id (sp_control p)"
  shows "mset (map packet_content pkts) \<subseteq># mset (map (\<lambda>p. (sp_addr p, sp_data p)) ps)"
proof -
  let ?id = "packet_id \<circ> sp_control" and ?content = "\<lambda>p. (sp_addr p, sp_data p)"
  define g where "g i = the (map_of (map (\<lambda>p. (?id p, ?content p)) ps) i)" for i
  have dist: "distinct (map ?id ps)" using assms(2) strict_sorted_iff by blast
  have g: "g (?id p) = ?content p" if "p \<in> set ps" for p
  proof -
    have "map_of (map (\<lambda>p. (?id p, ?content p)) ps) (?id p) = Some (?content p)"
      by (rule map_of_is_SomeI) (use that dist in \<open>auto simp: comp_def\<close>)
    then show ?thesis by (simp add: g_def)
  qed
  have "map packet_content pkts = map g (packet_ids pkts) \<and> set (packet_ids pkts) \<subseteq> set (map ?id ps)"
    using assms(3)
  proof (induction pkts)
    case (Cons pkt pkts)
    then obtain p peer c where p: "p \<in> set ps" "pkt = (peer, sp_addr p, sp_data p, Some c)" "packet_id c = packet_id (sp_control p)"
      by auto
    then show ?case using Cons g [OF p(1)] by (auto simp: packet_content_def)
  qed simp
  then have ids: "map packet_content pkts = map g (packet_ids pkts)" "set (packet_ids pkts) \<subseteq> set (map ?id ps)" by auto
  have "mset (packet_ids pkts) \<subseteq># mset (map ?id ps)"
    using ids(2) assms(1) dist by (metis mset_set_set finite_set subset_imp_msubset_mset_set)
  then have "image_mset g (mset (packet_ids pkts)) \<subseteq># image_mset g (mset (map ?id ps))" by (rule image_mset_subseteq_mono)
  then have "mset (map g (packet_ids pkts)) \<subseteq># mset (map g (map ?id ps))" by (simp only: mset_map)
  moreover have "map g (map ?id ps) = map ?content ps" using g by simp
  ultimately show ?thesis unfolding ids(1) by (simp only:)
qed

lemma session_at_most_once:
  assumes served: "subseq served pkts" "distinct (packet_ids served)"
    and sent: "sent_by El cps a os" and copies: "copies_of Es (proxied os) pkts"
    and means: "\<And>p now call peer pkt. p \<in> set (proxied os)
        \<Longrightarrow> recv_one_packet Es now call (Completed (Ok (sp_datagram p, peer))) = Some (Ok (Some pkt))
        \<Longrightarrow> \<exists>c. pkt = (peer, sp_addr p, sp_data p, Some c) \<and> packet_id c = packet_id (sp_control p)"
  shows "mset (map packet_content served) \<subseteq># mset cps"
proof -
  have set: "set served \<subseteq> set pkts" using served(1) by (auto dest: subseq_set)
  obtain outs where outs: "subseq outs cps" "list_all2 (carries El (known_socket El a)) os outs" using sent unfolding sent_by_def by blast
  have sorted: "sorted_wrt (<) (map (packet_id \<circ> sp_control) (proxied os))" using sent by (simp add: sent_by_def)
  have "\<forall>pkt \<in> set served. \<exists>p \<in> set (proxied os). \<exists>peer c. pkt = (peer, sp_addr p, sp_data p, Some c) \<and> packet_id c = packet_id (sp_control p)"
  proof
    fix pkt assume "pkt \<in> set served"
    then obtain p now call peer where p: "p \<in> set (proxied os)"
      "recv_one_packet Es now call (Completed (Ok (sp_datagram p, peer))) = Some (Ok (Some pkt))"
      using copies set unfolding copies_of_def by blast
    from means [OF this] p(1) show "\<exists>p \<in> set (proxied os). \<exists>peer c. pkt = (peer, sp_addr p, sp_data p, Some c) \<and> packet_id c = packet_id (sp_control p)"
      by blast
  qed
  from numbered_subset [OF served(2) sorted this]
  have "mset (map packet_content served) \<subseteq># mset (map (\<lambda>p. (sp_addr p, sp_data p)) (proxied os))" .
  also have "\<dots> \<subseteq># mset outs" by (rule subseq_subset_mset [OF list_all2_proxied [OF outs(2)]])
  also have "\<dots> \<subseteq># mset cps" by (rule subseq_subset_mset [OF outs(1)])
  finally show ?thesis .
qed

text \<open>What a new association sends through its proxied socket comes from the application and is encrypted for its server.\<close>

lemma proxied_origin:
  assumes "sent_by El cps (local_create app session) os" "p \<in> set (proxied os)"
    and "\<forall>n socket. lo_open_proxied (le_outside El) n = Ok socket \<longrightarrow> socket = s"
  shows "(sp_addr p, sp_data p) \<in> set cps \<and> encrypted_with El s p"
proof -
  obtain outs where outs: "subseq outs cps" "list_all2 (carries El (known_socket El (local_create app session))) os outs"
    using assms(1) unfolding sent_by_def by blast
  have "Proxied p \<in> set os" using assms(2) by (simp add: set_proxied)
  then obtain i where i: "i < length os" "os ! i = Proxied p" by (auto simp: in_set_conv_nth)
  then have "i < length outs" "carries El (known_socket El (local_create app session)) (Proxied p) (outs ! i)"
    using outs(2) by (auto simp: list_all2_conv_all_nth)
  moreover have "known_socket El (local_create app session) socket \<Longrightarrow> socket = s" for socket
    using assms(3) by (auto simp: known_socket_def local_create_def)
  ultimately have "outs ! i = (sp_addr p, sp_data p) \<and> encrypted_with El s p" by (cases "outs ! i") auto
  then show ?thesis using subseq_set [OF outs(1) nth_mem [OF \<open>i < length outs\<close>]] by simp
qed

text \<open>
  C1: A UDP packet is relayed at most once, end to end. A client association and a server association of an AEAD-2022
  session have keys that belong together. The client runs on any events, fewer than \<open>2 ^ 64\<close>; the network then delivers copies of
  the datagrams the client sent, in any order, number and delay and from any address; between them the server
  gets any answers and timer ticks. The packets the server successfully forwards are then, counted with their
  multiplicity, among those the application gave to the client: each goes out at most once, with its payload and to its
  target.
\<close>

theorem udp_relayed_at_most_once:
  assumes "udp_laws C U H kind" "udp_keys_match H kind ids key skey um" "category kind = CatAead2022"
    and "le_cipher El = C" "le_udp El = U" "le_hash El = H" "client_draws_ok (le_outside El) kind"
    and "\<forall>n socket. lo_open_proxied (le_outside El) n = Ok socket \<longrightarrow> socket = from_socket ClientSocket kind key ids cum"
    and "se_cipher Es = C" "se_udp Es = U" "se_hash Es = H" "se_listener Es = from_socket ServerSocket kind skey sids um"
    and "length evs < 2 ^ 64" "\<forall>(target, data) \<in> set (client_packets evs). wf_address target"
    and "os = outputs (la_calls (local_dispatch_packet El evs (local_create app session)))"
    and "\<forall>p \<in> set (proxied os). length (sp_datagram p) \<le> MAXIMUM_UDP_PAYLOAD_SIZE"
    and "copies_of Es (proxied os) (packets_of sevs)"
  shows "\<exists>served. list_all2 (serves Es) (ok_sends (ua_calls (dispatch_packet Es sevs (assoc_create peer (Some session) own_id)))) served
     \<and> mset (map packet_content served) \<subseteq># mset (client_packets evs)"
proof -
  let ?a = "local_create app session"
  have "outputs (la_calls ?a) = []" "unat (la_packet_id ?a) + length evs < 2 ^ 64" using assms(13) by (simp_all add: local_create_def)
  then have sent: "sent_by El (client_packets evs) ?a os"
    unfolding assms(15) using local_run [of ?a evs El] by (metis append_Nil)
  have "represents (assoc_window (assoc_create peer (Some session) own_id)) seen_empty"
    using represents_new by (simp add: assoc_window_def assoc_create_def client_session_new_def)
  from run_serves [OF this, of Es sevs] obtain served where served: "subseq served (packets_of sevs)" "distinct (packet_ids served)"
    "list_all2 (serves Es) (ok_sends (ua_calls (dispatch_packet Es sevs (assoc_create peer (Some session) own_id)))) served"
    unfolding served_by_def by (auto simp: assoc_create_def)
  have "\<exists>c. pkt = (src, sp_addr p, sp_data p, Some c) \<and> packet_id c = packet_id (sp_control p)"
    if p: "p \<in> set (proxied os)" and recv: "recv_one_packet Es now call (Completed (Ok (sp_datagram p, src))) = Some (Ok (Some pkt))"
    for p now call src pkt
  proof -
    from proxied_origin [OF sent p assms(8)]
    have origin: "(sp_addr p, sp_data p) \<in> set (client_packets evs)" "encrypted_with El (from_socket ClientSocket kind key ids cum) p" by auto
    then have "wf_address (sp_addr p)" using assms(14) by fast
    moreover have "length (sp_datagram p) \<le> MAXIMUM_UDP_PAYLOAD_SIZE" using assms(16) p by blast
    ultimately show ?thesis using sent_packet_means [OF assms(1-7,9-12) origin(2) _ _ recv] by blast
  qed
  note means = this
  have "mset (map packet_content served) \<subseteq># mset (client_packets evs)"
    by (rule session_at_most_once [OF served(1,2) sent assms(17)]) (rule means)
  then show ?thesis using served(3) by blast
qed

definition demo_local_outside :: local_outside where
  "demo_local_outside = \<lparr>lo_connect_any = (\<lambda>n fam. Ok ()), lo_send = (\<lambda>n. Ok 1), lo_resolve = (\<lambda>n h p. Ok [V4 9 p]),
     lo_resolve_acl = (\<lambda>n h p. None), lo_reverse = (\<lambda>n ip. None), lo_open_proxied = (\<lambda>n. Ok demo_udp_client),
     lo_proxied_with = (\<lambda>n. \<lparr>cd_now = 1000, cd_rnd = [], cd_drawn = 0, cd_mem = [], cd_send = (\<lambda>b. Completed (Ok (length b)))\<rparr>),
     lo_new_session = (\<lambda>n. 1)\<rparr>"

definition demo_sessions :: "(u64 \<rightharpoonup> packet_window_filter) session_cache" where
  "demo_sessions = \<lparr>sc_new = Map.empty, sc_get = (\<lambda>t k m. (m k, m)), sc_put = (\<lambda>t k w m. m(k \<mapsto> w))\<rparr>"

definition demo_local :: "(nat, byte list \<times> u64, (ipv4 \<times> nat) list, (ipv6 \<times> nat) list, rstring list, u64 \<rightharpoonup> packet_window_filter) local_env" where
  "demo_local = \<lparr>le_cipher = counter_cipher, le_udp = demo_udp, le_hash = demo_hash, le_acl_ops = demo_acl, le_acl = None,
     le_balancer_empty = False, le_ipv6_first = False, le_dual_stack = False, le_sessions = demo_sessions, le_outside = demo_local_outside\<rparr>"

lemma demo_datagram:
  "\<exists>p. proxied (outputs (la_calls (local_dispatch_packet demo_local [FromClient demo_dest [9]] (local_create (V4 5 5) 77)))) = [p]
     \<and> length (sp_datagram p) \<le> MAXIMUM_UDP_PAYLOAD_SIZE
     \<and> (\<exists>c. recv_one_packet (demo_env demo_kind) 1010 0 (Completed (Ok (sp_datagram p, V4 1 1))) = Some (Ok (Some (V4 1 1, demo_dest, [9], Some c))))"
proof -
  let ?ctl = "default_control\<lparr>client_session_id := 77, packet_id := 1\<rparr>"
  have "abs_diff (1010 :: u64) 1000 \<le> 30" by (simp add: abs_diff_def)
  from client_packet [OF demo_udp_all_laws _ _ demo_udp_keys this, of demo_dest "[]" 0 "[]" ?ctl "[9]"]
  obtain bs where bs: "encrypt_client_payload counter_cipher demo_udp demo_hash 1000 [] 0 [] demo_kind [5, 6] demo_dest ?ctl [[1, 2]] [9] = Some bs"
    "decrypt_client_payload counter_cipher demo_udp demo_hash 1010 demo_kind [1, 2] bs (Some demo_users)
       = Ok ([9], demo_dest, received_control demo_hash demo_kind [5, 6] (Some demo_users) ?ctl)"
    by (auto simp: demo_udp_fields)
  have len: "length bs \<le> 100" using bs(1)
    by (auto simp: encrypt_client_payload_def demo_udp_fields encrypt_client_payload_aead_2022_def get_aead_2022_padding_size_def
        encrypt_message_def udp_make_eih_def demo_hash_def demo_udp_def Let_def write_ipv4_address_def split: option.splits if_splits)
  show ?thesis
    using bs len
    by (simp add: demo_local_def demo_local_outside_def local_create_def local_dispatch_received_packet_def local_bypassed_def
        local_check_target_bypassed_def dispatch_received_proxied_packet_def next_packet_id_def open_proxied_def send_with_ctrl_def
        encrypt_send_buffer_def from_socket_def wait_io_def recv_one_packet_def recv_from_with_ctrl_def decrypt_recv_buffer_def
        demo_env_def received_control_def demo_udp_fields MAXIMUM_UDP_PAYLOAD_SIZE_def context_check_client_blocked_def
        context_check_outbound_blocked_def)
qed

theorem udp_relayed_at_most_once_witness:
  "\<exists>p c served. proxied (outputs (la_calls (local_dispatch_packet demo_local [FromClient demo_dest [9]] (local_create (V4 5 5) 77)))) = [p]
     \<and> recv_one_packet (demo_env demo_kind) 1010 0 (Completed (Ok (sp_datagram p, V4 1 1))) = Some (Ok (Some (V4 1 1, demo_dest, [9], Some c)))
     \<and> list_all2 (serves (demo_env demo_kind)) (ok_sends (ua_calls (dispatch_packet (demo_env demo_kind)
          [Packet (V4 1 1, demo_dest, [9], Some c), Packet (V4 1 1, demo_dest, [9], Some c)] (assoc_create (V4 1 1) (Some 77) 3)))) served
     \<and> length served \<le> 1"
proof -
  obtain p c where p: "proxied (outputs (la_calls (local_dispatch_packet demo_local [FromClient demo_dest [9]] (local_create (V4 5 5) 77)))) = [p]"
    "length (sp_datagram p) \<le> MAXIMUM_UDP_PAYLOAD_SIZE"
    "recv_one_packet (demo_env demo_kind) 1010 0 (Completed (Ok (sp_datagram p, V4 1 1))) = Some (Ok (Some (V4 1 1, demo_dest, [9], Some c)))"
    using demo_datagram by blast
  let ?pkt = "(V4 1 1, demo_dest, [9 :: byte], Some c)"
  have "\<exists>served. list_all2 (serves (demo_env demo_kind)) (ok_sends (ua_calls (dispatch_packet (demo_env demo_kind)
          [Packet ?pkt, Packet ?pkt] (assoc_create (V4 1 1) (Some 77) 3)))) served
     \<and> mset (map packet_content served) \<subseteq># mset (client_packets [FromClient demo_dest [9]])"
  proof (rule udp_relayed_at_most_once [OF demo_udp_all_laws demo_udp_keys demo_udp_fields(1), where El = demo_local and cum = None and sids = "[]"
        and app = "V4 5 5"])
    show "copies_of (demo_env demo_kind)
        (proxied (outputs (la_calls (local_dispatch_packet demo_local [FromClient demo_dest [9]] (local_create (V4 5 5) 77)))))
        (packets_of [Packet ?pkt, Packet ?pkt])"
      using p(3) unfolding p(1) copies_of_def by auto
    show "\<forall>p \<in> set (proxied (outputs (la_calls (local_dispatch_packet demo_local [FromClient demo_dest [9]] (local_create (V4 5 5) 77))))).
        length (sp_datagram p) \<le> MAXIMUM_UDP_PAYLOAD_SIZE"
      using p(2) unfolding p(1) by simp
  qed (simp_all add: demo_local_def demo_local_outside_def demo_env_def client_draws_ok_def demo_udp_fields)
  then obtain served where served: "list_all2 (serves (demo_env demo_kind)) (ok_sends (ua_calls (dispatch_packet (demo_env demo_kind)
          [Packet ?pkt, Packet ?pkt] (assoc_create (V4 1 1) (Some 77) 3)))) served"
    "mset (map packet_content served) \<subseteq># mset (client_packets [FromClient demo_dest [9]])" by blast
  from size_mset_mono [OF served(2)] have "length served \<le> 1" by simp
  with p(1,3) served(1) show ?thesis by blast
qed

end
