(* ===== verification/Udp_Answers.thy ===== *)
theory Udp_Answers
  imports Udp_Session
begin

text \<open>
  The answers of a UDP session at the client: what the application gets and that no answer of an AEAD-2022 server
  session reaches it twice. The cache of server sessions is \<open>LruCache\<close> of the crate \<open>lru_time_cache\<close>; its laws hold for the time
  in which no server session expires.
\<close>

section \<open>The windows of the server sessions\<close>

definition session_cache_laws :: "'m session_cache \<Rightarrow> nat \<Rightarrow> ('m \<Rightarrow> u64 \<rightharpoonup> packet_window_filter) \<Rightarrow> bool" where
  "session_cache_laws S lifetime view \<longleftrightarrow>
     view (sc_new S) = Map.empty
     \<and> (\<forall>time k m. time < lifetime \<longrightarrow> fst (sc_get S time k m) = view m k \<and> view (snd (sc_get S time k m)) = view m
          \<and> (\<forall>w. view (sc_put S time k w m) = (view m)(k \<mapsto> w)))"

definition answer_window :: "('m \<Rightarrow> u64 \<rightharpoonup> packet_window_filter) \<Rightarrow> 'm local_assoc \<Rightarrow> u64 \<Rightarrow> packet_window_filter" where
  "answer_window view a sid =
     (case Option.bind (la_server_session a) (\<lambda>m. view m sid) of Some w \<Rightarrow> w | None \<Rightarrow> window_new)"

lemma admits_window:
  assumes "session_cache_laws S lifetime view" "time < lifetime" "server_session_admits S time (Some c) a = (v, b)"
  shows "v = fst (validate_packet_id (answer_window view a (server_session_id c)) (packet_id c) 0xFFFFFFFFFFFFFFFF)"
    and "answer_window view b = (answer_window view a)(server_session_id c :=
          snd (validate_packet_id (answer_window view a (server_session_id c)) (packet_id c) 0xFFFFFFFFFFFFFFFF))"
proof -
  define m where "m = (case la_server_session a of Some m \<Rightarrow> m | None \<Rightarrow> sc_new S)"
  define w where "w = answer_window view a (server_session_id c)"
  have view: "answer_window view a sid = (case view m sid of Some w \<Rightarrow> w | None \<Rightarrow> window_new)" for sid
    using assms(1) by (cases "la_server_session a") (auto simp: answer_window_def m_def session_cache_laws_def)
  obtain found m' where get: "sc_get S time (server_session_id c) m = (found, m')" by fastforce
  have laws: "found = view m (server_session_id c)" "view m' = view m"
    "view (sc_put S time (server_session_id c) u m') = (view m)(server_session_id c \<mapsto> u)" for u
    using assms(1,2) get unfolding session_cache_laws_def by (metis fst_conv snd_conv)+
  obtain v' w' where val: "validate_packet_id w (packet_id c) 0xFFFFFFFFFFFFFFFF = (v', w')" by fastforce
  have "(case found of Some w \<Rightarrow> w | None \<Rightarrow> window_new) = w" using view laws(1) by (simp add: w_def)
  then have "server_session_admits S time (Some c) a = (v', a\<lparr>la_server_session := Some (sc_put S time (server_session_id c) w' m')\<rparr>)"
    using get val by (simp add: server_session_admits_def m_def)
  then have b: "v = v'" "b = a\<lparr>la_server_session := Some (sc_put S time (server_session_id c) w' m')\<rparr>" using assms(3) by auto
  show "v = fst (validate_packet_id (answer_window view a (server_session_id c)) (packet_id c) 0xFFFFFFFFFFFFFFFF)"
    using val b(1) by (simp flip: w_def)
  have "answer_window view b sid = ((answer_window view a)(server_session_id c := w')) sid" for sid
    by (simp add: b(2) answer_window_def [of _ "a\<lparr>la_server_session := _\<rparr>"] laws(3) view)
  then show "answer_window view b = (answer_window view a)(server_session_id c :=
          snd (validate_packet_id (answer_window view a (server_session_id c)) (packet_id c) 0xFFFFFFFFFFFFFFFF))"
    using val by (simp add: fun_eq_iff flip: w_def)
qed

section \<open>Where an answer comes from\<close>

text \<open>An answer with its mark: the server session and packet id, for a datagram of an AEAD-2022 server.\<close>

definition answered ::
  "('c, 'u, 'p4, 'p6, 'r, 'm) local_env \<Rightarrow> (proxy_socket \<Rightarrow> bool) \<Rightarrow> local_event list
     \<Rightarrow> socket_addr \<times> address \<times> byte list \<Rightarrow> (u64 \<times> u64) option \<Rightarrow> bool" where
  "answered E known evs = (\<lambda>(peer, addr, data) mark.
     (\<exists>fam bytes sa. FromBypassed fam (Ok (bytes, sa)) \<in> set evs \<and> mark = None \<and> addr = SocketAddress sa
        \<and> data = take MAXIMUM_UDP_PAYLOAD_SIZE bytes)
     \<or> (\<exists>now time recv_io socket n control. FromProxied now time recv_io \<in> set evs \<and> known socket
        \<and> recv_with_ctrl (le_cipher E) (le_udp E) (le_hash E) now socket MAXIMUM_UDP_PAYLOAD_SIZE recv_io = Some (Ok (data, addr, n, control))
        \<and> mark = map_option (\<lambda>c. (server_session_id c, packet_id c)) control))"

lemma answered_mono:
  assumes "answered E k evs x mark" "set evs \<subseteq> set evs'" "\<And>socket. k socket \<Longrightarrow> k' socket"
  shows "answered E k' evs' x mark"
  using assms unfolding answered_def by (cases x) blast

fun event_time :: "local_event \<Rightarrow> nat" where
  "event_time (FromProxied now time recv_io) = time"
| "event_time _ = 0"

text \<open>A step delivers nothing and keeps the windows, or an answer that has no mark, or one its window admits.\<close>

definition hands_over ::
  "('c, 'u, 'p4, 'p6, 'r, 'm) local_env \<Rightarrow> ('m \<Rightarrow> u64 \<rightharpoonup> packet_window_filter) \<Rightarrow> local_event \<Rightarrow> 'm local_assoc \<Rightarrow> 'm local_assoc \<Rightarrow> bool" where
  "hands_over E view ev a b \<longleftrightarrow>
     la_delivered b = la_delivered a \<and> answer_window view b = answer_window view a
     \<or> (\<exists>x. la_delivered b = la_delivered a @ [x] \<and> fst x = la_peer_addr a \<and> answered E (known_socket E a) [ev] x None
          \<and> answer_window view b = answer_window view a)
     \<or> (\<exists>sid pid. let v = validate_packet_id (answer_window view a sid) pid 0xFFFFFFFFFFFFFFFF in
          answer_window view b = (answer_window view a)(sid := snd v)
          \<and> (if fst v then \<exists>x. la_delivered b = la_delivered a @ [x] \<and> fst x = la_peer_addr a
                \<and> answered E (known_socket E a) [ev] x (Some (sid, pid))
             else la_delivered b = la_delivered a))"

lemma answer_window_cong: "la_server_session b = la_server_session a \<Longrightarrow> answer_window view b = answer_window view a"
  by (simp add: answer_window_def fun_eq_iff)

lemma from_proxied_delivers:
  assumes laws: "session_cache_laws (le_sessions E) lifetime view" "time < lifetime"
    and recv: "receive_from_proxied E now time socket recv_io a = Some (r, b)" "known_socket E a socket"
  shows "hands_over E view (FromProxied now time recv_io) a b \<and> la_peer_addr b = la_peer_addr a"
  using recv(1)
proof (cases rule: from_proxied_cases)
  case failed
  then show ?thesis by (auto simp: hands_over_def answer_window_def fun_eq_iff)
next
  case (received data addr n control v c)
  have keeps: "la_delivered c = la_delivered a" "la_peer_addr c = la_peer_addr a" using server_session_admits_keeps [OF received(2)] by auto
  have origin: "answered E (known_socket E a) [FromProxied now time recv_io] (la_peer_addr a, addr, data)
      (map_option (\<lambda>c. (server_session_id c, packet_id c)) control)"
    using received(1) recv(2) unfolding answered_def by auto
  have b: "answer_window view b = answer_window view c" "la_peer_addr b = la_peer_addr a"
    "la_delivered b = la_delivered a @ (if v then [(la_peer_addr a, addr, data)] else [])"
    using received(3) keeps by (auto simp: local_send_received_respond_packet_def answer_window_def fun_eq_iff)
  show ?thesis
  proof (cases control)
    case None
    then have "v" "c = a" using received(2) by (auto simp: server_session_admits_def)
    then show ?thesis using b origin None unfolding hands_over_def by auto
  next
    case (Some ctl)
    note w = admits_window [OF laws received(2) [unfolded Some]]
    show ?thesis
      using b w origin Some unfolding hands_over_def Let_def
      by (intro conjI disjI2 exI [of _ "server_session_id ctl"] exI [of _ "packet_id ctl"]) auto
  qed
qed

lemma client_step_delivers:
  assumes "local_dispatch_received_packet E t d a = Some (r, b)"
  shows "la_delivered b = la_delivered a \<and> la_server_session b = la_server_session a \<and> la_peer_addr b = la_peer_addr a
     \<and> (\<forall>socket. la_proxied b = Some socket \<longrightarrow> known_socket E a socket)"
proof (cases "local_bypassed E (length (la_calls a)) t")
  case True
  obtain r1 where "dispatch_received_bypassed_packet E t d a = (r1, b)"
    using assms(1) True by (auto simp: local_dispatch_received_packet_def split: prod.splits)
  from dispatch_bypassed_adds [OF this] show ?thesis by (auto simp: adds_outputs_def known_socket_def)
next
  case False
  obtain r1 where "dispatch_received_proxied_packet E t d a = Some (r1, b)"
    using assms(1) False by (auto simp: local_dispatch_received_packet_def split: prod.splits)
  from dispatch_proxied_adds [OF this] show ?thesis by blast
qed

lemma local_step_delivers:
  assumes "session_cache_laws (le_sessions E) lifetime view" "event_time ev < lifetime" "local_step E ev a = Some (r, b)"
  shows "hands_over E view ev a b \<and> la_peer_addr b = la_peer_addr a \<and> (\<forall>socket. la_proxied b = Some socket \<longrightarrow> known_socket E a socket)"
proof (cases ev)
  case (FromClient t d)
  with assms(3) client_step_delivers [of E t d a r b] show ?thesis
    unfolding hands_over_def by (auto intro: answer_window_cong)
next
  case (FromBypassed fam received)
  have "answered E (known_socket E a) [ev] (la_peer_addr a, SocketAddress sa, take MAXIMUM_UDP_PAYLOAD_SIZE bytes) None"
    if "received = Ok (bytes, sa)" for bytes sa
    using that FromBypassed by (auto simp: answered_def)
  with FromBypassed assms(3) show ?thesis
    by (auto simp: hands_over_def receive_from_bypassed_def local_send_received_respond_packet_def known_socket_def
        intro!: answer_window_cong split: if_splits res.splits addr_family.splits)
next
  case (FromProxied now time recv_io)
  then have "b = a \<or> (\<exists>socket. la_proxied a = Some socket \<and> receive_from_proxied E now time socket recv_io a = Some (r, b))"
    using assms(3) by (auto simp: Option.bind_eq_Some_conv split: option.splits)
  then show ?thesis
  proof
    assume "\<exists>socket. la_proxied a = Some socket \<and> receive_from_proxied E now time socket recv_io a = Some (r, b)"
    then obtain socket where s: "la_proxied a = Some socket" "receive_from_proxied E now time socket recv_io a = Some (r, b)" by blast
    then have "known_socket E a socket" by (simp add: known_socket_def)
    from from_proxied_delivers [OF assms(1) _ s(2) this] from_proxied_keeps [OF s(2)] s(1) FromProxied assms(2) show ?thesis
      by (auto simp: known_socket_def)
  qed (simp add: hands_over_def known_socket_def)
next
  case (LocalTick has_room)
  with assms(3) show ?thesis by (auto simp: hands_over_def known_socket_def intro: answer_window_cong split: if_splits)
qed

section \<open>Runs\<close>

definition marked :: "(u64 \<times> u64) option list \<Rightarrow> (u64 \<times> u64) list" where
  "marked marks = List.map_filter id marks"

lemma marked_simps [simp]: "marked [] = []" "marked (None # ms) = marked ms" "marked (Some x # ms) = x # marked ms"
  by (simp_all add: marked_def)

definition answers_by ::
  "('c, 'u, 'p4, 'p6, 'r, 'm) local_env \<Rightarrow> local_event list \<Rightarrow> (u64 \<Rightarrow> seen_ids) \<Rightarrow> 'm local_assoc \<Rightarrow> 'm local_assoc \<Rightarrow> bool" where
  "answers_by E evs seen a b \<longleftrightarrow>
     (\<exists>new marks. la_delivered b = la_delivered a @ new \<and> list_all2 (answered E (known_socket E a) evs) new marks
        \<and> (\<forall>x \<in> set new. fst x = la_peer_addr a)
        \<and> distinct (marked marks) \<and> (\<forall>(sid, pid) \<in> set (marked marks). unat pid \<notin> accepted (seen sid)))"

lemma answers_by_refl: "answers_by E evs seen a a"
  unfolding answers_by_def by (intro exI [of _ "[]"]) auto

lemma answers_by_step:
  assumes step: "hands_over E view ev a b" "la_peer_addr b = la_peer_addr a" "\<forall>socket. la_proxied b = Some socket \<longrightarrow> known_socket E a socket"
    and seen: "\<forall>sid. represents (answer_window view a sid) (seen sid)"
    and rest: "\<And>seen'. \<forall>sid. represents (answer_window view b sid) (seen' sid) \<Longrightarrow> answers_by E evs seen' b c"
  shows "answers_by E (ev # evs) seen a c"
proof -
  have up: "answered E (known_socket E a) (ev # evs) x m" if "answered E (known_socket E b) evs x m" for x m
    by (rule answered_mono [OF that]) (auto intro: known_socket_step [OF step(3)])
  have now: "answered E (known_socket E a) (ev # evs) x m" if "answered E (known_socket E a) [ev] x m" for x m
    by (rule answered_mono [OF that]) auto
  have join: "answers_by E (ev # evs) seen a c"
    if "\<forall>sid. represents (answer_window view b sid) (seen' sid)" "\<forall>sid. accepted (seen sid) \<subseteq> accepted (seen' sid)"
      "la_delivered b = la_delivered a @ new" "list_all2 (answered E (known_socket E a) [ev]) new marks"
      "\<forall>x \<in> set new. fst x = la_peer_addr a" "distinct (marked marks)"
      "\<forall>(sid, pid) \<in> set (marked marks). unat pid \<notin> accepted (seen sid) \<and> unat pid \<in> accepted (seen' sid)" for seen' new marks
  proof -
    note rest = rest [OF that(1)]
    obtain new' marks' where new': "la_delivered c = la_delivered b @ new'" "list_all2 (answered E (known_socket E b) evs) new' marks'"
      "\<forall>x \<in> set new'. fst x = la_peer_addr a" "distinct (marked marks')"
      "\<forall>(sid, pid) \<in> set (marked marks'). unat pid \<notin> accepted (seen' sid)"
      using rest step(2) unfolding answers_by_def by auto
    have "list_all2 (answered E (known_socket E a) (ev # evs)) (new @ new') (marks @ marks')"
      by (rule list_all2_appendI) (rule list_all2_mono [OF that(4) now] list_all2_mono [OF new'(2) up], assumption)+
    moreover have "marked (marks @ marks') = marked marks @ marked marks'" by (simp add: marked_def List.map_filter_def)
    ultimately show ?thesis using that(2,3,5-7) new'(1,3-5) unfolding answers_by_def
      by (intro exI [of _ "new @ new'"] exI [of _ "marks @ marks'"]) fastforce
  qed
  consider (same) "la_delivered b = la_delivered a" "answer_window view b = answer_window view a"
    | (plain) x where "la_delivered b = la_delivered a @ [x]" "fst x = la_peer_addr a" "answered E (known_socket E a) [ev] x None"
        "answer_window view b = answer_window view a"
    | (window) sid pid where "answer_window view b = (answer_window view a)(sid := snd (validate_packet_id (answer_window view a sid) pid 0xFFFFFFFFFFFFFFFF))"
        "if fst (validate_packet_id (answer_window view a sid) pid 0xFFFFFFFFFFFFFFFF)
         then \<exists>x. la_delivered b = la_delivered a @ [x] \<and> fst x = la_peer_addr a \<and> answered E (known_socket E a) [ev] x (Some (sid, pid))
         else la_delivered b = la_delivered a"
    using step(1) unfolding hands_over_def Let_def by blast
  then show ?thesis
  proof cases
    case same
    then show ?thesis using join [of seen "[]" "[]"] seen by simp
  next
    case (plain x)
    then show ?thesis using join [of seen "[x]" "[None]"] seen by simp
  next
    case (window sid pid)
    let ?l = "0xFFFFFFFFFFFFFFFF :: u64"
    define seen' where "seen' = seen(sid := seen_step (seen sid) (unat pid) (unat ?l))"
    note v = validate_refines [OF spec [OF seen, of sid], of pid ?l]
    have rep: "\<forall>s. represents (answer_window view b s) (seen' s)" using seen v(2) window(1) by (simp add: seen'_def)
    have sub: "\<forall>s. accepted (seen s) \<subseteq> accepted (seen' s)" by (auto simp: seen'_def seen_step_def)
    show ?thesis
    proof (cases "fst (validate_packet_id (answer_window view a sid) pid ?l)")
      case True
      then have "unat pid \<notin> accepted (seen sid) \<and> unat pid \<in> accepted (seen' sid)"
        using v(1) by (simp add: seen'_def seen_step_def) (simp add: seen_admits_def)
      moreover obtain x where "la_delivered b = la_delivered a @ [x]" "fst x = la_peer_addr a" "answered E (known_socket E a) [ev] x (Some (sid, pid))"
        using window(2) True by auto
      ultimately show ?thesis using join [OF rep sub, of "[x]" "[Some (sid, pid)]"] by simp
    next
      case False
      then show ?thesis using join [OF rep sub, of "[]" "[]"] window(2) by simp
    qed
  qed
qed

lemma local_run_answers:
  assumes "session_cache_laws (le_sessions E) lifetime view" "\<forall>ev \<in> set evs. event_time ev < lifetime"
    and "\<forall>sid. represents (answer_window view a sid) (seen sid)"
  shows "answers_by E evs seen a (local_dispatch_packet E evs a)"
  using assms(2,3)
proof (induction evs arbitrary: a seen)
  case Nil
  then show ?case by (simp add: answers_by_refl)
next
  case (Cons ev evs)
  show ?case
  proof (cases "local_step E ev a")
    case None
    then show ?thesis by (simp add: answers_by_refl)
  next
    case (Some rb)
    obtain r b where st: "local_step E ev a = Some (r, b)" using Some by (cases rb) simp
    obtain evs' where run: "evs' = evs \<or> evs' = []" "local_dispatch_packet E (ev # evs) a = local_dispatch_packet E evs' b"
      using local_dispatch_step [OF st] by blast
    have "answers_by E evs seen' b (local_dispatch_packet E evs' b)" if "\<forall>sid. represents (answer_window view b sid) (seen' sid)" for seen'
      using Cons.IH [OF _ that] Cons.prems(1) run(1) answers_by_refl by auto
    moreover have "event_time ev < lifetime" using Cons.prems(1) by simp
    note step = local_step_delivers [OF assms(1) this st]
    ultimately show ?thesis
      unfolding run(2) using answers_by_step [of E view ev a b seen evs "local_dispatch_packet E evs' b"] step Cons.prems(2) by blast
  qed
qed

text \<open>
  C9: The application gets an answer at most once. Run a new association of the client on any events, in the time in which
  no server session expires. Everything it hands to the application goes to the address of the application, and is a datagram that a
  bypassed socket received or that decrypted on a socket opened to the server. Answers with a server session and packet id,
  which all answers of AEAD-2022 have, are never handed over twice, however the network orders and repeats datagrams.
\<close>

theorem udp_answers_delivered_once:
  assumes "session_cache_laws (le_sessions E) lifetime view" "\<forall>ev \<in> set evs. event_time ev < lifetime"
  shows "\<exists>marks. list_all2 (answered E (\<lambda>socket. \<exists>n. lo_open_proxied (le_outside E) n = Ok socket) evs)
           (la_delivered (local_dispatch_packet E evs (local_create app session))) marks
     \<and> (\<forall>x \<in> set (la_delivered (local_dispatch_packet E evs (local_create app session))). fst x = app)
     \<and> distinct (marked marks)"
proof -
  let ?a = "local_create app session"
  have "\<forall>sid. represents (answer_window view ?a sid) seen_empty" using represents_new by (simp add: answer_window_def local_create_def)
  from local_run_answers [OF assms this]
  have "\<exists>marks. list_all2 (answered E (known_socket E ?a) evs) (la_delivered (local_dispatch_packet E evs ?a)) marks
     \<and> (\<forall>x \<in> set (la_delivered (local_dispatch_packet E evs ?a)). fst x = app) \<and> distinct (marked marks)"
    unfolding answers_by_def by (auto simp: local_create_def)
  moreover have "known_socket E ?a = (\<lambda>socket. \<exists>n. lo_open_proxied (le_outside E) n = Ok socket)"
    by (simp add: fun_eq_iff known_socket_def local_create_def)
  ultimately show ?thesis by simp
qed

lemma demo_sessions_laws: "session_cache_laws demo_sessions lifetime id"
  by (simp add: session_cache_laws_def demo_sessions_def)

lemma window_refuses_copy:
  "\<exists>w w'. validate_packet_id window_new 1 0xFFFFFFFFFFFFFFFF = (True, w) \<and> validate_packet_id w 1 0xFFFFFFFFFFFFFFFF = (False, w')"
proof -
  note first = validate_refines [OF represents_new, of 1 "0xFFFFFFFFFFFFFFFF"]
  have "fst (validate_packet_id window_new 1 0xFFFFFFFFFFFFFFFF)" unfolding first(1) by (simp add: seen_admits_def seen_empty_def)
  moreover have "\<not> fst (validate_packet_id (snd (validate_packet_id window_new 1 0xFFFFFFFFFFFFFFFF)) 1 0xFFFFFFFFFFFFFFFF)"
    unfolding validate_refines(1) [OF first(2)] by (simp add: seen_step_def seen_admits_def seen_empty_def)
  ultimately show ?thesis by (metis prod.collapse)
qed

lemma demo_client_step:
  "\<exists>a. local_step demo_local (FromClient demo_dest [9]) (local_create (V4 5 5) 77) = Some (Ok (), a)
     \<and> la_proxied a = Some demo_udp_client \<and> la_server_session a = None \<and> la_delivered a = [] \<and> la_peer_addr a = V4 5 5"
proof -
  let ?ctl = "default_control\<lparr>client_session_id := 77, packet_id := 1\<rparr>"
  have "abs_diff (1000 :: u64) 1000 \<le> 30" by (simp add: abs_diff_def)
  from client_packet [OF demo_udp_all_laws _ _ demo_udp_keys this, of demo_dest "[]" 0 "[]" ?ctl "[9]"]
  obtain bs where "encrypt_client_payload counter_cipher demo_udp demo_hash 1000 [] 0 [] demo_kind [5, 6] demo_dest ?ctl [[1, 2]] [9] = Some bs"
    by (auto simp: demo_udp_fields)
  then show ?thesis
    by (simp add: demo_local_def demo_local_outside_def local_create_def local_dispatch_received_packet_def local_bypassed_def
        local_check_target_bypassed_def dispatch_received_proxied_packet_def next_packet_id_def open_proxied_def send_with_ctrl_def
        encrypt_send_buffer_def from_socket_def wait_io_def)
qed

lemma demo_answer:
  "\<exists>bs. recv_with_ctrl counter_cipher demo_udp demo_hash 1010 demo_udp_client MAXIMUM_UDP_PAYLOAD_SIZE (Completed (Ok bs))
     = Some (Ok ([4], demo_dest, length bs, Some (default_control\<lparr>client_session_id := 77, server_session_id := 3, packet_id := 1\<rparr>)))"
proof -
  let ?ctl = "default_control\<lparr>client_session_id := 77, server_session_id := 3, packet_id := 1\<rparr>"
  have "abs_diff (1010 :: u64) 1000 \<le> 30" by (simp add: abs_diff_def)
  from server_packet [OF demo_udp_all_laws _ _ _ this, of demo_dest "[]" "[5, 6]" 0 "[]" ?ctl "[4]"]
  obtain bs where bs: "encrypt_server_payload counter_cipher demo_udp demo_hash 1000 [] 0 [] demo_kind [5, 6] demo_dest ?ctl [4] = Some bs"
    "decrypt_server_payload counter_cipher demo_udp demo_hash 1010 demo_kind [5, 6] bs = Ok ([4], demo_dest, Some ?ctl)"
    by (auto simp: demo_udp_fields default_control_def)
  have len: "length bs \<le> 100" using bs(1)
    by (auto simp: encrypt_server_payload_def demo_udp_fields encrypt_server_payload_aead_2022_def get_aead_2022_padding_size_def
        encrypt_message_def demo_hash_def demo_udp_def Let_def write_ipv4_address_def split: option.splits if_splits)
  show ?thesis using bs(2) len
    by (intro exI [of _ bs]) (simp add: recv_with_ctrl_def wait_io_def from_socket_def decrypt_recv_buffer_def MAXIMUM_UDP_PAYLOAD_SIZE_def)
qed

theorem udp_answers_delivered_once_witness:
  "\<exists>bs. la_delivered (local_dispatch_packet demo_local
           [FromClient demo_dest [9], FromProxied 1010 2 (Completed (Ok bs)), FromProxied 1010 3 (Completed (Ok bs))]
           (local_create (V4 5 5) 77)) = [(V4 5 5, demo_dest, [4])]
     \<and> (\<exists>marks. list_all2 (answered demo_local (\<lambda>socket. \<exists>n. lo_open_proxied (le_outside demo_local) n = Ok socket)
             [FromClient demo_dest [9], FromProxied 1010 2 (Completed (Ok bs)), FromProxied 1010 3 (Completed (Ok bs))])
           [(V4 5 5, demo_dest, [4])] marks \<and> distinct (marked marks))"
proof -
  obtain bs where bs: "recv_with_ctrl counter_cipher demo_udp demo_hash 1010 demo_udp_client MAXIMUM_UDP_PAYLOAD_SIZE (Completed (Ok bs))
     = Some (Ok ([4], demo_dest, length bs, Some (default_control\<lparr>client_session_id := 77, server_session_id := 3, packet_id := 1\<rparr>)))"
    using demo_answer by blast
  let ?evs = "[FromClient demo_dest [9], FromProxied 1010 2 (Completed (Ok bs)), FromProxied 1010 3 (Completed (Ok bs))]"
  obtain a where a: "local_step demo_local (FromClient demo_dest [9]) (local_create (V4 5 5) 77) = Some (Ok (), a)"
    "la_proxied a = Some demo_udp_client" "la_server_session a = None" "la_delivered a = []" "la_peer_addr a = V4 5 5"
    using demo_client_step by blast
  obtain w w' where w: "validate_packet_id window_new 1 0xFFFFFFFFFFFFFFFF = (True, w)" "validate_packet_id w 1 0xFFFFFFFFFFFFFFFF = (False, w')"
    using window_refuses_copy by blast
  have "la_delivered (local_dispatch_packet demo_local ?evs (local_create (V4 5 5) 77)) = [(V4 5 5, demo_dest, [4])]"
    using a bs w by (simp add: demo_local_def demo_sessions_def receive_from_proxied_def server_session_admits_def
        local_send_received_respond_packet_def default_control_def)
  moreover from udp_answers_delivered_once [of demo_local 10 id ?evs "V4 5 5" 77]
  have "\<exists>marks. list_all2 (answered demo_local (\<lambda>socket. \<exists>n. lo_open_proxied (le_outside demo_local) n = Ok socket) ?evs)
         (la_delivered (local_dispatch_packet demo_local ?evs (local_create (V4 5 5) 77))) marks \<and> distinct (marked marks)"
    using demo_sessions_laws by (auto simp: demo_local_def)
  ultimately show ?thesis by auto
qed

end
