(* ===== verification/Inet_Text.thy ===== *)
theory Inet_Text
  imports Net_Addr Rust_Text
begin

text \<open>
  The text forms of socket addresses in the Rust standard library, \<open>Display\<close> and \<open>FromStr\<close> of \<open>SocketAddr\<close>, which the
  address types of the sources print and parse with. Printing and parsing are inverse.
\<close>

section \<open>Parsing\<close>

text \<open>A parser consumes a prefix of its input; on failure nothing is consumed.\<close>

definition to_digit :: "nat \<Rightarrow> byte \<Rightarrow> nat option" where
  "to_digit radix b =
     (let n = unat b;
          d = (if 0x30 \<le> n \<and> n \<le> 0x39 then n - 0x30 else if 0x61 \<le> n \<and> n \<le> 0x7A then n - 0x57
               else if 0x41 \<le> n \<and> n \<le> 0x5A then n - 0x37 else radix)
      in if d < radix then Some d else None)"

fun read_digits :: "nat \<Rightarrow> rstring \<Rightarrow> nat list \<times> rstring" where
  "read_digits radix [] = ([], [])"
| "read_digits radix (b # s) =
     (case to_digit radix b of
        Some d \<Rightarrow> (case read_digits radix s of (ds, r) \<Rightarrow> (d # ds, r))
      | None \<Rightarrow> ([], b # s))"

definition digits_val :: "nat \<Rightarrow> nat list \<Rightarrow> nat" where
  "digits_val radix ds = foldl (\<lambda>v d. v * radix + d) 0 ds"

definition read_number :: "nat \<Rightarrow> nat option \<Rightarrow> bool \<Rightarrow> nat \<Rightarrow> rstring \<Rightarrow> (nat \<times> rstring) option" where
  "read_number radix max_digits zero_prefix bound s =
     (case read_digits radix s of
        (ds, r) \<Rightarrow>
          if ds = [] \<or> (case max_digits of Some m \<Rightarrow> m < length ds | None \<Rightarrow> False)
             \<or> \<not> zero_prefix \<and> hd ds = 0 \<and> 1 < length ds \<or> bound \<le> digits_val radix ds
          then None else Some (digits_val radix ds, r))"

definition read_char :: "byte \<Rightarrow> rstring \<Rightarrow> rstring option" where
  "read_char c s = (case s of [] \<Rightarrow> None | b # r \<Rightarrow> if b = c then Some r else None)"

definition read_separator :: "byte \<Rightarrow> bool \<Rightarrow> (rstring \<Rightarrow> 'a option) \<Rightarrow> rstring \<Rightarrow> 'a option" where
  "read_separator sep first p s = (if first then p s else Option.bind (read_char sep s) p)"

fun read_octets :: "bool \<Rightarrow> nat \<Rightarrow> rstring \<Rightarrow> (byte list \<times> rstring) option" where
  "read_octets first 0 s = Some ([], s)"
| "read_octets first (Suc n) s =
     Option.bind (read_separator 0x2E first (read_number 10 (Some 3) False 256) s) (\<lambda>(oct, r).
       map_option (\<lambda>(os, r). (word_of_nat oct # os, r)) (read_octets False n r))"

definition read_ipv4_addr :: "rstring \<Rightarrow> (ipv4 \<times> rstring) option" where
  "read_ipv4_addr s = map_option (\<lambda>(os, r). (of_be os, r)) (read_octets True 4 s)"

text \<open>The groups of an IPv6 address; the last two may be in the form of an IPv4 address.\<close>

fun read_groups :: "bool \<Rightarrow> nat \<Rightarrow> rstring \<Rightarrow> u16 list \<times> bool \<times> rstring" where
  "read_groups first 0 s = ([], False, s)"
| "read_groups first (Suc n) s =
     (case (if n = 0 then None else read_separator 0x3A first read_ipv4_addr s) of
        Some (ip, r) \<Rightarrow> (be_units 2 (be_of 4 ip), True, r)
      | None \<Rightarrow>
          (case read_separator 0x3A first (read_number 16 (Some 4) True 65536) s of
             Some (g, r) \<Rightarrow> (case read_groups False n r of (gs, v4, r) \<Rightarrow> (word_of_nat g # gs, v4, r))
           | None \<Rightarrow> ([], False, s)))"

definition read_ipv6_addr :: "rstring \<Rightarrow> (ipv6 \<times> rstring) option" where
  "read_ipv6_addr s =
     (case read_groups True 8 s of
        (head, v4, s) \<Rightarrow>
          if length head = 8 then Some (ipv6_new head, s)
          else if v4 then None
          else Option.bind (Option.bind (read_char 0x3A s) (read_char 0x3A)) (\<lambda>s.
            case read_groups True (8 - (length head + 1)) s of
              (tail, v4, s) \<Rightarrow> Some (ipv6_new (head @ replicate (8 - length head - length tail) 0 @ tail), s)))"

definition read_port :: "rstring \<Rightarrow> (u16 \<times> rstring) option" where
  "read_port s = Option.bind (read_char 0x3A s) (\<lambda>s.
     map_option (\<lambda>(n, r). (word_of_nat n, r)) (read_number 10 None True 65536 s))"

definition read_socket_addr_v4 :: "rstring \<Rightarrow> (socket_addr \<times> rstring) option" where
  "read_socket_addr_v4 s = Option.bind (read_ipv4_addr s) (\<lambda>(ip, s). map_option (\<lambda>(port, r). (V4 ip port, r)) (read_port s))"

definition read_scope_id :: "rstring \<Rightarrow> u32 \<times> rstring" where
  "read_scope_id s =
     (case Option.bind (read_char 0x25 s) (read_number 10 None True (2 ^ 32)) of
        Some (n, r) \<Rightarrow> (word_of_nat n, r) | None \<Rightarrow> (0, s))"

definition read_socket_addr_v6 :: "rstring \<Rightarrow> (socket_addr \<times> rstring) option" where
  "read_socket_addr_v6 s =
     Option.bind (Option.bind (read_char 0x5B s) read_ipv6_addr) (\<lambda>(ip, s).
       case read_scope_id s of
         (scope, s) \<Rightarrow> map_option (\<lambda>(port, r). (V6 ip port 0 scope, r)) (Option.bind (read_char 0x5D s) read_port))"

definition parse_socket_addr :: "rstring \<Rightarrow> socket_addr option" where
  "parse_socket_addr s =
     (case (case read_socket_addr_v4 s of None \<Rightarrow> read_socket_addr_v6 s | out \<Rightarrow> out) of
        Some (addr, []) \<Rightarrow> Some addr
      | _ \<Rightarrow> None)"

section \<open>Printing\<close>

definition show_ipv4 :: "ipv4 \<Rightarrow> rstring" where
  "show_ipv4 ip = join_with 0x2E (map (\<lambda>oct. show_nat (unat oct)) (be_of 4 ip))"

definition show_groups :: "u16 list \<Rightarrow> rstring" where
  "show_groups gs = join_with 0x3A (map (\<lambda>g. show_hex (unat g)) gs)"

text \<open>The first of the longest runs of zero groups, as its start and length.\<close>

fun longest_zeros :: "nat \<Rightarrow> nat \<times> nat \<Rightarrow> nat \<times> nat \<Rightarrow> u16 list \<Rightarrow> nat \<times> nat" where
  "longest_zeros i current longest [] = longest"
| "longest_zeros i current longest (g # gs) =
     (if g = 0 then
        let current = (if snd current = 0 then i else fst current, snd current + 1)
        in longest_zeros (Suc i) current (if snd longest < snd current then current else longest) gs
      else longest_zeros (Suc i) (0, 0) longest gs)"

definition show_ipv6 :: "ipv6 \<Rightarrow> rstring" where
  "show_ipv6 ip =
     (case to_ipv4_mapped ip of
        Some v4 \<Rightarrow> str ''::ffff:'' @ show_ipv4 v4
      | None \<Rightarrow>
          (case longest_zeros 0 (0, 0) (0, 0) (segments ip) of
             (start, len) \<Rightarrow>
               if 1 < len
               then show_groups (take start (segments ip)) @ str ''::'' @ show_groups (drop (start + len) (segments ip))
               else show_groups (segments ip)))"

fun show_ip :: "ip_addr \<Rightarrow> rstring" where
  "show_ip (IpV4 ip) = show_ipv4 ip"
| "show_ip (IpV6 ip) = show_ipv6 ip"

fun show_socket_addr :: "socket_addr \<Rightarrow> rstring" where
  "show_socket_addr (V4 ip port) = show_ipv4 ip @ 0x3A # show_nat (unat port)"
| "show_socket_addr (V6 ip port flow scope) =
     0x5B # show_ipv6 ip @ (if scope = 0 then [] else 0x25 # show_nat (unat scope)) @ str '']:'' @ show_nat (unat port)"

section \<open>Numbers\<close>

lemma unat_bound: "unat (w :: 'a::len word) < 2 ^ LENGTH('a)"
  by (rule unsigned_less)

definition no_digit :: "nat \<Rightarrow> rstring \<Rightarrow> bool" where
  "no_digit radix s \<longleftrightarrow> (case s of [] \<Rightarrow> True | b # r \<Rightarrow> to_digit radix b = None)"

lemma read_digits_append:
  "read_digits radix s = (ds, []) \<Longrightarrow> read_digits radix (s @ t) = (case read_digits radix t of (es, r) \<Rightarrow> (ds @ es, r))"
  by (induction s arbitrary: ds) (auto split: option.splits prod.splits)

lemma read_digits_none [simp]: "no_digit radix s \<Longrightarrow> read_digits radix s = ([], s)"
  by (cases s) (auto simp: no_digit_def)

lemma digits_val_snoc [simp]: "digits_val radix (ds @ [d]) = digits_val radix ds * radix + d"
  by (simp add: digits_val_def)

lemma digits_val_single [simp]: "digits_val radix [d] = d"
  by (simp add: digits_val_def)

lemma to_digit_dec [simp]: "d < 10 \<Longrightarrow> to_digit 10 (0x30 + word_of_nat d) = Some d"
  by (simp add: to_digit_def unat_digit Let_def)

lemma unat_hex_digit: "d < 16 \<Longrightarrow> unat (hex_digit d) = (if d < 10 then 0x30 + d else 0x57 + d)"
  by (simp add: hex_digit_def unat_word_ariths unat_of_nat)

lemma to_digit_hex [simp]: "d < 16 \<Longrightarrow> to_digit 16 (hex_digit d) = Some d"
  by (auto simp: to_digit_def unat_hex_digit Let_def)

text \<open>The digits of a printed number: its value, no leading zero, and how many there are.\<close>

definition number_text :: "nat \<Rightarrow> nat \<Rightarrow> rstring \<Rightarrow> bool" where
  "number_text radix n s \<longleftrightarrow>
     (\<exists>ds. read_digits radix s = (ds, []) \<and> ds \<noteq> [] \<and> digits_val radix ds = n \<and> (hd ds = 0 \<longrightarrow> length ds = 1)
        \<and> (\<forall>k > 0. n < radix ^ k \<longrightarrow> length ds \<le> k))"

lemma number_textE:
  assumes "number_text radix n s"
  obtains ds where "read_digits radix s = (ds, [])" "ds \<noteq> []" "digits_val radix ds = n" "hd ds = 0 \<longrightarrow> length ds = 1"
    "\<forall>k > 0. n < radix ^ k \<longrightarrow> length ds \<le> k"
  using assms unfolding number_text_def by (elim exE conjE)

lemma number_text_single: "to_digit radix b = Some d \<Longrightarrow> number_text radix d [b]"
  by (auto simp: number_text_def)

lemma number_text_snoc:
  assumes "number_text radix n s" "0 < n" "to_digit radix b = Some d" "0 < radix"
  shows "number_text radix (n * radix + d) (s @ [b])"
proof -
  obtain ds where ds: "read_digits radix s = (ds, [])" "ds \<noteq> []" "digits_val radix ds = n" "hd ds = 0 \<longrightarrow> length ds = 1"
    "\<forall>k > 0. n < radix ^ k \<longrightarrow> length ds \<le> k" by (rule number_textE [OF assms(1)])
  have "hd ds \<noteq> 0"
  proof
    assume "hd ds = 0"
    then have "ds = [0]" using ds(2,4) by (cases ds) auto
    then show False using ds(3) assms(2) by simp
  qed
  moreover have "length ds + 1 \<le> k" if k: "0 < k" "n * radix + d < radix ^ k" for k
  proof (cases "k = 1")
    case True
    then show ?thesis using k assms(2,4) by (cases n) auto
  next
    case False
    then obtain j where j: "k = Suc j" "0 < j" using k(1) by (cases k) auto
    then have "n * radix < radix ^ j * radix" using k(2) by (intro le_less_trans [of "n * radix" "n * radix + d"]) (simp_all add: mult.commute)
    then have "n < radix ^ j" by simp
    then show ?thesis using ds(5) j by auto
  qed
  ultimately show ?thesis
    using ds(1-3) assms(3) unfolding number_text_def
    by (intro exI [of _ "ds @ [d]"]) (auto simp: read_digits_append)
qed

lemma show_nat_text: "number_text 10 n (show_nat n)"
proof (induction n rule: show_nat.induct)
  case (1 n)
  show ?case
  proof (cases "n < 10")
    case True
    then show ?thesis by (subst show_nat.simps) (simp add: number_text_single)
  next
    case False
    then have "0 < n div 10" by simp
    from number_text_snoc [OF 1 [OF False] this, of "0x30 + word_of_nat (n mod 10)" "n mod 10"] False show ?thesis
      by (subst show_nat.simps) simp
  qed
qed

lemma show_hex_text: "number_text 16 n (show_hex n)"
proof (induction n rule: show_hex.induct)
  case (1 n)
  show ?case
  proof (cases "n < 16")
    case True
    then show ?thesis by (subst show_hex.simps) (simp add: number_text_single)
  next
    case False
    then have "0 < n div 16" by simp
    from number_text_snoc [OF 1 [OF False] this, of "hex_digit (n mod 16)" "n mod 16"] False show ?thesis
      by (subst show_hex.simps) simp
  qed
qed

lemma read_number_text:
  assumes "number_text radix n s" "no_digit radix r" "n < bound" "case max_digits of Some m \<Rightarrow> 0 < m \<and> n < radix ^ m | None \<Rightarrow> True"
  shows "read_number radix max_digits zero_prefix bound (s @ r) = Some (n, r)"
proof -
  obtain ds where ds: "read_digits radix s = (ds, [])" "ds \<noteq> []" "digits_val radix ds = n" "hd ds = 0 \<longrightarrow> length ds = 1"
    "\<forall>k > 0. n < radix ^ k \<longrightarrow> length ds \<le> k" by (rule number_textE [OF assms(1)])
  have "\<not> (case max_digits of Some m \<Rightarrow> m < length ds | None \<Rightarrow> False)"
    using ds(5) assms(4) by (cases max_digits) (simp_all add: not_less)
  moreover have "\<not> (\<not> zero_prefix \<and> hd ds = 0 \<and> 1 < length ds)" using ds(4) by auto
  ultimately show ?thesis using ds(1-3) assms(2,3) by (simp add: read_number_def read_digits_append)
qed

lemma read_number_fails [simp]: "no_digit radix s \<Longrightarrow> read_number radix max_digits zero_prefix bound s = None"
  by (simp add: read_number_def)

lemma read_number_rest:
  assumes "read_number radix max_digits zero_prefix bound s = Some (n, r)"
  shows "no_digit radix r"
proof -
  have "no_digit radix (snd (read_digits radix s))"
    by (induction s) (auto simp: no_digit_def split: option.splits prod.splits)
  then show ?thesis using assms by (auto simp: read_number_def split: prod.splits if_splits)
qed

section \<open>Round trips\<close>

lemma join_with_Cons: "join_with d (p # ps) = p @ concat (map (\<lambda>q. d # q) ps)"
  by (induction ps arbitrary: p) auto

lemma no_digit_Cons [simp]: "no_digit radix (b # s) \<longleftrightarrow> to_digit radix b = None" "no_digit radix []"
  by (simp_all add: no_digit_def)

lemma not_digits [simp]:
  "to_digit 10 0x2E = None" "to_digit 10 0x3A = None" "to_digit 10 0x5D = None" "to_digit 10 0x25 = None" "to_digit 10 0x5B = None"
  "to_digit 16 0x2E = None" "to_digit 16 0x3A = None" "to_digit 16 0x5D = None" "to_digit 16 0x25 = None"
  by (simp_all add: to_digit_def)

lemma read_char_hit [simp]: "read_char c (c # r) = Some r"
  by (simp add: read_char_def)

subsection \<open>IPv4\<close>

lemma read_octets_four:
  "read_octets first 4 s =
     Option.bind (read_separator 0x2E first (read_number 10 (Some 3) False 256) s) (\<lambda>(v, r).
       map_option (\<lambda>(os, r). (word_of_nat v # os, r)) (read_octets False 3 r))"
  "read_octets first 3 s =
     Option.bind (read_separator 0x2E first (read_number 10 (Some 3) False 256) s) (\<lambda>(v, r).
       map_option (\<lambda>(os, r). (word_of_nat v # os, r)) (read_octets False 2 r))"
  using read_octets.simps(2) [of first 3 s] read_octets.simps(2) [of first 2 s] by simp_all

lemma read_octet_show: "no_digit 10 r \<Longrightarrow> read_number 10 (Some 3) False 256 (show_nat (unat (oct :: byte)) @ r) = Some (unat oct, r)"
  using order.strict_trans [OF unat_byte_lt, of 1000 oct] by (intro read_number_text [OF show_nat_text]) auto

lemma read_octets_show:
  "no_digit 10 r \<Longrightarrow> read_octets False (length os) (concat (map (\<lambda>oct. 0x2E # show_nat (unat oct)) os) @ r) = Some (os, r)"
proof (induction os)
  case (Cons oct os)
  have "no_digit 10 (concat (map (\<lambda>oct. 0x2E # show_nat (unat oct)) os) @ r)" using Cons.prems by (cases os) auto
  then show ?case using Cons by (simp add: read_separator_def read_octet_show)
qed simp

lemma read_ipv4_show:
  assumes "no_digit 10 r"
  shows "read_ipv4_addr (show_ipv4 ip @ r) = Some (ip, r)"
proof -
  obtain oct os where b: "be_of 4 ip = oct # os" "length os = 3" using length_be_of [of 4 ip] by (cases "be_of 4 ip") auto
  have rest: "no_digit 10 (concat (map (\<lambda>oct. 0x2E # show_nat (unat oct)) os) @ r)" using assms by (cases os) auto
  have "show_ipv4 ip @ r = show_nat (unat oct) @ concat (map (\<lambda>oct. 0x2E # show_nat (unat oct)) os) @ r"
    by (simp add: show_ipv4_def b(1) join_with_Cons comp_def)
  then have "read_octets True 4 (show_ipv4 ip @ r) = Some (be_of 4 ip, r)"
    using read_octets_show [OF assms, of os] b read_octet_show [OF rest, of oct] by (simp add: read_separator_def read_octets_four(1))
  then show ?thesis by (simp add: read_ipv4_addr_def)
qed

subsection \<open>IPv6\<close>

text \<open>What may follow the groups of an address.\<close>

definition ends_groups :: "rstring \<Rightarrow> bool" where
  "ends_groups r \<longleftrightarrow> no_digit 16 r \<and> (case r of [] \<Rightarrow> True | b # r \<Rightarrow> b \<noteq> 0x2E \<and> (b = 0x3A \<longrightarrow> no_digit 16 r))"

lemma dec_digit_hex: "to_digit 16 b = None \<Longrightarrow> to_digit 10 b = None"
  by (auto simp: to_digit_def Let_def split: if_splits)

lemma no_digit_10: "no_digit 16 s \<Longrightarrow> no_digit 10 s"
  by (cases s) (auto simp: dec_digit_hex)

lemma hex_text_digits:
  assumes "read_digits 16 s = (ds, [])" "b \<in> set s"
  shows "to_digit 16 b \<noteq> None"
  using assms by (induction s arbitrary: ds) (auto split: option.splits prod.splits)

lemma read_digits_within:
  "no_digit 10 r \<Longrightarrow> \<exists>ds x. read_digits 10 (s @ r) = (ds, x @ r) \<and> set x \<subseteq> set s"
  by (induction s) (fastforce split: option.splits)+

text \<open>A group is not taken for the start of an IPv4 address.\<close>

lemma read_ipv4_group:
  assumes "no_digit 16 r" "\<forall>r'. r \<noteq> 0x2E # r'"
  shows "read_ipv4_addr (show_hex n @ r) = None"
proof -
  obtain ds where hex: "read_digits 16 (show_hex n) = (ds, [])" by (rule number_textE [OF show_hex_text [of n]])
  obtain es x where x: "read_digits 10 (show_hex n @ r) = (es, x @ r)" "set x \<subseteq> set (show_hex n)"
    using read_digits_within [OF no_digit_10 [OF assms(1)], of "show_hex n"] by blast
  have "read_char 0x2E (x @ r) = None"
  proof (cases x)
    case Nil
    then show ?thesis using assms(2) by (cases r) (auto simp: read_char_def)
  next
    case (Cons b y)
    then have "b \<noteq> 0x2E" using hex_text_digits [OF hex, of b] x(2) by auto
    then show ?thesis using Cons by (simp add: read_char_def)
  qed
  moreover have "read_number 10 (Some 3) False 256 (show_hex n @ r) = Some (m, r') \<Longrightarrow> r' = x @ r" for m r'
    using x(1) by (auto simp: read_number_def split: if_splits)
  ultimately have "read_octets True 4 (show_hex n @ r) = None"
    unfolding read_octets_four
    by (cases "read_number 10 (Some 3) False 256 (show_hex n @ r)") (auto simp: read_separator_def)
  then show ?thesis by (simp add: read_ipv4_addr_def)
qed

lemma read_ipv4_none:
  assumes "no_digit 10 s"
  shows "read_ipv4_addr s = None"
  using assms by (simp add: read_ipv4_addr_def read_octets_four(1) read_separator_def)

lemma read_group_show: "no_digit 16 r \<Longrightarrow> read_number 16 (Some 4) True 65536 (show_hex (unat (g :: u16)) @ r) = Some (unat g, r)"
  using unat_bound [of g] by (intro read_number_text [OF show_hex_text]) auto

lemma read_groups_end: "ends_groups r \<Longrightarrow> read_groups False n r = ([], False, r)"
proof (cases n)
  case (Suc m)
  assume r: "ends_groups r"
  have "Option.bind (read_char 0x3A r) p = None" if "\<And>s. no_digit 16 s \<Longrightarrow> p s = None" for p :: "rstring \<Rightarrow> 'a option"
    using r that by (cases r) (auto simp: ends_groups_def read_char_def)
  then have "read_separator 0x3A False read_ipv4_addr r = None" "read_separator 0x3A False (read_number 16 (Some 4) True 65536) r = None"
    using r by (cases r; auto simp: ends_groups_def read_char_def read_separator_def read_ipv4_none no_digit_10)+
  then show ?thesis using Suc by simp
qed simp

abbreviation "more_groups gs \<equiv> concat (map (\<lambda>g. 0x3A # show_hex (unat g)) gs)"

lemma read_more_groups:
  assumes "ends_groups r" "length gs \<le> n"
  shows "read_groups False n (more_groups gs @ r) = (gs, False, r)"
  using assms(2)
proof (induction gs arbitrary: n)
  case Nil
  then show ?case using read_groups_end [OF assms(1)] by simp
next
  case (Cons g gs)
  then obtain m where n: "n = Suc m" "length gs \<le> m" by (cases n) auto
  have rest: "no_digit 16 (more_groups gs @ r)" "\<forall>r'. more_groups gs @ r \<noteq> 0x2E # r'"
    using assms(1) by (cases gs; cases r; auto simp: ends_groups_def)+
  show ?case unfolding n(1) using Cons.IH [OF n(2)] read_ipv4_group [OF rest] read_group_show [OF rest(1), of g]
    by (cases m) (auto simp: read_separator_def)
qed

lemma read_groups_show:
  assumes "ends_groups r" "length gs \<le> n" "gs = [] \<longrightarrow> no_digit 16 r"
  shows "read_groups True n (show_groups gs @ r) = (gs, False, r)"
proof (cases gs)
  case Nil
  then show ?thesis using assms(3) by (cases n) (auto simp: show_groups_def read_separator_def read_ipv4_none no_digit_10)
next
  case (Cons g hs)
  then obtain m where n: "n = Suc m" "length hs \<le> m" using assms(2) by (cases n) auto
  have rest: "no_digit 16 (more_groups hs @ r)" "\<forall>r'. more_groups hs @ r \<noteq> 0x2E # r'"
    using assms(1) by (cases hs; cases r; auto simp: ends_groups_def)+
  have "show_groups gs @ r = show_hex (unat g) @ more_groups hs @ r" by (simp add: show_groups_def Cons join_with_Cons comp_def)
  then show ?thesis unfolding n(1)
    using read_more_groups [OF assms(1) n(2)] read_ipv4_group [OF rest] read_group_show [OF rest(1), of g] Cons
    by (cases m) (auto simp: read_separator_def)
qed

text \<open>The run of zeros that is left out is one.\<close>

lemma longest_zeros_run:
  assumes "longest_zeros (length pre) current longest gs = (start, len)" "full = pre @ gs"
    and "snd current = 0 \<or> fst current + snd current = length pre" "\<forall>j < snd current. full ! (fst current + j) = 0"
    and "fst longest + snd longest \<le> length full" "\<forall>j < snd longest. full ! (fst longest + j) = 0"
  shows "start + len \<le> length full \<and> (\<forall>j < len. full ! (start + j) = 0)"
  using assms
proof (induction gs arbitrary: pre current longest)
  case (Cons g gs)
  define current' where "current' = (if g = 0 then (if snd current = 0 then length pre else fst current, snd current + 1) else (0, 0))"
  define longest' where "longest' = (if g = 0 \<and> snd longest < snd current' then current' else longest)"
  have step: "longest_zeros (length (pre @ [g])) current' longest' gs = (start, len)"
    using Cons.prems(1) by (simp add: current'_def longest'_def Let_def split: if_splits)
  have g: "full ! length pre = g" using Cons.prems(2) by simp
  have cur: "snd current' = 0 \<or> fst current' + snd current' = length (pre @ [g])" using Cons.prems(3) by (auto simp: current'_def)
  have zeros: "\<forall>j < snd current'. full ! (fst current' + j) = 0"
    using Cons.prems(3,4) g by (auto simp: current'_def less_Suc_eq)
  have len: "length (pre @ [g]) \<le> length full" using Cons.prems(2) by simp
  show ?case
    by (rule Cons.IH [OF step]) (use Cons.prems cur zeros len in \<open>auto simp: longest'_def\<close>)
qed simp

lemma zeros_between:
  assumes "start + len \<le> length full" "\<forall>j < len. full ! (start + j) = 0"
  shows "take start full @ replicate len 0 @ drop (start + len) full = full"
proof -
  have "replicate len 0 = take len (drop start full)" using assms by (intro nth_equalityI) auto
  then show ?thesis by (simp add: add.commute flip: drop_drop)
qed

lemma be_val_append: "be_val (as @ bs) = be_val as * 256 ^ length bs + be_val bs"
proof (induction bs rule: rev_induct)
  case (snoc b bs)
  then show ?case by (simp add: algebra_simps flip: append_assoc)
qed simp

lemma concat_units_4: "length bs = 4 \<Longrightarrow> concat (map (be_of 2) (be_units 2 bs)) = bs"
  using be_of_2_of_be [of "take 2 bs"] be_of_2_of_be [of "drop 2 bs"] by (simp add: be_units_def slice_def upt_rec)

lemma mapped_segments:
  assumes "to_ipv4_mapped ip = Some v4"
  shows "ipv6_new (replicate 5 0 @ 0xFFFF # be_units 2 (be_of 4 v4)) = ip"
proof -
  have ip: "drop_bit 32 ip = 0xFFFF" "v4 = ucast ip" using assms by (auto simp: to_ipv4_mapped_def split: if_splits)
  have "unat ip div 2 ^ 32 = unat (drop_bit 32 ip)" by (simp add: drop_bit_eq_div unat_div_distrib)
  then have high: "unat ip div 2 ^ 32 = 0xFFFF" using ip(1) by simp
  have low: "unat v4 = unat ip mod 2 ^ 32" using ip(2) by (simp add: unsigned_ucast_eq take_bit_eq_mod)
  let ?start = "[0, 0, 0, 0, 0, 0, 0, 0, 0, 0, 0xFF, 0xFF] :: byte list"
  have two: "be_of 2 (0 :: u16) = [0, 0]" "be_of 2 (0xFFFF :: u16) = [0xFF, 0xFF]"
    using be_of_2_of_be [of "[0, 0]"] be_of_2_of_be [of "[0xFF, 0xFF]"] by (simp_all add: of_be_def be_val_def)
  have five: "replicate 5 (0 :: u16) = [0, 0, 0, 0, 0]" by (simp add: numeral_eq_Suc)
  have bytes: "concat (map (be_of 2) (replicate 5 0 @ 0xFFFF # be_units 2 (be_of 4 v4))) = ?start @ be_of 4 v4"
    by (simp add: two five concat_units_4)
  have start: "be_val ?start = 0xFFFF" by (simp add: be_val_def)
  have "be_val (be_of 4 v4) = unat v4" using unat_bound [of v4] by (simp add: be_of_def be_val_be_bytes)
  then have "be_val (?start @ be_of 4 v4) = 0xFFFF * 2 ^ 32 + unat v4" by (subst be_val_append) (simp add: start)
  then have "ipv6_new (replicate 5 0 @ 0xFFFF # be_units 2 (be_of 4 v4)) = word_of_nat (0xFFFF * 2 ^ 32 + unat v4)"
    unfolding ipv6_new_def bytes of_be_def by (rule arg_cong)
  also have "0xFFFF * 2 ^ 32 + unat v4 = unat ip" unfolding low high [symmetric] by (rule div_mult_mod_eq)
  finally show ?thesis by simp
qed

lemma read_ipv6_show:
  assumes "no_digit 16 r" "\<forall>b r'. r = b # r' \<longrightarrow> b \<noteq> 0x2E \<and> b \<noteq> 0x3A"
  shows "read_ipv6_addr (show_ipv6 ip @ r) = Some (ip, r)"
proof -
  have r: "ends_groups r" using assms by (cases r) (auto simp: ends_groups_def)
  show ?thesis
  proof (cases "to_ipv4_mapped ip")
    case (Some v4)
    have "read_groups True 8 (0x3A # s) = ([], False, 0x3A # s)" for s
      using read_groups.simps(2) [of True 7 "0x3A # s"] by (simp add: read_separator_def read_ipv4_none)
    moreover have "read_groups True 7 (show_hex (unat (0xFFFF :: u16)) @ 0x3A # show_ipv4 v4 @ r) = (0xFFFF # be_units 2 (be_of 4 v4), True, r)"
      using read_ipv4_group [of "0x3A # show_ipv4 v4 @ r" "unat (0xFFFF :: u16)"] read_group_show [of "0x3A # show_ipv4 v4 @ r" "0xFFFF :: u16"]
        read_ipv4_show [OF no_digit_10 [OF assms(1)], of v4] read_groups.simps(2) [of True 6] read_groups.simps(2) [of False 5]
      by (simp add: read_separator_def)
    moreover have "str ''ffff:'' = show_hex (unat (0xFFFF :: u16)) @ [0x3A]" by (simp add: show_hex.simps hex_digit_def str_def)
    then have "show_ipv6 ip @ r = 0x3A # 0x3A # show_hex (unat (0xFFFF :: u16)) @ 0x3A # show_ipv4 v4 @ r"
      by (simp add: show_ipv6_def Some str_def)
    moreover have "length (be_units 2 (be_of 4 v4)) = 2" by (simp add: be_units_def)
    ultimately show ?thesis using mapped_segments [OF Some] by (simp add: read_ipv6_addr_def)
  next
    case None
    obtain start len where run: "longest_zeros 0 (0, 0) (0, 0) (segments ip) = (start, len)" by fastforce
    have bounds: "start + len \<le> 8" "\<forall>j < len. segments ip ! (start + j) = 0"
      using longest_zeros_run [of "[]" "(0, 0)" "(0, 0)" "segments ip" start len "segments ip"] run by auto
    show ?thesis
    proof (cases "1 < len")
      case True
      let ?head = "take start (segments ip)" and ?tail = "drop (start + len) (segments ip)"
      have "read_groups True 8 (show_groups ?head @ 0x3A # 0x3A # show_groups ?tail @ r) = (?head, False, 0x3A # 0x3A # show_groups ?tail @ r)"
        by (rule read_groups_show) (use bounds True in \<open>auto simp: ends_groups_def\<close>)
      moreover have "read_groups True (8 - (length ?head + 1)) (show_groups ?tail @ r) = (?tail, False, r)"
        by (rule read_groups_show [OF r]) (use bounds True assms(1) in auto)
      moreover have "8 - length ?head - length ?tail = len" "length ?head \<noteq> 8" using bounds True by auto
      moreover have "ipv6_new (?head @ replicate len 0 @ ?tail) = ip" using zeros_between [of start len "segments ip"] bounds by simp
      ultimately show ?thesis using True by (simp add: show_ipv6_def None run read_ipv6_addr_def str_def)
    next
      case False
      have "read_groups True 8 (show_groups (segments ip) @ r) = (segments ip, False, r)"
        by (rule read_groups_show [OF r]) (use assms(1) in auto)
      then show ?thesis using False by (simp add: show_ipv6_def None run read_ipv6_addr_def)
    qed
  qed
qed

subsection \<open>Socket addresses\<close>

lemma read_port_show [simp]: "read_port (0x3A # show_nat (unat (port :: u16))) = Some (port, [])"
  using read_number_text [OF show_nat_text, of "[]" "unat port" 65536 None True] unat_bound [of port] by (simp add: read_port_def)

lemma parse_show_socket_addr:
  assumes "case addr of V6 ip port flow scope \<Rightarrow> flow = 0 | _ \<Rightarrow> True"
  shows "parse_socket_addr (show_socket_addr addr) = Some addr"
proof (cases addr)
  case (V4 ip port)
  then show ?thesis using read_ipv4_show [of "0x3A # show_nat (unat port)" ip]
    by (simp add: parse_socket_addr_def read_socket_addr_v4_def)
next
  case (V6 ip port flow scope)
  define rest where "rest = (if scope = 0 then [] else 0x25 # show_nat (unat scope)) @ 0x5D # 0x3A # show_nat (unat port)"
  have printed: "show_socket_addr addr = 0x5B # show_ipv6 ip @ rest" by (simp add: V6 rest_def str_def)
  have "read_ipv6_addr (show_ipv6 ip @ rest) = Some (ip, rest)"
    by (rule read_ipv6_show) (auto simp: rest_def)
  moreover have "read_scope_id rest = (scope, 0x5D # 0x3A # show_nat (unat port))"
    using read_number_text [OF show_nat_text, of "0x5D # 0x3A # show_nat (unat port)" "unat scope" "2 ^ 32" None True] unat_bound [of scope]
    by (auto simp: rest_def read_scope_id_def read_char_def)
  moreover have "read_socket_addr_v4 (0x5B # s) = None" for s by (simp add: read_socket_addr_v4_def read_ipv4_none)
  ultimately have "parse_socket_addr (0x5B # show_ipv6 ip @ rest) = Some (V6 ip port 0 scope)"
    by (simp add: parse_socket_addr_def read_socket_addr_v6_def)
  then show ?thesis unfolding printed using assms V6 by simp
qed

end
