(* ===== verification/Server_Config.thy ===== *)
theory Server_Config
  imports Complex_Main Socks5_Server Server_Users Inet_Text Rust_Trim
begin

text \<open>
  The configuration of a server, \<open>shadowsocks/src/config.rs\<close>: server addresses and their text, the keys derived from a
  password, and the \<open>ss://\<close> URLs. The crates for Base64, URLs and ciphers are parameters with their documented laws.
\<close>

section \<open>Addresses\<close>

fun server_addr_host :: "server_addr \<Rightarrow> rstring" where
  "server_addr_host (ServerSocketAddr sa) = show_ip (sock_ip sa)"
| "server_addr_host (ServerDomainName dn port) = dn"

fun server_addr_port :: "server_addr \<Rightarrow> u16" where
  "server_addr_port (ServerSocketAddr sa) = sock_port sa"
| "server_addr_port (ServerDomainName dn port) = port"

definition server_addr_from_str :: "rstring \<Rightarrow> server_addr option" where
  "server_addr_from_str s =
     (case parse_socket_addr s of
        Some addr \<Rightarrow> Some (ServerSocketAddr addr)
      | None \<Rightarrow>
          (case split_all 0x3A s of
             dn # port # rest \<Rightarrow>
               if dn = [] then None else map_option (ServerDomainName dn) (parse_u16 port)
           | _ \<Rightarrow> None))"

fun server_addr_display :: "server_addr \<Rightarrow> rstring" where
  "server_addr_display (ServerSocketAddr sa) = show_socket_addr sa"
| "server_addr_display (ServerDomainName dn port) = dn @ 0x3A # show_nat (unat port)"

fun server_addr_of_address :: "address \<Rightarrow> server_addr" where
  "server_addr_of_address (SocketAddress sa) = ServerSocketAddr sa"
| "server_addr_of_address (DomainNameAddress dn port) = ServerDomainName dn port"

text \<open>The target addresses of \<open>relay/socks5.rs\<close> have a default port.\<close>

definition address_from_str :: "rstring \<Rightarrow> address option" where
  "address_from_str s =
     (case parse_socket_addr s of
        Some addr \<Rightarrow> Some (SocketAddress addr)
      | None \<Rightarrow>
          (case split_all 0x3A s of
             dn # port # rest \<Rightarrow> map_option (DomainNameAddress dn) (parse_u16 port)
           | [dn] \<Rightarrow> Some (DomainNameAddress dn 80)
           | [] \<Rightarrow> None))"

fun address_display :: "address \<Rightarrow> rstring" where
  "address_display (SocketAddress sa) = show_socket_addr sa"
| "address_display (DomainNameAddress dn port) = dn @ 0x3A # show_nat (unat port)"

datatype manager_addr = ManagerSocketAddr socket_addr | ManagerDomainName rstring u16 | UnixSocketAddr rstring

definition manager_addr_from_str :: "rstring \<Rightarrow> manager_addr option" where
  "manager_addr_from_str s =
     (case split_once 0x3A s of
        Some (sdomain, sport) \<Rightarrow>
          (case parse_socket_addr s of
             Some saddr \<Rightarrow> Some (ManagerSocketAddr saddr)
           | None \<Rightarrow> map_option (ManagerDomainName (str_trim sdomain)) (parse_u16 (str_trim sport)))
      | None \<Rightarrow> Some (UnixSocketAddr s))"

fun manager_addr_display :: "manager_addr \<Rightarrow> rstring" where
  "manager_addr_display (ManagerSocketAddr sa) = show_socket_addr sa"
| "manager_addr_display (ManagerDomainName dn port) = dn @ 0x3A # show_nat (unat port)"
| "manager_addr_display (UnixSocketAddr path) = path"

fun replay_policy_display :: "replay_policy \<Rightarrow> rstring" where
  "replay_policy_display PolicyDefault = str ''default''"
| "replay_policy_display PolicyIgnore = str ''ignore''"
| "replay_policy_display PolicyDetect = str ''detect''"
| "replay_policy_display PolicyReject = str ''reject''"

definition replay_policy_from_str :: "rstring \<Rightarrow> replay_policy option" where
  "replay_policy_from_str s =
     (if s = str ''default'' then Some PolicyDefault else if s = str ''ignore'' then Some PolicyIgnore
      else if s = str ''detect'' then Some PolicyDetect else if s = str ''reject'' then Some PolicyReject else None)"

section \<open>Methods and keys\<close>

text \<open>The methods that \<open>config.rs\<close> names; all others are known by what the crate says of them.\<close>

datatype 'k cipher_method = NONE_METHOD | SS_TABLE | AEAD2022_BLAKE3_AES_128_GCM | AEAD2022_BLAKE3_AES_256_GCM | OtherMethod 'k

datatype decode_error = DecodeError rstring

record 'k crates =
  kind_of :: "'k cipher_method \<Rightarrow> cipher_kind"
  method_text :: "'k cipher_method \<Rightarrow> rstring"
  method_parse :: "rstring \<Rightarrow> 'k cipher_method option"
  openssl_bytes_to_key :: "rstring \<Rightarrow> nat \<Rightarrow> byte list"
  std_encode :: "byte list \<Rightarrow> rstring"
  std_decode :: "rstring \<Rightarrow> (byte list, decode_error) res"
  url_encode :: "byte list \<Rightarrow> rstring"
  url_decode :: "rstring \<Rightarrow> (byte list, decode_error) res"

datatype 'k config_error = InvalidKeyEncoding "'k cipher_method" decode_error | InvalidUserKeyEncoding "'k cipher_method" decode_error
  | InvalidKeyLength "'k cipher_method" nat nat | InvalidUserKeyLength "'k cipher_method" nat nat

definition make_derived_key :: "'k crates \<Rightarrow> 'k cipher_method \<Rightarrow> rstring \<Rightarrow> (byte list, 'k config_error) res" where
  "make_derived_key K method password =
     (let len = key_len (kind_of K method) in
      if is_aead_2022 (kind_of K method) then
        (case std_decode K password of
           Ok v \<Rightarrow> if length v \<noteq> len then Err (InvalidKeyLength method len (length v)) else Ok v
         | Err err \<Rightarrow> Err (InvalidKeyEncoding method err)
         | Panic \<Rightarrow> Panic)
      else Ok (openssl_bytes_to_key K password len))"

definition method_support_eih :: "'k cipher_method \<Rightarrow> bool" where
  "method_support_eih method \<longleftrightarrow> method = AEAD2022_BLAKE3_AES_128_GCM \<or> method = AEAD2022_BLAKE3_AES_256_GCM"

text \<open>The identity keys, in the order of \<open>rsplit\<close>.\<close>

fun decode_identity_keys :: "'k crates \<Rightarrow> 'k cipher_method \<Rightarrow> rstring list \<Rightarrow> (byte list list, 'k config_error) res" where
  "decode_identity_keys K method [] = Ok []"
| "decode_identity_keys K method (ipsk # ipsks) =
     (case std_decode K ipsk of
        Ok v \<Rightarrow>
          let len = (if method = AEAD2022_BLAKE3_AES_128_GCM then 16 else 32) in
          if length v \<noteq> len then Err (InvalidUserKeyLength method len (length v))
          else bind_res (decode_identity_keys K method ipsks) (\<lambda>keys. Ok (v # keys))
      | Err err \<Rightarrow> Err (InvalidUserKeyEncoding method err)
      | Panic \<Rightarrow> Panic)"

definition password_to_keys ::
  "'k crates \<Rightarrow> 'k cipher_method \<Rightarrow> rstring \<Rightarrow> (rstring \<times> byte list \<times> byte list list, 'k config_error) res" where
  "password_to_keys K method password =
     (if method = NONE_METHOD then Ok (password, [], [])
      else if method = SS_TABLE then Ok (password, password, [])
      else if method_support_eih method then
        (case rev (split_all 0x3A password) of
           [] \<Rightarrow> Panic
         | upsk # ipsks \<Rightarrow>
             bind_res (make_derived_key K method upsk) (\<lambda>enc_key.
             bind_res (decode_identity_keys K method ipsks) (\<lambda>identity_keys.
               Ok (upsk, enc_key, rev identity_keys))))
      else bind_res (make_derived_key K method password) (\<lambda>enc_key. Ok (password, enc_key, [])))"

definition user_with_encoded_key :: "'k crates \<Rightarrow> hash_ops \<Rightarrow> rstring \<Rightarrow> rstring \<Rightarrow> (server_user, decode_error) res" where
  "user_with_encoded_key K H name key = bind_res (std_decode K key) (\<lambda>key. Ok (user_new H name key))"

definition encoded_key :: "'k crates \<Rightarrow> server_user \<Rightarrow> rstring" where
  "encoded_key K user = std_encode K (user_key user)"

section \<open>Server configurations\<close>

record plugin_config =
  pc_plugin :: rstring
  pc_plugin_opts :: "rstring option"
  pc_plugin_args :: "rstring list"
  pc_plugin_mode :: mode

datatype server_source = SourceDefault | SourceConfiguration | SourceCommandLine | SourceOnlineConfig

text \<open>A weight is an \<open>f32\<close> between 0 and 1; its rounding plays no part here.\<close>

record server_weight =
  tcp_weight :: rat
  udp_weight :: rat

definition weight_new :: server_weight where
  "weight_new = \<lparr>tcp_weight = 1, udp_weight = 1\<rparr>"

definition set_tcp_weight :: "rat \<Rightarrow> server_weight \<Rightarrow> (server_weight, unit) res" where
  "set_tcp_weight weight w = (if 0 \<le> weight \<and> weight \<le> 1 then Ok (w\<lparr>tcp_weight := weight\<rparr>) else Panic)"

definition set_udp_weight :: "rat \<Rightarrow> server_weight \<Rightarrow> (server_weight, unit) res" where
  "set_udp_weight weight w = (if 0 \<le> weight \<and> weight \<le> 1 then Ok (w\<lparr>udp_weight := weight\<rparr>) else Panic)"

record 'k server_config =
  cfg_addr :: server_addr
  cfg_password :: rstring
  cfg_method :: "'k cipher_method"
  cfg_enc_key :: "byte list"
  cfg_timeout :: "nat option"
  cfg_identity_keys :: "byte list list"
  cfg_user_manager :: "user_manager option"
  cfg_plugin :: "plugin_config option"
  cfg_plugin_addr :: "server_addr option"
  cfg_remarks :: "rstring option"
  cfg_id :: "rstring option"
  cfg_mode :: mode
  cfg_weight :: server_weight
  cfg_source :: server_source

definition config_new :: "'k crates \<Rightarrow> server_addr \<Rightarrow> rstring \<Rightarrow> 'k cipher_method \<Rightarrow> ('k server_config, 'k config_error) res" where
  "config_new K addr password method =
     bind_res (password_to_keys K method password) (\<lambda>(password, enc_key, identity_keys).
       Ok \<lparr>cfg_addr = addr, cfg_password = password, cfg_method = method, cfg_enc_key = enc_key, cfg_timeout = None,
           cfg_identity_keys = identity_keys, cfg_user_manager = None, cfg_plugin = None, cfg_plugin_addr = None,
           cfg_remarks = None, cfg_id = None, cfg_mode = TcpAndUdp, cfg_weight = weight_new, cfg_source = SourceDefault\<rparr>)"

definition set_method ::
  "'k crates \<Rightarrow> 'k cipher_method \<Rightarrow> rstring \<Rightarrow> 'k server_config \<Rightarrow> (unit, 'k config_error) res \<times> 'k server_config" where
  "set_method K method password c =
     (let c = c\<lparr>cfg_method := method\<rparr> in
      case password_to_keys K method password of
        Ok (password, enc_key, identity_keys) \<Rightarrow>
          (Ok (), c\<lparr>cfg_password := password, cfg_enc_key := enc_key, cfg_identity_keys := identity_keys\<rparr>)
      | Err e \<Rightarrow> (Err e, c)
      | Panic \<Rightarrow> (Panic, c))"

definition export_password :: "'k crates \<Rightarrow> 'k server_config \<Rightarrow> rstring" where
  "export_password K c =
     (if cfg_identity_keys c = [] then cfg_password c
      else join_with 0x3A (map (std_encode K) (cfg_identity_keys c) @ [cfg_password c]))"

definition tcp_external_addr :: "'k server_config \<Rightarrow> server_addr" where
  "tcp_external_addr c =
     (case cfg_plugin c of
        Some plugin \<Rightarrow>
          if enable_tcp (pc_plugin_mode plugin) then (case cfg_plugin_addr c of Some a \<Rightarrow> a | None \<Rightarrow> cfg_addr c) else cfg_addr c
      | None \<Rightarrow> cfg_addr c)"

definition udp_external_addr :: "'k server_config \<Rightarrow> server_addr" where
  "udp_external_addr c =
     (case cfg_plugin c of
        Some plugin \<Rightarrow>
          if enable_udp (pc_plugin_mode plugin) then (case cfg_plugin_addr c of Some a \<Rightarrow> a | None \<Rightarrow> cfg_addr c) else cfg_addr c
      | None \<Rightarrow> cfg_addr c)"

definition is_basic :: "'k server_config \<Rightarrow> bool" where
  "is_basic c \<longleftrightarrow> cfg_remarks c = None \<and> cfg_id c = None"

section \<open>URLs\<close>

record parsed_url =
  pu_scheme :: rstring
  pu_username :: rstring
  pu_password :: "rstring option"
  pu_host_str :: "rstring option"
  pu_port :: "u16 option"
  pu_query :: "rstring option"
  pu_fragment :: "rstring option"

datatype parse_error = ParseError rstring

text \<open>\<open>percent_decode\<close> includes the UTF-8 check, \<open>None\<close> when it fails; so does \<open>query_pairs\<close>.\<close>

record url_crates =
  url_parse :: "rstring \<Rightarrow> (parsed_url, parse_error) res"
  percent_encode :: "rstring \<Rightarrow> rstring"
  percent_decode :: "rstring \<Rightarrow> rstring option"
  query_pairs :: "rstring \<Rightarrow> (rstring \<times> rstring) list option"

datatype 'k url_error = UrlParse parse_error | InvalidScheme | InvalidMethod | InvalidUserInfo | MissingHost
  | InvalidAuthInfo | InvalidServerAddr | InvalidQueryString | UrlConfigError "'k config_error"

definition to_qrcode_url :: "'k crates \<Rightarrow> 'k server_config \<Rightarrow> rstring" where
  "to_qrcode_url K c =
     str ''ss://'' @ url_encode K (method_text K (cfg_method c) @ 0x3A # cfg_password c @ 0x40 # server_addr_display (cfg_addr c))"

definition to_url :: "'k crates \<Rightarrow> url_crates \<Rightarrow> 'k server_config \<Rightarrow> rstring" where
  "to_url K W c =
     (let user_info = (if \<not> is_aead_2022 (kind_of K (cfg_method c))
                       then url_encode K (method_text K (cfg_method c) @ 0x3A # cfg_password c)
                       else method_text K (cfg_method c) @ 0x3A # percent_encode W (export_password K c))
      in str ''ss://'' @ user_info @ 0x40 # server_addr_display (cfg_addr c)
         @ (case cfg_plugin c of
              None \<Rightarrow> []
            | Some p \<Rightarrow> str ''/?plugin='' @ percent_encode W (pc_plugin p @ (case pc_plugin_opts p of Some opt \<Rightarrow> 0x3B # opt | None \<Rightarrow> [])))
         @ (case cfg_remarks c of None \<Rightarrow> [] | Some remark \<Rightarrow> 0x23 # percent_encode W remark))"

definition from_utf8 :: "byte list \<Rightarrow> rstring option" where
  "from_utf8 b = (if valid_utf8 b then Some b else None)"

text \<open>The method and password of the user information.\<close>

definition url_user_info ::
  "'k crates \<Rightarrow> url_crates \<Rightarrow> rstring \<Rightarrow> rstring option \<Rightarrow> (rstring \<times> rstring, 'k url_error) res" where
  "url_user_info K W user_info password =
     (case password of
        Some password \<Rightarrow>
          (case (percent_decode W user_info, percent_decode W password) of
             (Some m, Some p) \<Rightarrow> Ok (m, p)
           | _ \<Rightarrow> Err InvalidAuthInfo)
      | None \<Rightarrow>
          (case percent_decode W user_info of
             None \<Rightarrow> Err InvalidAuthInfo
           | Some decoded \<Rightarrow>
               (case url_decode K decoded of
                  Ok account \<Rightarrow>
                    (case from_utf8 account of
                       None \<Rightarrow> Err InvalidAuthInfo
                     | Some account \<Rightarrow> (case split_once 0x3A account of Some mp \<Rightarrow> Ok mp | None \<Rightarrow> Err InvalidUserInfo))
                | Err e \<Rightarrow> Err InvalidUserInfo
                | Panic \<Rightarrow> Panic)))"

definition url_plugin :: "rstring \<Rightarrow> plugin_config" where
  "url_plugin v =
     (case split_once 0x3B v of
        None \<Rightarrow> \<lparr>pc_plugin = v, pc_plugin_opts = None, pc_plugin_args = [], pc_plugin_mode = TcpOnly\<rparr>
      | Some (p, opts) \<Rightarrow> \<lparr>pc_plugin = p, pc_plugin_opts = Some opts, pc_plugin_args = [], pc_plugin_mode = TcpOnly\<rparr>)"

definition url_plugins :: "(rstring \<times> rstring) list \<Rightarrow> 'k server_config \<Rightarrow> 'k server_config" where
  "url_plugins query c = fold (\<lambda>(key, v) c. if key = str ''plugin'' then c\<lparr>cfg_plugin := Some (url_plugin v)\<rparr> else c) query c"

text \<open>The plugin of the query and the remark of the fragment.\<close>

definition url_extras :: "url_crates \<Rightarrow> parsed_url \<Rightarrow> 'k server_config \<Rightarrow> ('k server_config, 'k url_error) res" where
  "url_extras W u c =
     bind_res (case pu_query u of
                 None \<Rightarrow> Ok c
               | Some q \<Rightarrow> (case query_pairs W q of None \<Rightarrow> Err InvalidQueryString | Some query \<Rightarrow> Ok (url_plugins query c)))
       (\<lambda>c. Ok (case pu_fragment u of
                 None \<Rightarrow> c
               | Some fr \<Rightarrow> c\<lparr>cfg_remarks := Some (case percent_decode W fr of Some m \<Rightarrow> m | None \<Rightarrow> fr)\<rparr>))"

text \<open>A URL that has user information.\<close>

definition url_config :: "'k crates \<Rightarrow> url_crates \<Rightarrow> parsed_url \<Rightarrow> ('k server_config, 'k url_error) res" where
  "url_config K W u =
     bind_res (url_user_info K W (pu_username u) (pu_password u)) (\<lambda>(method, pwd).
       case pu_host_str u of
         None \<Rightarrow> Err MissingHost
       | Some host \<Rightarrow>
           let port = (case pu_port u of Some p \<Rightarrow> p | None \<Rightarrow> 8388) in
           (case server_addr_from_str (host @ 0x3A # show_nat (unat port)) of
              None \<Rightarrow> Err InvalidServerAddr
            | Some addr \<Rightarrow>
                (case method_parse K method of
                   None \<Rightarrow> Err InvalidMethod
                 | Some method \<Rightarrow>
                     bind_res (map_err UrlConfigError (config_new K addr pwd method)) (url_extras W u))))"

text \<open>\<open>None\<close> is a recursion that does not end.\<close>

partial_function (option) from_url ::
  "'k crates \<Rightarrow> url_crates \<Rightarrow> rstring \<Rightarrow> ('k server_config, 'k url_error) res option" where
  "from_url K W encoded =
     (case url_parse W encoded of
        Err e \<Rightarrow> Some (Err (UrlParse e))
      | Panic \<Rightarrow> Some Panic
      | Ok u \<Rightarrow>
          if pu_scheme u \<noteq> str ''ss'' then Some (Err InvalidScheme)
          else if pu_username u = [] then
            (case pu_host_str u of
               None \<Rightarrow> Some (Err MissingHost)
             | Some encoded \<Rightarrow>
                 (case url_decode K encoded of
                    Ok b \<Rightarrow>
                      (case from_utf8 b of
                         None \<Rightarrow> Some (Err InvalidServerAddr)
                       | Some body \<Rightarrow> from_url K W (str ''ss://'' @ body))
                  | Err e \<Rightarrow> Some (Err InvalidServerAddr)
                  | Panic \<Rightarrow> Some Panic))
          else Some (url_config K W u))"

section \<open>The laws of the crates\<close>

definition is_alnum :: "byte \<Rightarrow> bool" where
  "is_alnum b \<longleftrightarrow> 0x30 \<le> b \<and> b \<le> 0x39 \<or> 0x41 \<le> b \<and> b \<le> 0x5A \<or> 0x61 \<le> b \<and> b \<le> 0x7A"

text \<open>The characters of method names and of URL-safe Base64, of percent-encoded text, and of host names.\<close>

definition plain_char :: "byte \<Rightarrow> bool" where
  "plain_char b \<longleftrightarrow> is_alnum b \<or> b = 0x2D \<or> b = 0x5F"

definition escaped_char :: "byte \<Rightarrow> bool" where
  "escaped_char b \<longleftrightarrow> is_alnum b \<or> b = 0x25"

definition host_char :: "byte \<Rightarrow> bool" where
  "host_char b \<longleftrightarrow> plain_char b \<or> b = 0x2E"

definition crate_laws :: "'k crates \<Rightarrow> bool" where
  "crate_laws K \<longleftrightarrow>
     category (kind_of K AEAD2022_BLAKE3_AES_128_GCM) = CatAead2022 \<and> key_len (kind_of K AEAD2022_BLAKE3_AES_128_GCM) = 16
     \<and> category (kind_of K AEAD2022_BLAKE3_AES_256_GCM) = CatAead2022 \<and> key_len (kind_of K AEAD2022_BLAKE3_AES_256_GCM) = 32
     \<and> category (kind_of K NONE_METHOD) = CatNone \<and> key_len (kind_of K NONE_METHOD) = 0
     \<and> category (kind_of K SS_TABLE) = CatStream
     \<and> (\<forall>m. category (kind_of K m) = CatAead2022 \<longrightarrow> 0 < key_len (kind_of K m))
     \<and> (\<forall>m. method_parse K (method_text K m) = Some m \<and> method_text K m \<noteq> [] \<and> list_all plain_char (method_text K m))
     \<and> (\<forall>p n. length (openssl_bytes_to_key K p n) = n)
     \<and> (\<forall>b. std_decode K (std_encode K b) = Ok b \<and> is_ascii (std_encode K b) \<and> 0x3A \<notin> set (std_encode K b))
     \<and> std_decode K [] = Ok [] \<and> (\<forall>s b. std_decode K s = Ok b \<longrightarrow> is_ascii s)
     \<and> (\<forall>b. url_decode K (url_encode K b) = Ok b \<and> list_all plain_char (url_encode K b))
     \<and> url_decode K [] = Ok [] \<and> (\<forall>s b. url_decode K s = Ok b \<longrightarrow> 4 * length b \<le> 3 * length s)"

definition url_text :: "rstring \<Rightarrow> rstring option \<Rightarrow> rstring \<Rightarrow> u16 \<Rightarrow> rstring option \<Rightarrow> rstring option \<Rightarrow> rstring" where
  "url_text user pwd host port query fr =
     str ''ss://'' @ user @ (case pwd of None \<Rightarrow> [] | Some p \<Rightarrow> 0x3A # p) @ 0x40 # host @ 0x3A # show_nat (unat port)
     @ (case query of None \<Rightarrow> [] | Some q \<Rightarrow> str ''/?'' @ q) @ (case fr of None \<Rightarrow> [] | Some f \<Rightarrow> 0x23 # f)"

text \<open>The parts of a URL in which no character needs escaping are found as they stand; the host may be given another text.\<close>

definition url_reads :: "url_crates \<Rightarrow> rstring \<Rightarrow> rstring \<Rightarrow> bool" where
  "url_reads W host host' \<longleftrightarrow>
     (\<forall>user pwd port query fr.
        user \<noteq> [] \<longrightarrow> list_all plain_char user \<longrightarrow> (\<forall>p. pwd = Some p \<longrightarrow> p \<noteq> [] \<and> list_all escaped_char p)
        \<longrightarrow> (\<forall>q. query = Some q \<longrightarrow> list_all (\<lambda>b. escaped_char b \<or> b = 0x3D) q) \<longrightarrow> (\<forall>f. fr = Some f \<longrightarrow> list_all escaped_char f)
        \<longrightarrow> url_parse W (url_text user pwd host port query fr)
            = Ok \<lparr>pu_scheme = str ''ss'', pu_username = user, pu_password = pwd, pu_host_str = Some host', pu_port = Some port,
                  pu_query = query, pu_fragment = fr\<rparr>)"

definition url_laws :: "url_crates \<Rightarrow> bool" where
  "url_laws W \<longleftrightarrow>
     (\<forall>v. valid_utf8 v \<longrightarrow> percent_decode W (percent_encode W v) = Some v \<and> list_all escaped_char (percent_encode W v)
        \<and> query_pairs W (str ''plugin='' @ percent_encode W v) = Some [(str ''plugin'', v)])
     \<and> (\<forall>s. list_all plain_char s \<longrightarrow> percent_decode W s = Some s)
     \<and> (\<forall>host. host \<noteq> [] \<longrightarrow> list_all host_char host \<longrightarrow> url_reads W host host)
     \<and> (\<forall>ip. \<exists>host'. url_reads W (0x5B # show_ipv6 ip @ [0x5D]) host'
          \<and> (\<forall>port. parse_socket_addr (host' @ 0x3A # show_nat (unat port)) = Some (V6 ip port 0 0)))"

text \<open>A host that URL-safe Base64 accepts stands in the URL behind the scheme as it is.\<close>

definition url_host_laws :: "'k crates \<Rightarrow> url_crates \<Rightarrow> bool" where
  "url_host_laws K W \<longleftrightarrow>
     (\<forall>s u host b. url_parse W s = Ok u \<longrightarrow> pu_scheme u = str ''ss'' \<longrightarrow> pu_host_str u = Some host \<longrightarrow> url_decode K host = Ok b
        \<longrightarrow> host \<noteq> [] \<and> 5 + length host \<le> length s)"

section \<open>Keys have the length of the method\<close>

text \<open>The keys of a configuration fit its method. \<open>SS_TABLE\<close> takes a key of any length.\<close>

definition config_wf :: "'k crates \<Rightarrow> 'k server_config \<Rightarrow> bool" where
  "config_wf K c \<longleftrightarrow>
     (cfg_method c \<noteq> SS_TABLE \<longrightarrow> length (cfg_enc_key c) = key_len (kind_of K (cfg_method c)))
     \<and> (\<forall>k \<in> set (cfg_identity_keys c). length k = key_len (kind_of K (cfg_method c)))
     \<and> (cfg_identity_keys c \<noteq> [] \<longrightarrow> method_support_eih (cfg_method c))"

lemma make_derived_key_length:
  assumes "crate_laws K" "make_derived_key K m p = Ok k"
  shows "length k = key_len (kind_of K m)"
  using assms by (auto simp: make_derived_key_def crate_laws_def Let_def split: if_splits res.splits)

lemma decode_identity_keys_length:
  assumes "decode_identity_keys K m ipsks = Ok keys" "k \<in> set keys"
  shows "length k = (if m = AEAD2022_BLAKE3_AES_128_GCM then 16 else 32)"
  using assms by (induction ipsks arbitrary: keys) (auto simp: bind_res_Ok_iff Let_def split: res.splits if_splits)

lemma eih_key_len:
  assumes "crate_laws K" "method_support_eih m"
  shows "key_len (kind_of K m) = (if m = AEAD2022_BLAKE3_AES_128_GCM then 16 else 32)" "is_aead_2022 (kind_of K m)"
  using assms by (auto simp: crate_laws_def method_support_eih_def is_aead_2022_def)

text \<open>The cases of \<open>password_to_keys\<close>.\<close>

lemma password_to_keys_cases:
  assumes "password_to_keys K m password = Ok (p, k, ids)"
  obtains (none) "m = NONE_METHOD" "p = password" "k = []" "ids = []"
  | (table) "m = SS_TABLE" "p = password" "k = password" "ids = []"
  | (eih) ipsks where "m \<noteq> NONE_METHOD" "m \<noteq> SS_TABLE" "method_support_eih m" "rev (split_all 0x3A password) = p # ipsks"
      "make_derived_key K m p = Ok k" "decode_identity_keys K m ipsks = Ok (rev ids)"
  | (plain) "m \<noteq> NONE_METHOD" "m \<noteq> SS_TABLE" "\<not> method_support_eih m" "p = password" "ids = []" "make_derived_key K m p = Ok k"
  using assms by (auto simp: password_to_keys_def bind_res_Ok_iff split: if_splits list.splits)

lemma password_to_keys_wf:
  assumes "crate_laws K" "password_to_keys K m password = Ok (p, k, ids)"
  shows "m \<noteq> SS_TABLE \<longrightarrow> length k = key_len (kind_of K m)" "\<forall>i \<in> set ids. length i = key_len (kind_of K m)"
    "ids \<noteq> [] \<longrightarrow> method_support_eih m"
  using assms(2)
  by (cases rule: password_to_keys_cases;
      use assms(1) make_derived_key_length [OF assms(1)] decode_identity_keys_length eih_key_len [OF assms(1)] in
        \<open>fastforce simp: crate_laws_def\<close>)+

end
