(* ===== verification/Config_Url.thy ===== *)
theory Config_Url
  imports Server_Config
begin

text \<open>
  Server configurations and their URLs: the keys of a configuration fit its method, reading a URL ends, and a configuration is read
  back from the URL it is written to.
\<close>

section \<open>Configurations fit their method\<close>

lemma crate_lawsD:
  assumes "crate_laws K"
  shows "category (kind_of K m) = CatAead2022 \<Longrightarrow> 0 < key_len (kind_of K m)"
    and "method_parse K (method_text K m) = Some m" "method_text K m \<noteq> []" "list_all plain_char (method_text K m)"
    and "std_decode K (std_encode K b) = Ok b" "is_ascii (std_encode K b)" "0x3A \<notin> set (std_encode K b)"
    and "std_decode K [] = Ok []" "std_decode K s = Ok b \<Longrightarrow> is_ascii s"
    and "url_decode K (url_encode K b) = Ok b" "list_all plain_char (url_encode K b)"
    and "url_decode K [] = Ok []" "url_decode K s = Ok b \<Longrightarrow> 4 * length b \<le> 3 * length s"
  using assms unfolding crate_laws_def by blast+

lemma config_new_wf:
  assumes "crate_laws K" "config_new K addr password m = Ok c"
  shows "config_wf K c"
proof -
  obtain p k ids where keys: "password_to_keys K m password = Ok (p, k, ids)"
    "c = \<lparr>cfg_addr = addr, cfg_password = p, cfg_method = m, cfg_enc_key = k, cfg_timeout = None, cfg_identity_keys = ids,
       cfg_user_manager = None, cfg_plugin = None, cfg_plugin_addr = None, cfg_remarks = None, cfg_id = None, cfg_mode = TcpAndUdp,
       cfg_weight = weight_new, cfg_source = SourceDefault\<rparr>"
    using assms(2) by (auto simp: config_new_def bind_res_Ok_iff)
  then show ?thesis using password_to_keys_wf [OF assms(1) keys(1)] by (simp add: config_wf_def)
qed

lemma config_wf_plugin [simp]: "config_wf K (c\<lparr>cfg_plugin := p\<rparr>) = config_wf K c" "config_wf K (c\<lparr>cfg_remarks := r\<rparr>) = config_wf K c"
  by (simp_all add: config_wf_def)

lemma url_plugins_wf: "config_wf K (url_plugins query c) = config_wf K c"
  unfolding url_plugins_def by (induction query arbitrary: c) (simp_all split: prod.split)

lemma url_extras_wf: "url_extras W u c = Ok c' \<Longrightarrow> config_wf K c' = config_wf K c"
  by (auto simp: url_extras_def bind_res_Ok_iff url_plugins_wf split: option.split_asm)

lemma url_config_wf:
  assumes "crate_laws K" "url_config K W u = Ok c"
  shows "config_wf K c"
proof -
  obtain mt pwd where info: "url_user_info K W (pu_username u) (pu_password u) = Ok (mt, pwd)"
    using assms(2) by (auto simp: url_config_def bind_res_Ok_iff)
  obtain addr m where "bind_res (map_err UrlConfigError (config_new K addr pwd m)) (url_extras W u) = Ok c"
    using assms(2) by (auto simp: url_config_def info Let_def split: option.split_asm)
  then obtain c1 where c1: "config_new K addr pwd m = Ok c1" "url_extras W u c1 = Ok c"
    by (auto simp: bind_res_Ok_iff)
  from url_extras_wf [OF c1(2)] config_new_wf [OF assms(1) c1(1)] show ?thesis by simp
qed

lemma from_url_wf:
  assumes "from_url K W s = Some r"
  shows "crate_laws K \<longrightarrow> (\<forall>c. r = Ok c \<longrightarrow> config_wf K c)"
proof (rule from_url.raw_induct [where P = "\<lambda>K W s r. crate_laws K \<longrightarrow> (\<forall>c. r = Ok c \<longrightarrow> config_wf K c)", OF _ assms], intro impI allI)
  fix f :: "'a crates \<Rightarrow> url_crates \<Rightarrow> rstring \<Rightarrow> ('a server_config, 'a url_error) res option" and K W s r c
  assume IH: "\<And>K W s r. f K W s = Some r \<Longrightarrow> crate_laws K \<longrightarrow> (\<forall>c. r = Ok c \<longrightarrow> config_wf K c)"
    and body: "(case url_parse W s of
        Ok u \<Rightarrow>
          if pu_scheme u \<noteq> str ''ss'' then Some (Err InvalidScheme)
          else if pu_username u = [] then
            (case pu_host_str u of
               None \<Rightarrow> Some (Err MissingHost)
             | Some encoded \<Rightarrow>
                 (case url_decode K encoded of
                    Ok b \<Rightarrow> (case from_utf8 b of None \<Rightarrow> Some (Err InvalidServerAddr) | Some body \<Rightarrow> f K W (str ''ss://'' @ body))
                  | Err e \<Rightarrow> Some (Err InvalidServerAddr) | Panic \<Rightarrow> Some Panic))
          else Some (url_config K W u)
      | Err e \<Rightarrow> Some (Err (UrlParse e)) | Panic \<Rightarrow> Some Panic) = Some r"
    and laws: "crate_laws K" and r: "r = Ok c"
  consider (plain) u where "url_config K W u = Ok c" | (again) s' where "f K W s' = Some (Ok c)"
    using body r by (auto split: res.split_asm if_split_asm option.split_asm)
  then show "config_wf K c" by cases (use IH laws url_config_wf in blast)+
qed

lemma set_method_cases:
  assumes "set_method K m password c = (r, c')"
  obtains (changed) p k ids where "r = Ok ()" "password_to_keys K m password = Ok (p, k, ids)"
      "c' = c\<lparr>cfg_method := m, cfg_password := p, cfg_enc_key := k, cfg_identity_keys := ids\<rparr>"
  | (failed) "r \<noteq> Ok ()" "c' = c\<lparr>cfg_method := m\<rparr>"
  using assms by (auto simp: set_method_def Let_def split: res.splits prod.splits)

text \<open>
  C18: The keys of a server configuration have the type of its method. Whatever a configuration is made from, a password, a URL or
  a successful change of method, its key is as long as the key of its method, each identity key too, and there are identity
  keys only for the methods that have identity headers. So every socket and stream built from it gets keys of the right length.
\<close>

theorem config_keys_fit:
  assumes "crate_laws K"
  shows "(config_new K addr password m = Ok c \<longrightarrow> config_wf K c)
     \<and> (from_url K W url = Some (Ok c) \<longrightarrow> config_wf K c)
     \<and> (set_method K m password c0 = (Ok (), c) \<longrightarrow> config_wf K c)"
proof (intro conjI impI)
  assume "set_method K m password c0 = (Ok (), c)"
  then show "config_wf K c"
    by (cases rule: set_method_cases) (auto simp: config_wf_def dest: password_to_keys_wf [OF assms])
qed (use config_new_wf [OF assms] from_url_wf assms in blast)+

text \<open>
  A failed change of method leaves a configuration that does not fit. When \<open>set_method\<close> refuses the new password, the
  method is already replaced and the old keys stay: if the two methods have keys of different lengths, the configuration
  has a key its method cannot use.
\<close>

theorem set_method_error_unfit:
  assumes "config_wf K c" "set_method K m password c = (Err e, c')"
    and "key_len (kind_of K m) \<noteq> key_len (kind_of K (cfg_method c))" "m \<noteq> SS_TABLE" "cfg_method c \<noteq> SS_TABLE"
  shows "\<not> config_wf K c'"
  using assms(2) by (cases rule: set_method_cases) (use assms in \<open>auto simp: config_wf_def\<close>)

section \<open>Reading a URL ends\<close>

lemma from_url_step:
  assumes "url_parse W s = Ok u" "pu_scheme u = str ''ss''" "pu_username u = []" "pu_host_str u = Some host" "url_decode K host = Ok b"
  shows "from_url K W s = (if valid_utf8 b then from_url K W (str ''ss://'' @ b) else Some (Err InvalidServerAddr))"
  by (subst from_url.simps) (simp add: assms from_utf8_def)

text \<open>
  C35: Reading a URL ends. \<open>from_url\<close> calls itself on what it decodes from a URL without user information, the form of QR codes, and that may
  again be such a URL. Each text it decodes is shorter, so for every text, well-formed or not, it returns.
\<close>

theorem from_url_ends:
  assumes "crate_laws K" "url_host_laws K W"
  shows "\<exists>r. from_url K W s = Some r"
proof (induction s rule: length_induct)
  case (1 s)
  show ?case
  proof (cases "\<exists>u host b. url_parse W s = Ok u \<and> pu_scheme u = str ''ss'' \<and> pu_username u = [] \<and> pu_host_str u = Some host
      \<and> url_decode K host = Ok b")
    case True
    then obtain u host b where u: "url_parse W s = Ok u" "pu_scheme u = str ''ss''" "pu_username u = []" "pu_host_str u = Some host"
      "url_decode K host = Ok b" by blast
    have "host \<noteq> []" "5 + length host \<le> length s" using assms(2) u unfolding url_host_laws_def by blast+
    moreover have "4 * length b \<le> 3 * length host" by (rule crate_lawsD(13) [OF assms(1) u(5)])
    ultimately have "length (str ''ss://'' @ b) < length s" by (cases host) auto
    then show ?thesis using 1 from_url_step [OF u] by auto
  next
    case False
    then show ?thesis by (subst from_url.simps) (auto split: res.splits option.splits)
  qed
qed

section \<open>Round trips\<close>

lemma valid_utf8_ascii_append: "is_ascii s \<Longrightarrow> valid_utf8 (s @ t) = valid_utf8 t"
  by (induction s) (auto simp: is_ascii_def)

lemma plain_char_facts: "plain_char b \<Longrightarrow> b < 0x80 \<and> b \<noteq> 0x3A"
  by (auto simp: plain_char_def is_alnum_def word_le_nat_alt word_less_nat_alt)

lemma plain_chars:
  assumes "list_all plain_char s"
  shows "is_ascii s" "0x3A \<notin> set s"
  using assms plain_char_facts unfolding is_ascii_def list_all_iff by blast+

lemma split_all_piece: "d \<notin> set p \<Longrightarrow> split_all d p = [p]"
  by (induction p) auto

lemma split_all_append: "d \<notin> set p \<Longrightarrow> split_all d (p @ d # s) = p # split_all d s"
  by (induction p) auto

lemma split_join: "\<forall>p \<in> set ps. d \<notin> set p \<Longrightarrow> ps \<noteq> [] \<Longrightarrow> split_all d (join_with d ps) = ps"
  by (induction d ps rule: join_with.induct) (auto simp: split_all_piece split_all_append)

lemma is_ascii_join: "\<forall>p \<in> set ps. is_ascii p \<Longrightarrow> is_ascii (join_with 0x3A ps)"
  by (induction "0x3A :: byte" ps rule: join_with.induct) (auto simp: is_ascii_def)

lemma decode_encoded_keys:
  assumes "crate_laws K" "\<forall>k \<in> set ids. length k = (if m = AEAD2022_BLAKE3_AES_128_GCM then 16 else 32)"
  shows "decode_identity_keys K m (map (std_encode K) ids) = Ok ids"
  using assms(2)
proof (induction ids)
  case (Cons i ids)
  moreover have "std_decode K (std_encode K i) = Ok i" by (rule crate_lawsD(5) [OF assms(1)])
  ultimately show ?case by simp
qed simp

text \<open>The exported password gives the same keys again.\<close>

definition exported :: "'k crates \<Rightarrow> rstring \<Rightarrow> byte list list \<Rightarrow> rstring" where
  "exported K p ids = (if ids = [] then p else join_with 0x3A (map (std_encode K) ids @ [p]))"

lemma exported_keys:
  assumes "crate_laws K" "password_to_keys K m password = Ok (p, k, ids)"
  shows "password_to_keys K m (exported K p ids) = Ok (p, k, ids)"
  using assms(2)
proof (cases rule: password_to_keys_cases)
  case (eih ipsks)
  have "p \<in> set (split_all 0x3A password)" using eih(4) by (metis list.set_intros(1) set_rev)
  then have p: "0x3A \<notin> set p" by (rule split_all_pieces)
  have enc: "0x3A \<notin> set (std_encode K i)" for i by (rule crate_lawsD(7) [OF assms(1)])
  have "exported K p ids = join_with 0x3A (map (std_encode K) ids @ [p])" by (simp add: exported_def)
  then have split: "rev (split_all 0x3A (exported K p ids)) = p # map (std_encode K) (rev ids)"
    using split_join [of "map (std_encode K) ids @ [p]" "0x3A"] p enc by (simp add: rev_map)
  have "decode_identity_keys K m (map (std_encode K) (rev ids)) = Ok (rev ids)"
    using decode_identity_keys_length [OF eih(6)] by (intro decode_encoded_keys [OF assms(1)]) auto
  then show ?thesis using eih split by (simp add: password_to_keys_def)
qed (use assms(2) in \<open>simp_all add: exported_def\<close>)

lemma exported_text:
  assumes "crate_laws K" "password_to_keys K m password = Ok (p, k, ids)" "is_aead_2022 (kind_of K m)"
  shows "valid_utf8 (exported K p ids)" "exported K p ids \<noteq> []"
proof -
  have key: "make_derived_key K m p = Ok k"
    using assms(2) by (cases rule: password_to_keys_cases) (use assms(1,3) in \<open>auto simp: crate_laws_def is_aead_2022_def\<close>)
  then have d: "std_decode K p = Ok k" "length k = key_len (kind_of K m)"
    using assms(3) by (auto simp: make_derived_key_def Let_def split: res.splits if_splits)
  have "p \<noteq> []"
  proof
    assume "p = []"
    then have "k = []" using d(1) crate_lawsD(8) [OF assms(1)] by simp
    then show False using d(2) crate_lawsD(1) [OF assms(1), of m] assms(3) by (simp add: is_aead_2022_def)
  qed
  moreover have ascii: "is_ascii p" "is_ascii (std_encode K i)" for i using crate_lawsD(6,9) [OF assms(1)] d(1) by auto
  ultimately show "valid_utf8 (exported K p ids)"
    by (intro valid_utf8_ascii) (auto simp: exported_def intro!: is_ascii_join)
  have "0 < length (join_with 0x3A (ps @ [p]))" for ps using \<open>p \<noteq> []\<close> by (cases ps) (simp_all add: join_with_Cons)
  then show "exported K p ids \<noteq> []" using \<open>p \<noteq> []\<close> by (auto simp: exported_def)
qed

text \<open>The addresses a URL can hold: no flow information or scope, and names that are not the text of an IPv4 address.\<close>

fun url_addr :: "server_addr \<Rightarrow> bool" where
  "url_addr (ServerSocketAddr (V4 ip port)) = True"
| "url_addr (ServerSocketAddr (V6 ip port flow scope)) = (flow = 0 \<and> scope = 0)"
| "url_addr (ServerDomainName dn port) =
     (dn \<noteq> [] \<and> list_all host_char dn \<and> parse_socket_addr (dn @ 0x3A # show_nat (unat port)) = None)"

definition plugin_text :: "plugin_config \<Rightarrow> rstring" where
  "plugin_text p = pc_plugin p @ (case pc_plugin_opts p of Some opt \<Rightarrow> 0x3B # opt | None \<Rightarrow> [])"

text \<open>What SIP002 can say of a plugin: no arguments, TCP only, and a name without a semicolon.\<close>

definition url_plugin_ok :: "plugin_config \<Rightarrow> bool" where
  "url_plugin_ok p \<longleftrightarrow> 0x3B \<notin> set (pc_plugin p) \<and> valid_utf8 (plugin_text p) \<and> pc_plugin_args p = [] \<and> pc_plugin_mode p = TcpOnly"

lemma url_plugin_read: "url_plugin_ok p \<Longrightarrow> url_plugin (plugin_text p) = p"
  by (cases "pc_plugin_opts p")
    (auto simp: url_plugin_ok_def url_plugin_def plugin_text_def split_once_hit split_once_miss)

lemma host_text_chars:
  assumes "list_all is_digit s"
  shows "list_all host_char s"
  using assms by (auto simp: list_all_iff is_digit_def host_char_def plain_char_def is_alnum_def)

lemma show_ipv4_host: "list_all host_char (show_ipv4 ip)" "show_ipv4 ip \<noteq> []"
proof -
  have "list_all host_char (join_with 0x2E (map (\<lambda>b. show_nat (unat b)) bs))" for bs :: "byte list"
    by (induction bs rule: induct_list012) (auto simp: host_text_chars show_nat_digits, simp_all add: host_char_def)
  then show "list_all host_char (show_ipv4 ip)" by (simp add: show_ipv4_def)
  obtain b bs where "be_of 4 ip = b # bs" using length_be_of [of 4 ip] by (cases "be_of 4 ip") auto
  then show "show_ipv4 ip \<noteq> []" by (simp add: show_ipv4_def join_with_Cons)
qed

text \<open>The host and port of an address, and how they are read.\<close>

lemma url_addr_read:
  assumes "url_laws W" "url_addr addr"
  shows "\<exists>host (port :: u16) host'. server_addr_display addr = host @ 0x3A # show_nat (unat port) \<and> url_reads W host host'
     \<and> server_addr_from_str (host' @ 0x3A # show_nat (unat port)) = Some addr"
proof (cases addr rule: url_addr.cases)
  case (1 ip port)
  have "url_reads W (show_ipv4 ip) (show_ipv4 ip)" using assms(1) show_ipv4_host unfolding url_laws_def by blast
  moreover have "parse_socket_addr (show_ipv4 ip @ 0x3A # show_nat (unat port)) = Some (V4 ip port)"
    using parse_show_socket_addr [of "V4 ip port"] by simp
  ultimately show ?thesis using 1
    by (intro exI [of _ "show_ipv4 ip"] exI [of _ port] exI [of _ "show_ipv4 ip"]) (simp add: server_addr_from_str_def)
next
  case (2 ip port flow scope)
  obtain host' where "url_reads W (0x5B # show_ipv6 ip @ [0x5D]) host'"
    "\<forall>port. parse_socket_addr (host' @ 0x3A # show_nat (unat port)) = Some (V6 ip port 0 0)"
    using assms(1) unfolding url_laws_def by blast
  then show ?thesis using 2 assms(2)
    by (intro exI [of _ "0x5B # show_ipv6 ip @ [0x5D]"] exI [of _ port] exI [of _ host']) (simp add: server_addr_from_str_def str_def)
next
  case (3 dn port)
  then have dn: "dn \<noteq> []" "list_all host_char dn" "parse_socket_addr (dn @ 0x3A # show_nat (unat port)) = None" using assms(2) by auto
  then have "url_reads W dn dn" using assms(1) unfolding url_laws_def by blast
  moreover have "0x3A \<notin> set dn" using dn(2) by (auto simp: list_all_iff host_char_def plain_char_def is_alnum_def)
  moreover have "0x3A \<notin> set (show_nat (unat port))" using show_nat_digits [of "unat port"] by (auto simp: list_all_iff is_digit_def)
  ultimately show ?thesis using 3 dn
    by (intro exI [of _ dn] exI [of _ port] exI [of _ dn]) (simp add: server_addr_from_str_def split_all_append split_all_piece)
qed

lemma query_chars:
  assumes "list_all escaped_char s"
  shows "list_all (\<lambda>b. escaped_char b \<or> b = 0x3D) (str ''plugin='' @ s)"
proof -
  have "list_all (\<lambda>b. escaped_char b \<or> b = 0x3D) (str ''plugin='')" by (simp add: str_def escaped_char_def is_alnum_def)
  then show ?thesis using assms by (auto simp: list_all_iff)
qed

text \<open>The method and the password of a URL.\<close>

lemma user_info_read:
  assumes laws: "crate_laws K" "url_laws W" and keys: "password_to_keys K m password = Ok (p, k, ids)" and utf8: "valid_utf8 password"
  obtains user pwd pw where
    "(if \<not> is_aead_2022 (kind_of K m) then url_encode K (method_text K m @ 0x3A # p)
      else method_text K m @ 0x3A # percent_encode W (exported K p ids)) = user @ (case pwd of None \<Rightarrow> [] | Some q \<Rightarrow> 0x3A # q)"
    "user \<noteq> []" "list_all plain_char user" "\<forall>q. pwd = Some q \<longrightarrow> q \<noteq> [] \<and> list_all escaped_char q"
    "url_user_info K W user pwd = Ok (method_text K m, pw)" "password_to_keys K m pw = Ok (p, k, ids)"
proof (cases "is_aead_2022 (kind_of K m)")
  case True
  note ok = exported_text [OF laws(1) keys True]
  have enc: "percent_decode W (percent_encode W (exported K p ids)) = Some (exported K p ids)"
    "list_all escaped_char (percent_encode W (exported K p ids))"
    using laws(2) ok(1) unfolding url_laws_def by blast+
  have plain: "percent_decode W s = Some s" if "list_all plain_char s" for s using laws(2) that unfolding url_laws_def by blast
  have "percent_encode W (exported K p ids) \<noteq> []"
  proof
    assume "percent_encode W (exported K p ids) = []"
    then show False using enc(1) plain [of "[]"] ok(2) by simp
  qed
  then show ?thesis
    using that [of "method_text K m" "Some (percent_encode W (exported K p ids))" "exported K p ids"] True enc plain
      crate_lawsD(3,4) [OF laws(1), of m] exported_keys [OF laws(1) keys] by (simp add: url_user_info_def)
next
  case False
  have plain: "p = password" "ids = []"
    using keys by (cases rule: password_to_keys_cases; use eih_key_len(2) [OF laws(1)] False in auto)+
  let ?account = "method_text K m @ 0x3A # p"
  have "url_encode K ?account \<noteq> []"
    using crate_lawsD(10) [OF laws(1), of ?account] crate_lawsD(12) [OF laws(1)] by auto
  moreover have "percent_decode W (url_encode K ?account) = Some (url_encode K ?account)"
    using laws(2) crate_lawsD(11) [OF laws(1)] unfolding url_laws_def by blast
  moreover have "valid_utf8 ?account"
    using plain_chars(1) [OF crate_lawsD(4) [OF laws(1), of m]] utf8 plain by (simp add: valid_utf8_ascii_append)
  moreover have "split_once 0x3A ?account = Some (method_text K m, p)"
    using plain_chars(2) [OF crate_lawsD(4) [OF laws(1), of m]] by (simp add: split_once_hit)
  ultimately show ?thesis
    using that [of "url_encode K ?account" None p] False crate_lawsD(10,11) [OF laws(1), of ?account] keys plain
    by (simp add: url_user_info_def from_utf8_def)
qed

text \<open>
  C11: A configuration is read back from its URL. Take a configuration made from a password of any method, with identity
  keys or without, whose address is an IPv4 or IPv6 socket address or a host name, with a plugin that SIP002 can express or none,
  and a remark or none. Then \<open>from_url\<close> of its \<open>to_url\<close> ends and gives the same configuration: address, method, password, key,
  identity keys, plugin and remark.
\<close>

theorem config_url_roundtrip:
  assumes "crate_laws K" "url_laws W" "config_new K addr password m = Ok c0" "valid_utf8 password" "url_addr addr"
    and "\<forall>p. plugin = Some p \<longrightarrow> url_plugin_ok p" "\<forall>r. remarks = Some r \<longrightarrow> valid_utf8 r"
    and "c = c0\<lparr>cfg_plugin := plugin, cfg_remarks := remarks\<rparr>"
  shows "from_url K W (to_url K W c) = Some (Ok c)"
proof -
  obtain p k ids where keys: "password_to_keys K m password = Ok (p, k, ids)" and c0: "cfg_addr c0 = addr" "cfg_method c0 = m"
      "cfg_password c0 = p" "cfg_identity_keys c0 = ids" "cfg_plugin c0 = None" "cfg_remarks c0 = None"
    and again: "\<And>pw. password_to_keys K m pw = Ok (p, k, ids) \<Longrightarrow> config_new K addr pw m = Ok c0"
    using assms(3) by (auto simp: config_new_def bind_res_Ok_iff)
  obtain user pwd pw where user: "(if \<not> is_aead_2022 (kind_of K m) then url_encode K (method_text K m @ 0x3A # p)
      else method_text K m @ 0x3A # percent_encode W (exported K p ids)) = user @ (case pwd of None \<Rightarrow> [] | Some q \<Rightarrow> 0x3A # q)"
    "user \<noteq> []" "list_all plain_char user" "\<forall>q. pwd = Some q \<longrightarrow> q \<noteq> [] \<and> list_all escaped_char q"
    "url_user_info K W user pwd = Ok (method_text K m, pw)" "password_to_keys K m pw = Ok (p, k, ids)"
    by (rule user_info_read [OF assms(1,2) keys assms(4)])
  obtain host host' and port :: u16 where host: "server_addr_display addr = host @ 0x3A # show_nat (unat port)" "url_reads W host host'"
    "server_addr_from_str (host' @ 0x3A # show_nat (unat port)) = Some addr" using url_addr_read [OF assms(2,5)] by blast
  define query where "query = map_option (\<lambda>p. str ''plugin='' @ percent_encode W (plugin_text p)) plugin"
  define fr where "fr = map_option (percent_encode W) remarks"
  have esc: "percent_decode W (percent_encode W v) = Some v" "list_all escaped_char (percent_encode W v)"
    "query_pairs W (str ''plugin='' @ percent_encode W v) = Some [(str ''plugin'', v)]" if "valid_utf8 v" for v
    using assms(2) that unfolding url_laws_def by blast+
  have printed: "to_url K W c = url_text user pwd host port query fr"
    using user(1) host(1) c0 assms(8)
    by (auto simp: to_url_def url_text_def query_def fr_def plugin_text_def export_password_def exported_def str_def Let_def split: option.splits)
  define u where "u = \<lparr>pu_scheme = str ''ss'', pu_username = user, pu_password = pwd, pu_host_str = Some host', pu_port = Some port,
    pu_query = query, pu_fragment = fr\<rparr>"
  have "list_all (\<lambda>b. escaped_char b \<or> b = 0x3D) q" if "query = Some q" for q
    using that assms(6) esc(2) by (auto simp: query_def url_plugin_ok_def intro!: query_chars)
  moreover have "list_all escaped_char f" if "fr = Some f" for f using that assms(7) esc(2) by (auto simp: fr_def)
  ultimately have parsed: "url_parse W (to_url K W c) = Ok u"
    using host(2) user(2-4) unfolding printed url_reads_def u_def by simp
  have "url_extras W u c0 = Ok c"
    using assms(6-8) esc c0(5,6)
    by (cases plugin; cases remarks)
      (auto simp: u_def url_extras_def query_def fr_def url_plugins_def url_plugin_read url_plugin_ok_def)
  then have "url_config K W u = Ok c"
    using user(5) host(3) crate_lawsD(2) [OF assms(1)] again [OF user(6)] by (simp add: url_config_def u_def)
  then show ?thesis using parsed user(2) by (subst from_url.simps) (simp add: u_def)
qed

end
