(* ===== verification/Config_Witness.thy ===== *)
theory Config_Witness
  imports Config_Url
begin

text \<open>
  Concrete functions in place of the crates that \<open>Server_Config\<close> is parametric in, for which their laws are proved, and the
  properties of configurations at concrete inputs. Bytes are written as two letters instead of Base64.
\<close>

section \<open>Ciphers and encodings\<close>

definition letter :: "nat \<Rightarrow> byte" where
  "letter n = 0x61 + word_of_nat n"

definition letter_val :: "byte \<Rightarrow> nat option" where
  "letter_val b = (if 0x61 \<le> b \<and> b \<le> 0x70 then Some (unat b - 0x61) else None)"

fun demo_encode :: "byte list \<Rightarrow> rstring" where
  "demo_encode [] = []"
| "demo_encode (b # bs) = letter (unat b div 16) # letter (unat b mod 16) # demo_encode bs"

fun demo_decode :: "rstring \<Rightarrow> (byte list, decode_error) res" where
  "demo_decode [] = Ok []"
| "demo_decode [c] = Err (DecodeError [c])"
| "demo_decode (c # d # s) =
     (case (letter_val c, letter_val d) of
        (Some x, Some y) \<Rightarrow> bind_res (demo_decode s) (\<lambda>bs. Ok (word_of_nat (x * 16 + y) # bs))
      | _ \<Rightarrow> Err (DecodeError [c, d]))"

definition some_kind :: cipher_kind where
  "some_kind = \<lparr>category = CatAead2022, key_len = 16, salt_len = 16, tag_len = 16, iv_len = 0, nonce_len = 12, support_eih = True\<rparr>"

definition demo_kind_of :: "unit cipher_method \<Rightarrow> cipher_kind" where
  "demo_kind_of m =
     (case m of
        NONE_METHOD \<Rightarrow> some_kind\<lparr>category := CatNone, key_len := 0\<rparr>
      | SS_TABLE \<Rightarrow> some_kind\<lparr>category := CatStream, key_len := 0\<rparr>
      | AEAD2022_BLAKE3_AES_128_GCM \<Rightarrow> some_kind\<lparr>key_len := 16\<rparr>
      | AEAD2022_BLAKE3_AES_256_GCM \<Rightarrow> some_kind\<lparr>key_len := 32\<rparr>
      | OtherMethod u \<Rightarrow> some_kind\<lparr>category := CatAead, key_len := 4\<rparr>)"

definition demo_method_text :: "unit cipher_method \<Rightarrow> rstring" where
  "demo_method_text m =
     (case m of
        NONE_METHOD \<Rightarrow> str ''none'' | SS_TABLE \<Rightarrow> str ''table'' | AEAD2022_BLAKE3_AES_128_GCM \<Rightarrow> str ''aes-128''
      | AEAD2022_BLAKE3_AES_256_GCM \<Rightarrow> str ''aes-256'' | OtherMethod u \<Rightarrow> str ''other'')"

definition demo_method_parse :: "rstring \<Rightarrow> unit cipher_method option" where
  "demo_method_parse s =
     find (\<lambda>m. demo_method_text m = s)
       [NONE_METHOD, SS_TABLE, AEAD2022_BLAKE3_AES_128_GCM, AEAD2022_BLAKE3_AES_256_GCM, OtherMethod ()]"

definition demo_crates :: "unit crates" where
  "demo_crates = \<lparr>kind_of = demo_kind_of, method_text = demo_method_text, method_parse = demo_method_parse,
     openssl_bytes_to_key = (\<lambda>p n. take n (p @ replicate n 0)), std_encode = demo_encode, std_decode = demo_decode,
     url_encode = demo_encode, url_decode = demo_decode\<rparr>"

lemma unat_letter: "n < 16 \<Longrightarrow> unat (letter n) = 0x61 + n"
  by (simp add: letter_def unat_word_ariths unat_of_nat)

lemma letter_facts [simp]:
  assumes "n < 16"
  shows "letter_val (letter n) = Some n" "is_alnum (letter n)" "letter n < 0x80" "letter n \<noteq> 0x3A"
  using unat_letter [OF assms] assms
  by (auto simp: letter_val_def is_alnum_def word_le_nat_alt word_less_nat_alt word_unat_eq_iff)

lemma byte_of_nibbles: "word_of_nat (unat b div 16 * 16 + unat b mod 16) = (b :: byte)"
  by simp

lemma demo_decode_encode: "demo_decode (demo_encode bs) = Ok bs"
proof (induction bs)
  case (Cons b bs)
  have "unat b div 16 < 16" "unat b mod 16 < 16" using unat_byte_lt [of b] by (simp_all add: less_mult_imp_div_less)
  then show ?case using Cons byte_of_nibbles [of b] by simp
qed simp

lemma demo_encode_chars: "c \<in> set (demo_encode bs) \<Longrightarrow> plain_char c \<and> c < 0x80 \<and> c \<noteq> 0x3A"
proof (induction bs)
  case (Cons b bs)
  have "unat b div 16 < 16" "unat b mod 16 < 16" using unat_byte_lt [of b] by (simp_all add: less_mult_imp_div_less)
  then show ?case using Cons by (auto simp: plain_char_def)
qed simp

lemma demo_decode_text: "demo_decode s = Ok bs \<Longrightarrow> is_ascii s \<and> 4 * length bs \<le> 3 * length s"
proof (induction s arbitrary: bs rule: demo_decode.induct)
  case (3 c d s)
  have "c < 0x80" if "letter_val c = Some x" for c x
    using that by (auto simp: letter_val_def word_le_nat_alt word_less_nat_alt split: if_splits)
  then show ?case using 3 by (fastforce simp: is_ascii_def bind_res_Ok_iff split: option.split_asm)
qed (simp_all add: is_ascii_def)

lemma demo_method_text_facts:
  "demo_method_parse (demo_method_text m) = Some m" "demo_method_text m \<noteq> []" "list_all plain_char (demo_method_text m)"
  by (cases m; simp add: demo_method_parse_def demo_method_text_def str_def plain_char_def is_alnum_def)+

lemma demo_crate_laws: "crate_laws demo_crates"
  unfolding crate_laws_def demo_crates_def
  using demo_decode_encode demo_encode_chars demo_decode_text demo_method_text_facts
  by (auto simp: demo_kind_of_def some_kind_def list_all_iff is_ascii_def split: cipher_method.splits)

section \<open>URLs\<close>

fun demo_escape :: "rstring \<Rightarrow> rstring" where
  "demo_escape [] = []"
| "demo_escape (b # bs) = 0x25 # letter (unat b div 16) # letter (unat b mod 16) # demo_escape bs"

fun demo_unescape :: "rstring \<Rightarrow> rstring" where
  "demo_unescape (c # x # y # s) =
     (if c = 0x25 then (case (letter_val x, letter_val y) of
                          (Some m, Some n) \<Rightarrow> word_of_nat (m * 16 + n) # demo_unescape s
                        | _ \<Rightarrow> c # demo_unescape (x # y # s))
      else c # demo_unescape (x # y # s))"
| "demo_unescape s = s"

definition demo_url_parse :: "rstring \<Rightarrow> (parsed_url, parse_error) res" where
  "demo_url_parse s =
     (case strip_prefix (str ''ss://'') s of
        None \<Rightarrow> Err (ParseError s)
      | Some s \<Rightarrow>
          let (info, s) = (case split_once 0x40 s of Some is \<Rightarrow> is | None \<Rightarrow> ([], s));
              (user, pwd) = (case split_once 0x3A info of Some (u, p) \<Rightarrow> (u, Some p) | None \<Rightarrow> (info, None));
              (s, fr) = (case split_once 0x23 s of Some (s, f) \<Rightarrow> (s, Some f) | None \<Rightarrow> (s, None));
              (s, query) = (case split_once 0x2F s of Some (s, q) \<Rightarrow> (s, Some (drop 1 q)) | None \<Rightarrow> (s, None));
              (host, port) = (case rsplit_once 0x3A s of Some (h, p) \<Rightarrow> (h, parse_u16 p) | None \<Rightarrow> (s, None))
          in Ok \<lparr>pu_scheme = str ''ss'', pu_username = user, pu_password = pwd,
                 pu_host_str = (if host = [] then None else Some host), pu_port = port, pu_query = query, pu_fragment = fr\<rparr>)"

definition demo_url :: url_crates where
  "demo_url = \<lparr>url_parse = demo_url_parse, percent_encode = demo_escape, percent_decode = (\<lambda>s. Some (demo_unescape s)),
     query_pairs = (\<lambda>q. case strip_prefix (str ''plugin='') q of
       Some v \<Rightarrow> Some [(str ''plugin'', demo_unescape v)] | None \<Rightarrow> Some [])\<rparr>"

lemma demo_unescape_escape: "demo_unescape (demo_escape v) = v"
proof (induction v)
  case (Cons b v)
  have "unat b div 16 < 16" "unat b mod 16 < 16" using unat_byte_lt [of b] by (simp_all add: less_mult_imp_div_less)
  then show ?case using Cons byte_of_nibbles [of b] by simp
qed simp

lemma demo_escape_chars: "list_all escaped_char (demo_escape v)"
proof (induction v)
  case (Cons b v)
  have "unat b div 16 < 16" "unat b mod 16 < 16" using unat_byte_lt [of b] by (simp_all add: less_mult_imp_div_less)
  then show ?case using Cons by (simp add: escaped_char_def)
qed simp

lemma demo_unescape_plain: "0x25 \<notin> set s \<Longrightarrow> demo_unescape s = s"
  by (induction s rule: demo_unescape.induct) auto

definition no_marks :: "rstring \<Rightarrow> bool" where
  "no_marks s \<longleftrightarrow> 0x40 \<notin> set s \<and> 0x23 \<notin> set s \<and> 0x2F \<notin> set s"

lemma char_marks:
  "list_all plain_char s \<Longrightarrow> no_marks s \<and> 0x3A \<notin> set s \<and> 0x25 \<notin> set s"
  "list_all escaped_char s \<Longrightarrow> no_marks s \<and> 0x3A \<notin> set s"
  "list_all host_char s \<Longrightarrow> no_marks s"
  by (auto simp: list_all_iff no_marks_def plain_char_def escaped_char_def host_char_def is_alnum_def)

lemma demo_url_reads:
  assumes "no_marks host" "host \<noteq> []"
  shows "url_reads demo_url host host"
  unfolding url_reads_def
proof (intro allI impI)
  fix user pwd and port :: u16 and query fr
  assume user: "user \<noteq> []" "list_all plain_char user" and pwd: "\<forall>p. pwd = Some p \<longrightarrow> p \<noteq> [] \<and> list_all escaped_char p"
    and query: "\<forall>q. query = Some q \<longrightarrow> list_all (\<lambda>b. escaped_char b \<or> b = 0x3D) q"
    and fr: "\<forall>f. fr = Some f \<longrightarrow> list_all escaped_char f"
  let ?port = "show_nat (unat port)"
  let ?info = "user @ (case pwd of None \<Rightarrow> [] | Some p \<Rightarrow> 0x3A # p)"
  let ?query = "case query of None \<Rightarrow> [] | Some q \<Rightarrow> str ''/?'' @ q"
  let ?fr = "case fr of None \<Rightarrow> [] | Some f \<Rightarrow> 0x23 # f"
  have port: "0x3A \<notin> set ?port" "no_marks ?port"
    using show_nat_digits [of "unat port"] by (auto simp: list_all_iff is_digit_def no_marks_def)
  have "0x40 \<notin> set ?info" using char_marks(1) [OF user(2)] char_marks(2) pwd by (auto simp: no_marks_def split: option.split)
  then have info: "split_once 0x40 (?info @ 0x40 # s) = Some (?info, s)" for s by (rule split_once_hit)
  have creds: "(case split_once 0x3A ?info of Some (u, p) \<Rightarrow> (u, Some p) | None \<Rightarrow> (?info, None)) = (user, pwd)"
    using char_marks(1) [OF user(2)] by (cases pwd) (auto simp: split_once_hit split_once_miss)
  have "0x23 \<notin> set q" if "query = Some q" for q
  proof
    assume "0x23 \<in> set q"
    then have "escaped_char 0x23 \<or> (0x23 :: byte) = 0x3D" using query that by (auto simp: list_all_iff)
    then show False by (simp add: escaped_char_def is_alnum_def)
  qed
  then have "0x23 \<notin> set (host @ 0x3A # ?port @ ?query)"
    using assms(1) port(2) by (auto simp: no_marks_def str_def split: option.split)
  then have frag: "(case split_once 0x23 (host @ 0x3A # ?port @ ?query @ ?fr) of Some (s, f) \<Rightarrow> (s, Some f)
      | None \<Rightarrow> (host @ 0x3A # ?port @ ?query @ ?fr, None)) = (host @ 0x3A # ?port @ ?query, fr)"
    using split_once_hit [of "0x23" "host @ 0x3A # ?port @ ?query"] split_once_miss [of "0x23" "host @ 0x3A # ?port @ ?query"]
    by (cases fr) auto
  have "0x2F \<notin> set (host @ 0x3A # ?port)" using assms(1) port(2) by (auto simp: no_marks_def)
  then have path: "(case split_once 0x2F (host @ 0x3A # ?port @ ?query) of Some (s, q) \<Rightarrow> (s, Some (drop 1 q))
      | None \<Rightarrow> (host @ 0x3A # ?port @ ?query, None)) = (host @ 0x3A # ?port, query)"
    using split_once_hit [of "0x2F" "host @ 0x3A # ?port"] split_once_miss [of "0x2F" "host @ 0x3A # ?port"]
    by (cases query) (auto simp: str_def)
  show "url_parse demo_url (url_text user pwd host port query fr)
      = Ok \<lparr>pu_scheme = str ''ss'', pu_username = user, pu_password = pwd, pu_host_str = Some host, pu_port = Some port,
            pu_query = query, pu_fragment = fr\<rparr>"
    using info [of "host @ 0x3A # ?port @ ?query @ ?fr"] creds frag path rsplit_once_hit [OF port(1), of host] assms(2)
    by (simp add: demo_url_def demo_url_parse_def url_text_def)
qed

lemma no_marks_append [simp]: "no_marks (s @ t) = (no_marks s \<and> no_marks t)" "no_marks []"
  "no_marks (b # s) = (b \<noteq> 0x40 \<and> b \<noteq> 0x23 \<and> b \<noteq> 0x2F \<and> no_marks s)"
  by (auto simp: no_marks_def)

lemma no_marks_join: "d \<in> {0x3A, 0x2E} \<Longrightarrow> \<forall>p \<in> set ps. no_marks p \<Longrightarrow> no_marks (join_with d ps)"
  by (induction d ps rule: join_with.induct) auto

lemma no_marks_show_hex: "no_marks (show_hex n)"
proof -
  obtain ds where "read_digits 16 (show_hex n) = (ds, [])" by (rule number_textE [OF show_hex_text [of n]])
  then have "to_digit 16 b \<noteq> None" if "b \<in> set (show_hex n)" for b using hex_text_digits that by blast
  moreover have "to_digit 16 0x40 = None" "to_digit 16 0x23 = None" "to_digit 16 0x2F = None" by (simp_all add: to_digit_def)
  ultimately show ?thesis unfolding no_marks_def by metis
qed

lemma no_marks_show_ipv4: "no_marks (show_ipv4 ip)"
  by (rule char_marks(3) [OF show_ipv4_host(1)])

lemma no_marks_show_ipv6: "no_marks (show_ipv6 ip)"
proof -
  have "no_marks (show_groups gs)" for gs unfolding show_groups_def by (rule no_marks_join) (auto simp: no_marks_show_hex)
  moreover have "no_marks (str ''::'')" "no_marks (str ''::ffff:'')" by (simp_all add: str_def)
  ultimately show ?thesis by (simp add: show_ipv6_def no_marks_show_ipv4 split: option.split prod.split)
qed

lemma demo_url_laws: "url_laws demo_url"
  unfolding url_laws_def
proof (intro conjI allI impI)
  fix ip
  have "no_marks (0x5B # show_ipv6 ip @ [0x5D])" using no_marks_show_ipv6 by simp
  then have "url_reads demo_url (0x5B # show_ipv6 ip @ [0x5D]) (0x5B # show_ipv6 ip @ [0x5D])" by (rule demo_url_reads) simp
  moreover have "parse_socket_addr ((0x5B # show_ipv6 ip @ [0x5D]) @ 0x3A # show_nat (unat port)) = Some (V6 ip port 0 0)" for port
    using parse_show_socket_addr [of "V6 ip port 0 0"] by (simp add: str_def)
  ultimately show "\<exists>host'. url_reads demo_url (0x5B # show_ipv6 ip @ [0x5D]) host'
      \<and> (\<forall>port. parse_socket_addr (host' @ 0x3A # show_nat (unat port)) = Some (V6 ip port 0 0))" by blast
qed (use demo_unescape_escape demo_escape_chars demo_unescape_plain char_marks(1,3) demo_url_reads in \<open>auto simp: demo_url_def\<close>)

lemma split_once_length: "split_once d s = Some (l, r) \<Longrightarrow> length l \<le> length s \<and> length r \<le> length s"
  by (drule split_once_Some) auto

lemma rsplit_once_length: "rsplit_once d s = Some (l, r) \<Longrightarrow> length l \<le> length s"
  by (auto simp: rsplit_once_def dest!: split_once_length)

lemma demo_url_host:
  assumes "demo_url_parse s = Ok u" "pu_host_str u = Some host"
  shows "host \<noteq> [] \<and> 5 + length host \<le> length s"
proof -
  obtain s1 where s1: "s = str ''ss://'' @ s1" using assms(1) by (auto simp: demo_url_parse_def strip_prefix_Some split: option.split_asm)
  obtain info s2 where s2: "(case split_once 0x40 s1 of Some is \<Rightarrow> is | None \<Rightarrow> ([], s1)) = (info, s2)" by fastforce
  obtain s3 fr where s3: "(case split_once 0x23 s2 of Some (s, f) \<Rightarrow> (s, Some f) | None \<Rightarrow> (s2, None)) = (s3, fr)" by fastforce
  obtain s4 query where s4: "(case split_once 0x2F s3 of Some (s, q) \<Rightarrow> (s, Some (drop 1 q)) | None \<Rightarrow> (s3, None)) = (s4, query)" by fastforce
  obtain h port where h: "(case rsplit_once 0x3A s4 of Some (h, p) \<Rightarrow> (h, parse_u16 p) | None \<Rightarrow> (s4, None)) = (h, port)" by fastforce
  have "host = h \<and> h \<noteq> []"
    using assms s2 s3 s4 h by (auto simp: demo_url_parse_def s1 split: prod.split_asm if_split_asm)
  moreover have "length s2 \<le> length s1" "length s3 \<le> length s2" "length s4 \<le> length s3" "length h \<le> length s4"
    using s2 s3 s4 h by (auto dest: split_once_length rsplit_once_length split: option.split_asm)
  ultimately show ?thesis by (simp add: s1)
qed

lemma demo_url_host_laws: "url_host_laws demo_crates demo_url"
  unfolding url_host_laws_def demo_url_def using demo_url_host by auto

section \<open>The properties at concrete inputs\<close>

abbreviation "demo_addr \<equiv> ServerSocketAddr (V6 1 8388 0 0)"

text \<open>The password of a user with one identity key.\<close>

definition demo_password :: rstring where
  "demo_password = join_with 0x3A [demo_encode (replicate 16 1), demo_encode (replicate 16 2)]"

lemma demo_password_text: "valid_utf8 demo_password"
proof -
  have "is_ascii (demo_encode bs)" for bs using demo_encode_chars by (auto simp: is_ascii_def list_all_iff)
  then show ?thesis unfolding demo_password_def by (intro valid_utf8_ascii is_ascii_join) simp
qed

lemma demo_password_keys:
  "password_to_keys demo_crates AEAD2022_BLAKE3_AES_128_GCM demo_password
     = Ok (demo_encode (replicate 16 2), replicate 16 2, [replicate 16 1])"
proof -
  have "split_all 0x3A demo_password = [demo_encode (replicate 16 1), demo_encode (replicate 16 2)]"
    unfolding demo_password_def by (rule split_join) (use demo_encode_chars in auto)
  then show ?thesis
    by (simp add: password_to_keys_def method_support_eih_def make_derived_key_def demo_crates_def demo_kind_of_def some_kind_def
        is_aead_2022_def demo_decode_encode)
qed

lemma demo_config: "\<exists>c. config_new demo_crates demo_addr demo_password AEAD2022_BLAKE3_AES_128_GCM = Ok c
    \<and> cfg_method c = AEAD2022_BLAKE3_AES_128_GCM \<and> cfg_identity_keys c = [replicate 16 1]"
  by (simp add: config_new_def demo_password_keys)

theorem config_keys_fit_witness:
  "\<exists>c. config_new demo_crates demo_addr demo_password AEAD2022_BLAKE3_AES_128_GCM = Ok c
     \<and> config_wf demo_crates c \<and> cfg_identity_keys c = [replicate 16 1]"
proof -
  obtain c where c: "config_new demo_crates demo_addr demo_password AEAD2022_BLAKE3_AES_128_GCM = Ok c" "cfg_identity_keys c = [replicate 16 1]"
    using demo_config by blast
  from config_keys_fit [OF demo_crate_laws, of demo_addr demo_password AEAD2022_BLAKE3_AES_128_GCM c] c show ?thesis by blast
qed

theorem set_method_error_unfit_witness:
  "\<exists>c c'. config_new demo_crates demo_addr demo_password AEAD2022_BLAKE3_AES_128_GCM = Ok c
     \<and> set_method demo_crates AEAD2022_BLAKE3_AES_256_GCM [] c = (Err (InvalidKeyLength AEAD2022_BLAKE3_AES_256_GCM 32 0), c')
     \<and> \<not> config_wf demo_crates c'"
proof -
  obtain c where c: "config_new demo_crates demo_addr demo_password AEAD2022_BLAKE3_AES_128_GCM = Ok c"
    "cfg_method c = AEAD2022_BLAKE3_AES_128_GCM" using demo_config by blast
  let ?c' = "c\<lparr>cfg_method := AEAD2022_BLAKE3_AES_256_GCM\<rparr>"
  have "set_method demo_crates AEAD2022_BLAKE3_AES_256_GCM [] c = (Err (InvalidKeyLength AEAD2022_BLAKE3_AES_256_GCM 32 0), ?c')"
    by (simp add: set_method_def password_to_keys_def method_support_eih_def make_derived_key_def demo_crates_def demo_kind_of_def
        some_kind_def is_aead_2022_def)
  moreover from set_method_error_unfit [OF config_new_wf [OF demo_crate_laws c(1)] this] c(2) have "\<not> config_wf demo_crates ?c'"
    by (simp add: demo_crates_def demo_kind_of_def some_kind_def)
  ultimately show ?thesis using c(1) by blast
qed

theorem from_url_ends_witness: "\<exists>r. from_url demo_crates demo_url (str ''ss://'' @ demo_encode (str ''@host'')) = Some r"
  by (rule from_url_ends [OF demo_crate_laws demo_url_host_laws])

theorem config_url_roundtrip_witness:
  "\<exists>c. cfg_remarks c = Some (str ''home'') \<and> cfg_plugin c \<noteq> None \<and> cfg_identity_keys c = [replicate 16 1]
     \<and> from_url demo_crates demo_url (to_url demo_crates demo_url c) = Some (Ok c)"
proof -
  obtain c0 where c0: "config_new demo_crates demo_addr demo_password AEAD2022_BLAKE3_AES_128_GCM = Ok c0" "cfg_identity_keys c0 = [replicate 16 1]"
    using demo_config by blast
  let ?plugin = "\<lparr>pc_plugin = str ''obfs'', pc_plugin_opts = Some (str ''a;b''), pc_plugin_args = [], pc_plugin_mode = TcpOnly\<rparr>"
  have "url_plugin_ok ?plugin" by (simp add: url_plugin_ok_def plugin_text_def str_def)
  moreover have "valid_utf8 (str ''home'')" by (simp add: str_def)
  ultimately show ?thesis
    using config_url_roundtrip [OF demo_crate_laws demo_url_laws c0(1) demo_password_text, of "Some ?plugin" "Some (str ''home'')"
        "c0\<lparr>cfg_plugin := Some ?plugin, cfg_remarks := Some (str ''home'')\<rparr>"] c0(2)
    by (intro exI [of _ "c0\<lparr>cfg_plugin := Some ?plugin, cfg_remarks := Some (str ''home'')\<rparr>"]) simp
qed

end
