(* ===== verification/Spec2Isabelle.thy ===== *)
theory Spec2Isabelle
  imports Socks5_Messages Packet_Window Replay Async_Io Tcp_Aead Server_Users Tcp_Aead2022 Tcp_Stream Crypto_Stream Proxy_Stream Proxy_Session Realm_Control Realm_Punch Realm_Stun Socks5_Server Udp_Packet Udp_Socket Sub_Domains Acl Dns_Lookup Udp_Server Udp_Routing Udp_Local Udp_Session Udp_Answers Config_Witness
begin

text \<open>
  A verification library for shadowsocks-rust-realms: the shadowsocks protocol, the servers and clients around it, and
  the realm extension that connects peers behind address translation. Paths are below \<open>src/crates/\<close>.

  \<^bold>\<open>How the program works.\<close> A client takes connections and packets of applications, for instance by SOCKS5, decides by an
  access control list what goes out directly and what through a server, and sends the rest to a shadowsocks server. A
  TCP connection is an encrypted stream that starts with the target address; a UDP packet is one encrypted datagram with
  its target. The server checks salts, timestamps and packet ids against replays, finds the user, and relays to the target.
  With a realm, client and server meet by STUN and hole punching and speak a small control protocol.

  \<^bold>\<open>Conventions.\<close> Rust values keep their form: structs are records, enums datatypes, fixed-width integers words. \<open>res\<close> has
  \<open>Ok\<close>, \<open>Err\<close> and \<open>Panic\<close>. Code outside the repository (ciphers, hashes, Base64, URL parsing, regular expressions, caches that
  forget entries) is a record of operations with a predicate of documented laws, and each property that assumes such laws
  has a witness for an instance that satisfies them. The clock, random draws, the network and the operating system are arguments.

  \<^bold>\<open>Foundations.\<close>
  \<^item> \<open>Prelude\<close>: bytes, results, byte sources, and the locales \<open>codec\<close> and \<open>framed_codec\<close> of a wire format with its round
    trip, truncation and prefix lemmas. \<open>Rust_Text\<close>, \<open>Rust_Trim\<close>, \<open>Inet_Text\<close>: text operations of the standard library and the text
    of socket addresses, with parsing inverse to printing for IPv4 and IPv6. \<open>Net_Addr\<close>: addresses and \<open>shadowsocks-realm/src/socket.rs\<close>.
  \<^item> \<open>Async_Io\<close>, \<open>Async_Task\<close>: streams that deliver and accept bytes in any pieces, and tasks that poll them. The
    locales \<open>byte_source\<close>, \<open>byte_reader\<close> and \<open>message_writer\<close> say what a polled reader and writer promise; every cipher
    stream and both ends of a proxied connection are interpretations. An \<open>await\<close> is bounded by a number of polls, the
    theorems hold for every bound that is enough, and they give one: the number of pieces that the network cuts the data into.

  \<^bold>\<open>SOCKS5.\<close> \<open>Socks5\<close>, \<open>Socks5_Messages\<close>: \<open>shadowsocks/src/relay/socks5.rs\<close>, every message an interpretation of
  \<open>framed_codec\<close>; the two readers of an address agree, and one panics where the other reports an error. \<open>Socks5_Server\<close>:
  \<open>local/socks/server/socks5/tcprelay.rs\<close> and the negotiation of \<open>net/outbound/socks5.rs\<close> in \<open>shadowsocks-service\<close>: nothing is dialled without
  authentication when users are configured, and client and server complete the negotiation with each other.

  \<^bold>\<open>Replay protection.\<close> \<open>Packet_Window\<close>: \<open>shadowsocks-service/src/net/packet_window.rs\<close> refines a set of accepted ids. \<open>Replay\<close>:
  \<open>shadowsocks/src/security/replay/\<close>: a salt is accepted once while it is remembered.

  \<^bold>\<open>TCP.\<close> \<open>Tcp_Aead\<close>, \<open>Tcp_Aead2022\<close>, \<open>Tcp_Stream\<close> with \<open>Server_Users\<close>: the polled readers and writers of
  \<open>shadowsocks/src/relay/tcprelay/\<close>. What is written is read back for every cutting of the network, nothing is delivered before the
  salt was checked, and an AEAD-2022 header is accepted only under its conditions. \<open>Crypto_Stream\<close>: \<open>crypto_io.rs\<close>, the choice of the
  cipher. \<open>Proxy_Stream\<close>, \<open>Proxy_Session\<close>: \<open>proxy_stream/\<close>, where the server gets the address and data of the client, and
  the client accepts only a response to its own request.

  \<^bold>\<open>UDP.\<close> \<open>Udp_Packet\<close>, \<open>Udp_Socket\<close>: \<open>shadowsocks/src/relay/udprelay/\<close>, packets of all categories and the proxied
  socket. \<open>Dns_Lookup\<close>: \<open>lookup_then!\<close>, with the locale \<open>attempts\<close> for what is tried on each address. \<open>Udp_Server\<close>, \<open>Udp_Routing\<close>:
  \<open>shadowsocks-service/src/server/udprelay.rs\<close>, an association as a function of its events and the server as a step relation with an
  invariant of all reachable states. \<open>Udp_Local\<close>: the association of the client in \<open>local/net/udp/association.rs\<close>.
  \<open>Udp_Session\<close>: both ends and a hostile network between them, where each packet is relayed at most once. \<open>Udp_Answers\<close>: the
  application gets each answer at most once.

  \<^bold>\<open>Access control.\<close> \<open>Sub_Domains\<close>, \<open>Acl\<close>: \<open>shadowsocks-service/src/acl/\<close>. The tree refines a set of names, the lists that are read from a
  file are those its lines say, and an IPv4-mapped address is treated as the IPv4 address.

  \<^bold>\<open>Configuration.\<close> \<open>Server_Config\<close>, \<open>Config_Url\<close>, \<open>Config_Witness\<close>: \<open>shadowsocks/src/config.rs\<close>. Keys have the length of
  their method; a configuration is read back from its URL; reading a URL ends. \<open>from_url\<close> is a \<open>partial_function\<close>, where \<open>None\<close> is a
  recursion that does not end, and it is proved to return.

  \<^bold>\<open>Realm.\<close> \<open>Realm_Control\<close>, \<open>Realm_Punch\<close>, \<open>Realm_Stun\<close>: \<open>control.rs\<close>, \<open>path_manager.rs\<close>, \<open>punch.rs\<close> and \<open>stun.rs\<close> of
  \<open>shadowsocks-realm/src/\<close>. Control messages make the round trip within the bounds of a frame, punching ends and succeeds when packets
  arrive, and only a peer that answers is confirmed; a STUN response is parsed to the address it carries. The loops run on a list of
  rounds, each with the clock and what was received; a list that passes the deadline is shown to be long enough.

  \<^bold>\<open>Not modelled.\<close> Accept loops, spawning of tasks and the copying between two streams, which only pass data between the modelled parts;
  sockets, system calls and generated bindings; what is done by crates, such as HTTP, TLS, QUIC, DNS messages, JSON, the stack of the
  virtual interface and RocksDB below the fake DNS; the load balancer, which ranks servers by floating-point scores of measured
  latencies; SOCKS4, plugins, the manager, command lines and configuration files. In the modelled parts, log output and traffic counters
  are left out, \<open>debug_assert!\<close> has no effect, and of the UDP client the table of associations by application address is not modelled.
\<close>

end
